(* ===== verification/Prelude.thy ===== *)
theory Prelude
  imports Main "HOL-Library.AList" "HOL-Library.Monad_Syntax"
begin

text \<open>
  Shared vocabulary of the development: Python exceptions and fallible results, Python dicts
  as insertion-ordered association lists, awaitables, and the generic facts about lists that
  the queue and lease proofs use.
  The collection \<open>py_simps\<close> carries the Python layer, \<open>backend_simps\<close> the
  unfolding facts of the stores, and \<open>lease_simps\<close> the facts about moving one id
  between lists.
\<close>

named_theorems py_simps "evaluation of the Python layer"
named_theorems backend_simps "observations of a backend after an operation"
named_theorems lease_simps "moving one id between lists"

section \<open>Exceptions and fallible results\<close>

datatype pyexc =
    KeyError string
  | ValueError string
  | TypeError string
  | AttributeError string
  | RuntimeError string
  | TaskNameError string
  | ConfigError string
  | JobCancelled string
  | TargetError string
  | ImportError string
  | UnicodeDecodeError string
  | ResponseError string
  | ConnectionError string
  | UserError string
  | TimeoutError
  | CancelledError

text \<open>Python's \<open>except Exception\<close> does not catch \<open>asyncio.CancelledError\<close>, which
  derives from \<open>BaseException\<close>.\<close>

definition is_Exception :: "pyexc \<Rightarrow> bool" where
  "is_Exception e \<longleftrightarrow> e \<noteq> CancelledError"

type_synonym 'a res = "pyexc + 'a"

definition rbind :: "'a res \<Rightarrow> ('a \<Rightarrow> 'b res) \<Rightarrow> 'b res" where
  "rbind x f = (case x of Inl e \<Rightarrow> Inl e | Inr a \<Rightarrow> f a)"

definition isOk :: "'a res \<Rightarrow> bool" where
  "isOk x \<longleftrightarrow> (case x of Inl _ \<Rightarrow> False | Inr _ \<Rightarrow> True)"

text \<open>An awaited call either cannot proceed yet or has come back with a result.\<close>

datatype 'a await = Pending | Ready "'a res"

section \<open>Python dicts\<close>

text \<open>
  A dict keeps insertion order and has distinct keys; assigning to a present key keeps its
  position. This is the association list of \<open>HOL-Library.AList\<close>: \<open>map_of\<close> looks
  up, \<open>AList.update\<close> assigns, \<open>AList.delete\<close> pops.
\<close>

type_synonym 'v pydict = "(string \<times> 'v) list"

definition dict_index :: "'v pydict \<Rightarrow> string \<Rightarrow> 'v res" where
  "dict_index d k = (case map_of d k of None \<Rightarrow> Inl (KeyError k) | Some v \<Rightarrow> Inr v)"

definition is_dict :: "'v pydict \<Rightarrow> bool" where
  "is_dict d \<longleftrightarrow> distinct (map fst d)"

section \<open>Facts about fallible results\<close>

lemma rbind_simps [simp, py_simps]:
  "rbind (Inl e) f = Inl e"
  "rbind (Inr a) f = f a"
  by (simp_all add: rbind_def)

lemma rbind_assoc: "rbind (rbind x f) g = rbind x (\<lambda>a. rbind (f a) g)"
  by (cases x) simp_all

lemma rbind_Inr_iff: "rbind x f = Inr b \<longleftrightarrow> (\<exists>a. x = Inr a \<and> f a = Inr b)"
  by (cases x) auto

lemma isOk_simps [simp, py_simps]: "isOk (Inr a)" "\<not> isOk (Inl e)"
  by (simp_all add: isOk_def)

lemma isOk_iff: "isOk x \<longleftrightarrow> (\<exists>a. x = Inr a)"
  by (cases x) auto

lemma dict_index_Inr [simp]: "dict_index d k = Inr v \<longleftrightarrow> map_of d k = Some v"
  by (auto simp: dict_index_def split: option.splits)

lemma dict_index_Some [simp, py_simps]: "map_of d k = Some v \<Longrightarrow> dict_index d k = Inr v"
  by simp

section \<open>Facts about dicts\<close>

lemma map_of_dict_update [simp]: "map_of (AList.update k v d) = (map_of d)(k \<mapsto> v)"
  by (rule update_conv')

lemma is_dict_update [simp]: "is_dict d \<Longrightarrow> is_dict (AList.update k v d)"
  by (simp add: is_dict_def distinct_update)

lemma set_dict_update: "set (AList.update k v d) \<subseteq> insert (k, v) (set d)"
  by (induction d) auto

lemma all_dict_update [intro]:
  "P (k, v) \<Longrightarrow> \<forall>p \<in> set d. P p \<Longrightarrow> \<forall>p \<in> set (AList.update k v d). P p"
  using set_dict_update [of k v d] by blast

lemma is_dict_map_of_rev: "is_dict d \<Longrightarrow> map_of (rev d) = map_of d"
  by (rule map_of_eqI) (auto simp: is_dict_def rev_map [symmetric] map_of_eq_None_iff
      intro!: map_of_is_SomeI dest!: map_of_SomeD)

section \<open>Moving an id between lists\<close>

lemma set_remove1_distinct [lease_simps]:
  "distinct xs \<Longrightarrow> set (remove1 x xs) = set xs - {x}"
  by (rule set_remove1_eq)

lemma remove1_snoc_last [lease_simps]: "x \<notin> set xs \<Longrightarrow> remove1 x (xs @ [x]) = xs"
  by (simp add: remove1_append)

lemma remove1_not_in [lease_simps]: "x \<notin> set xs \<Longrightarrow> remove1 x xs = xs"
  by (rule remove1_idem)

end
