(* ===== verification/Py_Base.thy ===== *)
theory Py_Base
  imports Prelude
begin

text \<open>
  The part of the Python language and standard library that the records of the queue rest on:
  decimal conversion (\<open>str(n)\<close> and \<open>int(s)\<close>), \<open>repr\<close> of a string, UTF-8
  encoding, exceptions as text, the values a task may take or return, and UTC datetimes in
  ISO format.
  A Python \<open>str\<close> is a list of code points; the model's \<open>string\<close> holds code points
  below 256, one \<open>char\<close> each. A \<open>bytes\<close> object is a \<open>string\<close> of bytes.
\<close>

section \<open>Integers as text\<close>

definition digit :: "nat \<Rightarrow> char" where
  "digit d = char_of (48 + d)"

definition is_digit :: "char \<Rightarrow> bool" where
  "is_digit c \<longleftrightarrow> 48 \<le> (of_char c :: nat) \<and> (of_char c :: nat) \<le> 57"

definition digit_val :: "char \<Rightarrow> nat" where
  "digit_val c = of_char c - 48"

fun str_of_nat :: "nat \<Rightarrow> string" where
  "str_of_nat n = (if n < 10 then [digit n] else str_of_nat (n div 10) @ [digit (n mod 10)])"

declare str_of_nat.simps [simp del]

definition str_of_int :: "int \<Rightarrow> string" where
  "str_of_int i = (if i < 0 then CHR ''-'' # str_of_nat (nat (- i)) else str_of_nat (nat i))"

definition is_space :: "char \<Rightarrow> bool" where
  "is_space c \<longleftrightarrow> (of_char c :: nat) \<in> {9, 10, 11, 12, 13, 28, 29, 30, 31, 32, 133, 160}"

definition strip :: "string \<Rightarrow> string" where
  "strip s = rev (dropWhile is_space (rev (dropWhile is_space s)))"

text \<open>Digits with single underscores between them; the flag says a digit came last.\<close>

fun int_digits :: "bool \<Rightarrow> nat \<Rightarrow> string \<Rightarrow> nat option" where
  "int_digits d acc [] = (if d then Some acc else None)"
| "int_digits d acc (c # cs) =
     (if is_digit c then int_digits True (10 * acc + digit_val c) cs
      else if c = CHR ''_'' \<and> d then int_digits False acc cs
      else None)"

definition int_literal :: "string \<Rightarrow> int option" where
  "int_literal s =
     (case s of
        [] \<Rightarrow> None
      | c # cs \<Rightarrow>
          if c = CHR ''-'' then map_option (\<lambda>n. - int n) (int_digits False 0 cs)
          else if c = CHR ''+'' then map_option int (int_digits False 0 cs)
          else map_option int (int_digits False 0 s))"

section \<open>Strings: repr and UTF-8\<close>

definition hex_digit :: "nat \<Rightarrow> char" where
  "hex_digit d = (if d < 10 then digit d else char_of (87 + d))"

definition is_printable :: "char \<Rightarrow> bool" where
  "is_printable c \<longleftrightarrow>
     (let n = (of_char c :: nat) in (32 \<le> n \<and> n \<le> 126) \<or> (161 \<le> n \<and> n \<noteq> 173))"

definition repr_char :: "char \<Rightarrow> char \<Rightarrow> string" where
  "repr_char q c =
     (if c = q \<or> c = CHR 0x5C then [CHR 0x5C, c]
      else if c = CHR 0x0A then [CHR 0x5C, CHR ''n'']
      else if c = CHR 0x0D then [CHR 0x5C, CHR ''r'']
      else if c = CHR 0x09 then [CHR 0x5C, CHR ''t'']
      else if is_printable c then [c]
      else [CHR 0x5C, CHR ''x'', hex_digit (of_char c div 16), hex_digit (of_char c mod 16)])"

definition py_repr :: "string \<Rightarrow> string" where
  "py_repr s =
     (let q = (if CHR 0x27 \<in> set s \<and> CHR 0x22 \<notin> set s
               then CHR 0x22 else CHR 0x27)
      in [q] @ concat (map (repr_char q) s) @ [q])"

definition py_int :: "string \<Rightarrow> int res" where
  "py_int s =
     (case int_literal (strip s) of
        None \<Rightarrow> Inl (ValueError (''invalid literal for int() with base 10: '' @ py_repr s))
      | Some i \<Rightarrow> Inr i)"

definition utf8_char :: "char \<Rightarrow> string" where
  "utf8_char c =
     (let n = (of_char c :: nat)
      in if n < 128 then [c] else [char_of (192 + n div 64), char_of (128 + n mod 64)])"

definition utf8_encode :: "string \<Rightarrow> string" where
  "utf8_encode s = concat (map utf8_char s)"

fun utf8_decode :: "string \<Rightarrow> string res" where
  "utf8_decode [] = Inr []"
| "utf8_decode (c # cs) =
     (let n = (of_char c :: nat)
      in if n < 128 then rbind (utf8_decode cs) (\<lambda>s. Inr (c # s))
         else if n = 194 \<or> n = 195 then
           (case cs of
              [] \<Rightarrow> Inl (UnicodeDecodeError ''unexpected end of data'')
            | d # ds \<Rightarrow>
                let m = (of_char d :: nat)
                in if 128 \<le> m \<and> m < 192
                   then rbind (utf8_decode ds) (\<lambda>s. Inr (char_of ((n - 192) * 64 + (m - 128)) # s))
                   else Inl (UnicodeDecodeError ''invalid continuation byte''))
         else Inl (UnicodeDecodeError ''invalid start byte''))"

text \<open>\<open>str(e)\<close>: a \<open>KeyError\<close> prints the \<open>repr\<close> of its argument.\<close>

fun py_str_exc :: "pyexc \<Rightarrow> string" where
  "py_str_exc (KeyError m) = py_repr m"
| "py_str_exc (ValueError m) = m"
| "py_str_exc (TypeError m) = m"
| "py_str_exc (AttributeError m) = m"
| "py_str_exc (RuntimeError m) = m"
| "py_str_exc (TaskNameError m) = m"
| "py_str_exc (ConfigError m) = m"
| "py_str_exc (JobCancelled m) = m"
| "py_str_exc (TargetError m) = m"
| "py_str_exc (ImportError m) = m"
| "py_str_exc (UnicodeDecodeError m) = m"
| "py_str_exc (ResponseError m) = m"
| "py_str_exc (ConnectionError m) = m"
| "py_str_exc (UserError m) = m"
| "py_str_exc TimeoutError = []"
| "py_str_exc CancelledError = []"

section \<open>Values\<close>

text \<open>
  The objects a task takes and returns: \<open>None\<close>, bools, ints, strs, bytes, lists, tuples
  and str-keyed dicts. Floats and objects of user classes are left out.
\<close>

datatype pyval =
    PNone
  | PBool bool
  | PInt int
  | PStr string
  | PBytes string
  | PList "pyval list"
  | PTuple "pyval list"
  | PDict "(string \<times> pyval) list"

fun type_name :: "pyval \<Rightarrow> string" where
  "type_name PNone = ''NoneType''"
| "type_name (PBool _) = ''bool''"
| "type_name (PInt _) = ''int''"
| "type_name (PStr _) = ''str''"
| "type_name (PBytes _) = ''bytes''"
| "type_name (PList _) = ''list''"
| "type_name (PTuple _) = ''tuple''"
| "type_name (PDict _) = ''dict''"

text \<open>\<open>iter(v)\<close>: the elements a \<open>for\<close> loop over \<open>v\<close> sees.\<close>

definition py_iter :: "pyval \<Rightarrow> pyval list res" where
  "py_iter v =
     (case v of
        PStr s \<Rightarrow> Inr (map (\<lambda>c. PStr [c]) s)
      | PBytes b \<Rightarrow> Inr (map (\<lambda>c. PInt (int (of_char c))) b)
      | PList xs \<Rightarrow> Inr xs
      | PTuple xs \<Rightarrow> Inr xs
      | PDict d \<Rightarrow> Inr (map (\<lambda>p. PStr (fst p)) d)
      | _ \<Rightarrow> Inl (TypeError (type_name v @ '' object is not iterable'')))"

text \<open>\<open>v["k"]\<close>: subscription with a str key.\<close>

definition py_getitem :: "pyval \<Rightarrow> string \<Rightarrow> pyval res" where
  "py_getitem v k =
     (case v of
        PDict d \<Rightarrow> dict_index d k
      | _ \<Rightarrow> Inl (TypeError (type_name v @ '' object cannot be subscripted by str'')))"

text \<open>\<open>dict(v)\<close>: a copy of a dict, or a dict built from an iterable of pairs.\<close>

fun dict_of_pairs :: "pyval list \<Rightarrow> pyval pydict \<Rightarrow> pyval pydict res" where
  "dict_of_pairs [] d = Inr d"
| "dict_of_pairs (p # ps) d =
     rbind (py_iter p) (\<lambda>kv.
       case kv of
         [PStr k, v] \<Rightarrow> dict_of_pairs ps (AList.update k v d)
       | [_, _] \<Rightarrow> Inl (TypeError ''dict key is not a str'')
       | _ \<Rightarrow> Inl (ValueError ''dictionary update sequence element has wrong length''))"

definition py_dict :: "pyval \<Rightarrow> pyval pydict res" where
  "py_dict v = (case v of PDict d \<Rightarrow> Inr d | _ \<Rightarrow> rbind (py_iter v) (\<lambda>ps. dict_of_pairs ps []))"

section \<open>UTC datetimes in ISO format\<close>

record datetime =
  year :: nat
  month :: nat
  day :: nat
  hour :: nat
  minute :: nat
  second :: nat
  microsecond :: nat

definition is_leap :: "nat \<Rightarrow> bool" where
  "is_leap y \<longleftrightarrow> y mod 4 = 0 \<and> (y mod 100 \<noteq> 0 \<or> y mod 400 = 0)"

definition days_in_month :: "nat \<Rightarrow> nat \<Rightarrow> nat" where
  "days_in_month y m =
     (if m = 2 then (if is_leap y then 29 else 28)
      else if m = 4 \<or> m = 6 \<or> m = 9 \<or> m = 11 then 30 else 31)"

definition valid_datetime :: "datetime \<Rightarrow> bool" where
  "valid_datetime d \<longleftrightarrow>
     1 \<le> year d \<and> year d \<le> 9999 \<and> 1 \<le> month d \<and> month d \<le> 12 \<and>
     1 \<le> day d \<and> day d \<le> days_in_month (year d) (month d) \<and>
     hour d < 24 \<and> minute d < 60 \<and> second d < 60 \<and> microsecond d < 1000000"

fun pad :: "nat \<Rightarrow> nat \<Rightarrow> string" where
  "pad 0 n = []"
| "pad (Suc w) n = pad w (n div 10) @ [digit (n mod 10)]"

definition isoformat :: "datetime \<Rightarrow> string" where
  "isoformat d =
     pad 4 (year d) @ ''-'' @ pad 2 (month d) @ ''-'' @ pad 2 (day d) @ ''T'' @
     pad 2 (hour d) @ '':'' @ pad 2 (minute d) @ '':'' @ pad 2 (second d) @
     (if microsecond d = 0 then [] else ''.'' @ pad 6 (microsecond d)) @ ''+00:00''"

definition take_num :: "nat \<Rightarrow> string \<Rightarrow> (nat \<times> string) option" where
  "take_num w s =
     (if length s < w \<or> \<not> list_all is_digit (take w s) then None
      else Some (foldl (\<lambda>a c. 10 * a + digit_val c) 0 (take w s), drop w s))"

definition take_lit :: "string \<Rightarrow> string \<Rightarrow> string option" where
  "take_lit l s = (if take (length l) s = l then Some (drop (length l) s) else None)"

definition take_micro :: "string \<Rightarrow> (nat \<times> string) option" where
  "take_micro s = (case take_lit ''.'' s of None \<Rightarrow> Some (0, s) | Some s' \<Rightarrow> take_num 6 s')"

text \<open>
  \<open>datetime.fromisoformat\<close>, on the layout that \<open>isoformat\<close> of a UTC datetime
  produces; the other ISO 8601 layouts Python accepts are outside the model.
\<close>

definition parse_iso :: "string \<Rightarrow> datetime option" where
  "parse_iso s = do {
     (y, s) \<leftarrow> take_num 4 s; s \<leftarrow> take_lit ''-'' s;
     (mo, s) \<leftarrow> take_num 2 s; s \<leftarrow> take_lit ''-'' s;
     (d, s) \<leftarrow> take_num 2 s; s \<leftarrow> take_lit ''T'' s;
     (h, s) \<leftarrow> take_num 2 s; s \<leftarrow> take_lit '':'' s;
     (mi, s) \<leftarrow> take_num 2 s; s \<leftarrow> take_lit '':'' s;
     (se, s) \<leftarrow> take_num 2 s;
     (us, s) \<leftarrow> take_micro s;
     s \<leftarrow> take_lit ''+00:00'' s;
     if s = [] then Some \<lparr>year = y, month = mo, day = d, hour = h, minute = mi, second = se,
                           microsecond = us\<rparr> else None }"

definition fromisoformat :: "string \<Rightarrow> datetime res" where
  "fromisoformat s =
     (case parse_iso s of
        None \<Rightarrow> Inl (ValueError (''Invalid isoformat string: '' @ py_repr s))
      | Some d \<Rightarrow> if valid_datetime d then Inr d
                  else Inl (ValueError (''Invalid isoformat string: '' @ py_repr s)))"

section \<open>Decimal conversion round trips\<close>

lemma of_char_digit [simp]: "d < 10 \<Longrightarrow> (of_char (digit d) :: nat) = 48 + d"
  by (simp add: digit_def)

lemma is_digit_digit [simp, py_simps]: "d < 10 \<Longrightarrow> is_digit (digit d)"
  by (simp add: is_digit_def)

lemma digit_val_digit [simp, py_simps]: "d < 10 \<Longrightarrow> digit_val (digit d) = d"
  by (simp add: digit_val_def)

lemma int_digits_snoc:
  "list_all is_digit ds \<Longrightarrow> int_digits b acc ds = Some n \<Longrightarrow> is_digit c \<Longrightarrow>
   int_digits b acc (ds @ [c]) = Some (10 * n + digit_val c)"
  by (induction ds arbitrary: b acc) (auto split: if_splits)

lemma str_of_nat_digits: "list_all is_digit (str_of_nat n)"
proof (induction n rule: str_of_nat.induct)
  case (1 n)
  then show ?case by (subst str_of_nat.simps) auto
qed

lemma int_digits_str_of_nat [simp]: "int_digits False 0 (str_of_nat n) = Some n"
proof (induction n rule: str_of_nat.induct)
  case (1 n)
  show ?case
  proof (cases "n < 10")
    case True
    then show ?thesis by (subst str_of_nat.simps) simp
  next
    case False
    with "1" have "int_digits False 0 (str_of_nat (n div 10)) = Some (n div 10)" by simp
    with False show ?thesis
      by (subst str_of_nat.simps) (simp add: int_digits_snoc [OF str_of_nat_digits])
  qed
qed

lemma str_of_nat_Nil [simp]: "str_of_nat n \<noteq> []"
  by (subst str_of_nat.simps) simp

lemma is_digit_not_space: "is_digit c \<Longrightarrow> \<not> is_space c"
  by (auto simp: is_digit_def is_space_def)

lemma str_of_int_ends:
  "\<not> is_space (hd (str_of_int i))" "\<not> is_space (last (str_of_int i))" "str_of_int i \<noteq> []"
proof -
  have m: "\<not> is_space CHR ''-''" by (simp add: is_space_def)
  have d: "\<not> is_space (hd (str_of_nat n))" "\<not> is_space (last (str_of_nat n))" for n
    using str_of_nat_digits [of n] by (simp_all add: list_all_iff is_digit_not_space)
  show "\<not> is_space (hd (str_of_int i))" "\<not> is_space (last (str_of_int i))" "str_of_int i \<noteq> []"
    by (simp_all add: str_of_int_def m d)
qed

lemma strip_id:
  assumes "s \<noteq> []" "\<not> is_space (hd s)" "\<not> is_space (last s)"
  shows "strip s = s"
proof -
  have "dropWhile is_space s = s" "dropWhile is_space (rev s) = rev s"
    using assms by (simp_all add: dropWhile_eq_self_iff hd_rev)
  then show ?thesis by (simp add: strip_def)
qed

lemma is_digit_sign: "\<not> is_digit CHR ''-''" "\<not> is_digit CHR ''+''"
  by (simp_all add: is_digit_def)

lemma int_literal_str_of_int [simp]: "int_literal (str_of_int i) = Some i"
proof (cases "i < 0")
  case True
  then show ?thesis by (simp add: str_of_int_def int_literal_def)
next
  case False
  obtain c cs where s: "str_of_nat (nat i) = c # cs"
    by (metis list.exhaust str_of_nat_Nil)
  have "is_digit c" using str_of_nat_digits [of "nat i"] by (simp add: s)
  then have "c \<noteq> CHR ''-''" "c \<noteq> CHR ''+''" using is_digit_sign by auto
  with False s show ?thesis
    using int_digits_str_of_nat [of "nat i"] by (simp add: str_of_int_def int_literal_def)
qed

lemma py_int_str_of_int [simp, py_simps]: "py_int (str_of_int i) = Inr i"
  by (simp add: py_int_def strip_id str_of_int_ends)

lemma digit_0_1: "digit 0 = CHR ''0''" "digit (Suc 0) = CHR ''1''"
proof -
  have "(of_char (digit 0) :: nat) = of_char CHR ''0''"
    "(of_char (digit (Suc 0)) :: nat) = of_char CHR ''1''" by simp_all
  then show "digit 0 = CHR ''0''" "digit (Suc 0) = CHR ''1''" by (simp_all only: of_char_eq_iff)
qed

lemma str_of_int_0_1 [simp, py_simps]: "str_of_int 0 = ''0''" "str_of_int 1 = ''1''"
  by (simp_all add: str_of_int_def str_of_nat.simps digit_0_1)

lemma str_of_int_inj [simp]: "str_of_int a = str_of_int b \<longleftrightarrow> a = b"
  by (metis int_literal_str_of_int option.inject)

section \<open>UTF-8 round trip\<close>

lemma utf8_decode_char: "utf8_decode (utf8_char c @ bs) = rbind (utf8_decode bs) (\<lambda>s. Inr (c # s))"
proof (cases "(of_char c :: nat) < 128")
  case True
  then show ?thesis by (simp add: utf8_char_def)
next
  case False
  let ?n = "of_char c :: nat"
  have "?n < 256" by simp
  with False have "?n div 64 = 2 \<or> ?n div 64 = 3" by linarith
  then have lead: "192 + ?n div 64 = 194 \<or> 192 + ?n div 64 = 195" by auto
  have "?n div 64 = 2 \<Longrightarrow> 128 + ?n mod 64 = ?n" "?n div 64 = 3 \<Longrightarrow> 192 + ?n mod 64 = ?n"
    using div_mult_mod_eq [of ?n 64] by linarith+
  then have same: "?n div 64 = 2 \<Longrightarrow> char_of (128 + ?n mod 64) = c"
      "?n div 64 = 3 \<Longrightarrow> char_of (192 + ?n mod 64) = c"
    by simp_all
  have "?n mod 64 < 64" by simp
  with False lead same show ?thesis
    by (auto simp: utf8_char_def Let_def)
qed

lemma utf8_decode_encode [simp, py_simps]: "utf8_decode (utf8_encode s) = Inr s"
  by (induction s) (simp_all add: utf8_encode_def utf8_decode_char)

lemma utf8_encode_ascii: "\<forall>c \<in> set s. (of_char c :: nat) < 128 \<Longrightarrow> utf8_encode s = s"
  by (induction s) (auto simp: utf8_encode_def utf8_char_def)

section \<open>Datetime round trip\<close>

lemma length_pad [simp]: "length (pad w n) = w"
  by (induction w arbitrary: n) auto

lemma pad_digits: "list_all is_digit (pad w n)"
  by (induction w arbitrary: n) auto

lemma pad_value: "n < 10 ^ w \<Longrightarrow> foldl (\<lambda>a c. 10 * a + digit_val c) 0 (pad w n) = n"
proof (induction w arbitrary: n)
  case 0
  then show ?case by simp
next
  case (Suc w)
  from Suc.prems have "n div 10 < 10 ^ w" by (simp add: less_mult_imp_div_less mult.commute)
  then have "foldl (\<lambda>a c. 10 * a + digit_val c) 0 (pad w (n div 10)) = n div 10" by (rule Suc.IH)
  then show ?case by simp
qed

lemma take_num_pad [simp]: "n < 10 ^ w \<Longrightarrow> take_num w (pad w n @ s) = Some (n, s)"
  by (simp add: take_num_def pad_digits pad_value)

lemma take_lit_append [simp]: "take_lit l (l @ s) = Some s"
  by (simp add: take_lit_def)

lemma take_micro_isoformat:
  "us < 1000000 \<Longrightarrow>
   take_micro ((if us = 0 then [] else ''.'' @ pad 6 us) @ ''+00:00'') = Some (us, ''+00:00'')"
  using take_lit_append [of "''.''" "pad 6 us @ ''+00:00''"]
  by (auto simp: take_micro_def) (simp add: take_lit_def)

lemma parse_iso_isoformat: "valid_datetime d \<Longrightarrow> parse_iso (isoformat d) = Some d"
proof -
  assume v: "valid_datetime d"
  have dm: "days_in_month y m \<le> 31" for y m by (simp add: days_in_month_def)
  from v dm [of "year d" "month d"]
  have b: "year d < 10 ^ 4" "month d < 10 ^ 2" "day d < 10 ^ 2" "hour d < 10 ^ 2"
    "minute d < 10 ^ 2" "second d < 10 ^ 2" "microsecond d < 1000000"
    by (auto simp: valid_datetime_def)
  show ?thesis
    unfolding parse_iso_def isoformat_def
    by (simp only: take_num_pad [OF b(1)] take_num_pad [OF b(2)] take_num_pad [OF b(3)]
        take_num_pad [OF b(4)] take_num_pad [OF b(5)] take_num_pad [OF b(6)] take_lit_append
        take_micro_isoformat [OF b(7)] bind.bind_lunit prod.case append_Nil2
        take_lit_append [of "''+00:00''" "[]", unfolded append_Nil2]) simp
qed

lemma fromisoformat_isoformat [simp, py_simps]:
  "valid_datetime d \<Longrightarrow> fromisoformat (isoformat d) = Inr d"
  by (simp add: fromisoformat_def parse_iso_isoformat)

end
