(* ===== verification/Job.thy ===== *)
theory Job
  imports Py_Base
begin

text \<open>
  \<open>job.py\<close> and the \<open>Serializer\<close> protocol of \<open>serializers/interface.py\<close>:
  job statuses, the \<open>Job\<close> object and its storage form. A stored record is a dict whose
  control fields are strs and whose payload and result are bytes; \<open>to_record\<close> writes it
  and \<open>from_record\<close> reads it back. The locale \<open>codec\<close> is the serializer
  contract, and its main lemma is the round trip of a job through its record.
\<close>

section \<open>Statuses\<close>

datatype JobStatus = CREATED | QUEUED | RUNNING | COMPLETED | FAILED | CANCELLED

fun status_value :: "JobStatus \<Rightarrow> string" where
  "status_value CREATED = ''created''"
| "status_value QUEUED = ''queued''"
| "status_value RUNNING = ''running''"
| "status_value COMPLETED = ''completed''"
| "status_value FAILED = ''failed''"
| "status_value CANCELLED = ''cancelled''"

instantiation JobStatus :: enum
begin

definition enum_JobStatus :: "JobStatus list" where
  "enum_JobStatus = [CREATED, QUEUED, RUNNING, COMPLETED, FAILED, CANCELLED]"

definition enum_all_JobStatus :: "(JobStatus \<Rightarrow> bool) \<Rightarrow> bool" where
  "enum_all_JobStatus P \<longleftrightarrow>
     P CREATED \<and> P QUEUED \<and> P RUNNING \<and> P COMPLETED \<and> P FAILED \<and> P CANCELLED"

definition enum_ex_JobStatus :: "(JobStatus \<Rightarrow> bool) \<Rightarrow> bool" where
  "enum_ex_JobStatus P \<longleftrightarrow>
     P CREATED \<or> P QUEUED \<or> P RUNNING \<or> P COMPLETED \<or> P FAILED \<or> P CANCELLED"

instance
proof
  show "(UNIV :: JobStatus set) = set enum_class.enum"
    unfolding enum_JobStatus_def by (auto intro: JobStatus.exhaust)
qed (auto simp: enum_JobStatus_def enum_all_JobStatus_def enum_ex_JobStatus_def,
    (metis JobStatus.exhaust)+)

end

text \<open>The constructor call \<open>JobStatus(s)\<close> of the \<open>StrEnum\<close>: lookup by value.\<close>

definition JobStatus_of :: "string \<Rightarrow> JobStatus res" where
  "JobStatus_of s =
     (case filter (\<lambda>st. status_value st = s) Enum.enum of
        st # _ \<Rightarrow> Inr st
      | [] \<Rightarrow> Inl (ValueError (py_repr s @ '' is not a valid JobStatus'')))"

definition terminal :: "JobStatus \<Rightarrow> bool" where
  "terminal st \<longleftrightarrow> st = COMPLETED \<or> st = FAILED \<or> st = CANCELLED"

section \<open>Stored records and serializers\<close>

datatype fval = Str string | Bytes string

type_synonym hrecord = "fval pydict"

record serializer =
  dumps :: "pyval \<Rightarrow> string res"
  loads :: "fval \<Rightarrow> pyval res"

section \<open>The Job object\<close>

record job =
  jid :: string
  task_name :: string
  created_at :: datetime
  args :: "pyval list"
  kwargs :: "(string \<times> pyval) list"
  status :: JobStatus
  result :: pyval
  error :: "string option"
  attempts :: int
  request_cancel :: bool
  group_id :: "string option"

text \<open>
  \<open>Job(...)\<close>: \<open>uuid4().hex\<close> and \<open>datetime.now(UTC)\<close> are the arguments
  \<open>fresh\<close> and \<open>now\<close>. An absent or empty id takes the fresh one.
\<close>

definition Job_init ::
  "string \<Rightarrow> datetime \<Rightarrow> string \<Rightarrow> string option \<Rightarrow> pyval list \<Rightarrow> (string \<times> pyval) list
   \<Rightarrow> string option \<Rightarrow> job" where
  "Job_init fresh now name ident as ks gid =
     \<lparr>jid = (case ident of None \<Rightarrow> fresh | Some i \<Rightarrow> if i = [] then fresh else i),
      task_name = name, created_at = now, args = as, kwargs = ks, status = CREATED,
      result = PNone, error = None, attempts = 0, request_cancel = False, group_id = gid\<rparr>"

definition job_eq :: "job \<Rightarrow> job \<Rightarrow> bool" where
  "job_eq a b \<longleftrightarrow> jid a = jid b"

definition job_hash :: "(string \<Rightarrow> int) \<Rightarrow> job \<Rightarrow> int" where
  "job_hash hash j = hash (jid j)"

definition to_record :: "serializer \<Rightarrow> job \<Rightarrow> hrecord res" where
  "to_record S j =
     rbind (dumps S (PDict [(''args'', PList (args j)), (''kwargs'', PDict (kwargs j))])) (\<lambda>payload.
       let r = [(''id'', Str (jid j)),
                (''task_name'', Str (task_name j)),
                (''created_at'', Str (isoformat (created_at j))),
                (''status'', Str (status_value (status j))),
                (''attempts'', Str (str_of_int (attempts j))),
                (''request_cancel'', Str (str_of_int (of_bool (request_cancel j)))),
                (''payload'', Bytes payload)];
           r = (case group_id j of None \<Rightarrow> r | Some g \<Rightarrow> AList.update ''group_id'' (Str g) r);
           r = (case error j of None \<Rightarrow> r | Some e \<Rightarrow> AList.update ''error'' (Str e) r)
       in if status j = COMPLETED
          then rbind (dumps S (result j)) (\<lambda>b. Inr (AList.update ''result'' (Bytes b) r))
          else Inr r)"

text \<open>
  Control fields hold strs: reading one that holds bytes is a \<open>TypeError\<close> of the model,
  a case the declared type \<open>dict[str, str | bytes]\<close> of the stored record rules out.
\<close>

definition field_str :: "fval \<Rightarrow> string res" where
  "field_str v = (case v of Str s \<Rightarrow> Inr s | Bytes _ \<Rightarrow> Inl (TypeError ''control field holds bytes''))"

definition get_str :: "hrecord \<Rightarrow> string \<Rightarrow> string res" where
  "get_str r k = rbind (dict_index r k) field_str"

definition get_opt :: "hrecord \<Rightarrow> string \<Rightarrow> string option res" where
  "get_opt r k = (case map_of r k of None \<Rightarrow> Inr None | Some v \<Rightarrow> rbind (field_str v) (\<lambda>s. Inr (Some s)))"

definition get_int :: "hrecord \<Rightarrow> string \<Rightarrow> int res" where
  "get_int r k = rbind (get_opt r k) (\<lambda>v. case v of None \<Rightarrow> Inr 0 | Some s \<Rightarrow> py_int s)"

definition get_blob :: "serializer \<Rightarrow> hrecord \<Rightarrow> string \<Rightarrow> pyval option res" where
  "get_blob S r k =
     (case map_of r k of None \<Rightarrow> Inr None | Some raw \<Rightarrow> rbind (loads S raw) (\<lambda>v. Inr (Some v)))"

definition from_record :: "serializer \<Rightarrow> hrecord \<Rightarrow> job res" where
  "from_record S r =
     rbind (get_blob S r ''payload'') (\<lambda>payload.
     rbind (get_blob S r ''result'') (\<lambda>res.
     rbind (get_str r ''id'') (\<lambda>i.
     rbind (get_str r ''task_name'') (\<lambda>name.
     rbind (rbind (get_str r ''created_at'') fromisoformat) (\<lambda>created.
     rbind (rbind (get_str r ''status'') JobStatus_of) (\<lambda>st.
     rbind (get_opt r ''error'') (\<lambda>err.
     rbind (case payload of None \<Rightarrow> Inr [] | Some p \<Rightarrow> rbind (py_getitem p ''args'') py_iter) (\<lambda>as.
     rbind (case payload of None \<Rightarrow> Inr [] | Some p \<Rightarrow> rbind (py_getitem p ''kwargs'') py_dict) (\<lambda>ks.
     rbind (get_int r ''request_cancel'') (\<lambda>rc.
     rbind (get_int r ''attempts'') (\<lambda>att.
     rbind (get_opt r ''group_id'') (\<lambda>gid.
       Inr \<lparr>jid = i, task_name = name, created_at = created, args = as, kwargs = ks,
            status = st, result = (case res of None \<Rightarrow> PNone | Some v \<Rightarrow> v), error = err,
            attempts = att, request_cancel = (rc \<noteq> 0), group_id = gid\<rparr>))))))))))))"

text \<open>
  A job whose values the codec represents, and the job that comes back from its record.
\<close>

definition fits_job :: "(pyval \<Rightarrow> bool) \<Rightarrow> job \<Rightarrow> bool" where
  "fits_job fits j \<longleftrightarrow>
     (\<forall>v \<in> set (args j). fits v) \<and> is_dict (kwargs j) \<and> (\<forall>v \<in> snd ` set (kwargs j). fits v) \<and>
     (status j = COMPLETED \<longrightarrow> fits (result j)) \<and> valid_datetime (created_at j)"

definition norm_job :: "(pyval \<Rightarrow> pyval) \<Rightarrow> job \<Rightarrow> job" where
  "norm_job norm j = j\<lparr>args := map norm (args j),
     kwargs := map (\<lambda>(k, v). (k, norm v)) (kwargs j),
     result := (if status j = COMPLETED then norm (result j) else PNone)\<rparr>"

section \<open>Statuses and their values\<close>

lemma status_value_inj [simp]: "status_value a = status_value b \<longleftrightarrow> a = b"
  by (cases a; cases b) simp_all

lemma JobStatus_of_value [simp, py_simps]: "JobStatus_of (status_value st) = Inr st"
  by (cases st) (simp_all add: JobStatus_of_def enum_JobStatus_def)

lemma JobStatus_of_Inr: "JobStatus_of s = Inr st \<longleftrightarrow> s = status_value st"
proof
  assume "JobStatus_of s = Inr st"
  then obtain sts where "filter (\<lambda>st. status_value st = s) Enum.enum = st # sts"
    by (auto simp: JobStatus_of_def split: list.splits)
  then have "st \<in> set (filter (\<lambda>st. status_value st = s) Enum.enum)" by simp
  then show "s = status_value st" by simp
qed simp

section \<open>Records read back what was written\<close>

text \<open>\<open>from_record\<close> reads a record through its lookups only.\<close>

lemma from_record_cong: "map_of r = map_of r' \<Longrightarrow> from_record S r = from_record S r'"
  by (simp add: from_record_def get_blob_def get_str_def get_opt_def get_int_def dict_index_def)

lemmas record_reads = get_blob_def get_str_def get_opt_def get_int_def field_str_def dict_index_def

lemma to_record_fields:
  assumes "to_record S j = Inr r"
  obtains payload where
    "dumps S (PDict [(''args'', PList (args j)), (''kwargs'', PDict (kwargs j))]) = Inr payload"
    "map_of r ''id'' = Some (Str (jid j))"
    "map_of r ''task_name'' = Some (Str (task_name j))"
    "map_of r ''created_at'' = Some (Str (isoformat (created_at j)))"
    "map_of r ''status'' = Some (Str (status_value (status j)))"
    "map_of r ''attempts'' = Some (Str (str_of_int (attempts j)))"
    "map_of r ''request_cancel'' = Some (Str (str_of_int (of_bool (request_cancel j))))"
    "map_of r ''payload'' = Some (Bytes payload)"
    "map_of r ''group_id'' = map_option Str (group_id j)"
    "map_of r ''error'' = map_option Str (error j)"
    "status j \<noteq> COMPLETED \<Longrightarrow> map_of r ''result'' = None"
    "status j = COMPLETED \<Longrightarrow> \<exists>b. dumps S (result j) = Inr b \<and> map_of r ''result'' = Some (Bytes b)"
  using assms
  by (auto simp: to_record_def rbind_Inr_iff Let_def split: option.splits if_splits)

lemma to_record_is_dict: "to_record S j = Inr r \<Longrightarrow> is_dict r"
  by (auto simp: to_record_def rbind_Inr_iff Let_def is_dict_def intro!: distinct_update
      split: option.splits if_splits)

text \<open>Writing can fail only in the serializer.\<close>

lemma to_record_Inl_iff:
  "(\<exists>e. to_record S j = Inl e) \<longleftrightarrow>
   (\<exists>e. dumps S (PDict [(''args'', PList (args j)), (''kwargs'', PDict (kwargs j))]) = Inl e) \<or>
   (status j = COMPLETED \<and> (\<exists>e. dumps S (result j) = Inl e))"
  by (cases "dumps S (PDict [(''args'', PList (args j)), (''kwargs'', PDict (kwargs j))])";
      cases "dumps S (result j)") (auto simp: to_record_def Let_def)

section \<open>The serializer contract\<close>

text \<open>
  Round-trip fidelity within the codec's type model: a representable value serializes, and
  loading the bytes gives the value back up to \<open>norm\<close> (a JSON codec returns tuples as
  lists). Lists and str-keyed dicts of representable values are representable, and \<open>norm\<close>
  acts on their elements.
\<close>

locale codec =
  fixes S :: serializer
    and norm :: "pyval \<Rightarrow> pyval"
    and fits :: "pyval \<Rightarrow> bool"
  assumes dumps_fits: "fits v \<Longrightarrow> \<exists>b. dumps S v = Inr b"
    and loads_dumps: "fits v \<Longrightarrow> dumps S v = Inr b \<Longrightarrow> loads S (Bytes b) = Inr (norm v)"
    and fits_list: "(\<And>v. v \<in> set vs \<Longrightarrow> fits v) \<Longrightarrow> fits (PList vs)"
    and fits_dict: "is_dict d \<Longrightarrow> (\<And>v. v \<in> snd ` set d \<Longrightarrow> fits v) \<Longrightarrow> fits (PDict d)"
    and fits_norm: "fits v \<Longrightarrow> fits (norm v)"
    and norm_list: "norm (PList vs) = PList (map norm vs)"
    and norm_dict: "norm (PDict d) = PDict (map (\<lambda>(k, v). (k, norm v)) d)"
begin

lemma fits_payload:
  "fits_job fits j \<Longrightarrow> fits (PDict [(''args'', PList (args j)), (''kwargs'', PDict (kwargs j))])"
  unfolding fits_job_def by (rule fits_dict) (auto simp: is_dict_def intro!: fits_list fits_dict)

lemma to_record_total: "fits_job fits j \<Longrightarrow> \<exists>r. to_record S j = Inr r"
  using dumps_fits [OF fits_payload [of j]] dumps_fits [of "result j"]
  by (auto simp: fits_job_def to_record_def Let_def)

lemma job_roundtrip:
  assumes fit: "fits_job fits j" and wr: "to_record S j = Inr r"
  shows "from_record S r = Inr (norm_job norm j)"
  using wr
proof (rule to_record_fields)
  fix payload
  assume p: "dumps S (PDict [(''args'', PList (args j)), (''kwargs'', PDict (kwargs j))]) = Inr payload"
    and reads: "map_of r ''id'' = Some (Str (jid j))"
    "map_of r ''task_name'' = Some (Str (task_name j))"
    "map_of r ''created_at'' = Some (Str (isoformat (created_at j)))"
    "map_of r ''status'' = Some (Str (status_value (status j)))"
    "map_of r ''attempts'' = Some (Str (str_of_int (attempts j)))"
    "map_of r ''request_cancel'' = Some (Str (str_of_int (of_bool (request_cancel j))))"
    "map_of r ''payload'' = Some (Bytes payload)"
    "map_of r ''group_id'' = map_option Str (group_id j)"
    "map_of r ''error'' = map_option Str (error j)"
    and none: "status j \<noteq> COMPLETED \<Longrightarrow> map_of r ''result'' = None"
    and some: "status j = COMPLETED \<Longrightarrow>
      \<exists>b. dumps S (result j) = Inr b \<and> map_of r ''result'' = Some (Bytes b)"
  have payload: "get_blob S r ''payload'' = Inr (Some (PDict
      [(''args'', PList (map norm (args j))),
       (''kwargs'', PDict (map (\<lambda>(k, v). (k, norm v)) (kwargs j)))]))"
    using loads_dumps [OF fits_payload [OF fit] p] reads
    by (simp add: get_blob_def norm_list norm_dict)
  have res: "get_blob S r ''result'' =
      Inr (if status j = COMPLETED then Some (norm (result j)) else None)"
    using none some fit loads_dumps [of "result j"] by (auto simp: get_blob_def fits_job_def)
  have opt: "get_opt r ''group_id'' = Inr (group_id j)" "get_opt r ''error'' = Inr (error j)"
    using reads by (cases "group_id j"; cases "error j"; simp add: get_opt_def field_str_def)+
  have str: "get_str r ''id'' = Inr (jid j)" "get_str r ''task_name'' = Inr (task_name j)"
    "get_str r ''created_at'' = Inr (isoformat (created_at j))"
    "get_str r ''status'' = Inr (status_value (status j))"
    using reads by (simp_all add: get_str_def dict_index_Some field_str_def)
  have int: "get_int r ''attempts'' = Inr (attempts j)"
    "get_int r ''request_cancel'' = Inr (of_bool (request_cancel j))"
    using reads by (simp_all add: get_int_def get_opt_def field_str_def)
  show ?thesis
    using fit unfolding from_record_def
    by (simp add: payload res opt str int fits_job_def norm_job_def py_getitem_def dict_index_def
        py_iter_def py_dict_def)
qed

end

end
