(* ===== verification/Backend_Interface.thy ===== *)
theory Backend_Interface
  imports Job
begin

text \<open>
  \<open>backends/interface.py\<close>: the \<open>Backend\<close> protocol as a record of operations over a
  store \<open>'s\<close>, and its contract as the locale \<open>backend_contract\<close>. A store is observed
  through \<open>view\<close> (which record each job id has, as a lookup) and \<open>waiting\<close> (the ids
  claimable next, in order). Every client of a backend (handles, tasks, workers, groups) is
  proved against this contract, which both stores then meet.
\<close>

section \<open>The operations\<close>

type_synonym rec_view = "string \<rightharpoonup> fval"

record 's backend =
  b_enqueue :: "string \<Rightarrow> hrecord \<Rightarrow> 's \<Rightarrow> unit res \<times> 's"
  b_claim :: "'s \<Rightarrow> hrecord option res \<times> 's"
  b_get_job :: "string \<Rightarrow> 's \<Rightarrow> hrecord res"
  b_save :: "string \<Rightarrow> hrecord \<Rightarrow> bool \<Rightarrow> 's \<Rightarrow> unit res \<times> 's"
  b_release :: "string \<Rightarrow> 's \<Rightarrow> unit res \<times> 's"
  b_take_result :: "string \<Rightarrow> 's \<Rightarrow> hrecord await \<times> 's"
  b_request_cancel :: "string \<Rightarrow> 's \<Rightarrow> unit res \<times> 's"
  b_request_cancel_many :: "string list \<Rightarrow> 's \<Rightarrow> unit res \<times> 's"
  b_wait_cancel :: "string \<Rightarrow> 's \<Rightarrow> unit await"
  b_heartbeat :: "'s \<Rightarrow> unit res \<times> 's"
  b_deregister :: "'s \<Rightarrow> unit res \<times> 's"
  b_reap :: "'s \<Rightarrow> (int res \<times> 's) option"

text \<open>The message both stores raise for an unknown id.\<close>

definition not_found :: "string \<Rightarrow> pyexc" where
  "not_found i = KeyError (''job '' @ py_repr i @ '' not found'')"

section \<open>Records fit for storage\<close>

definition status_in :: "rec_view \<Rightarrow> JobStatus \<Rightarrow> bool" where
  "status_in m st \<longleftrightarrow> m ''status'' = Some (Str (status_value st))"

definition terminal_in :: "rec_view \<Rightarrow> bool" where
  "terminal_in m \<longleftrightarrow> (\<exists>st. status_in m st \<and> terminal st)"

definition blob_field :: "string \<Rightarrow> bool" where
  "blob_field k \<longleftrightarrow> k = ''payload'' \<or> k = ''result''"

definition typed_field :: "string \<Rightarrow> fval \<Rightarrow> bool" where
  "typed_field k v \<longleftrightarrow> k \<noteq> [] \<and> (case v of Str _ \<Rightarrow> \<not> blob_field k | Bytes _ \<Rightarrow> blob_field k)"

text \<open>Named fields, strs for control fields and bytes for blobs, and readable counters.\<close>

definition storable :: "rec_view \<Rightarrow> bool" where
  "storable m \<longleftrightarrow>
     (\<forall>k v. m k = Some v \<longrightarrow> typed_field k v) \<and>
     (\<exists>st. status_in m st) \<and>
     (\<exists>n. m ''attempts'' = Some (Str (str_of_int n)) \<and> 0 \<le> n) \<and>
     (\<exists>b. m ''request_cancel'' = Some (Str (str_of_int (of_bool b))))"

text \<open>The record after a cancel request: completion wins over a late cancel.\<close>

definition flagged :: "rec_view \<Rightarrow> rec_view" where
  "flagged m = (if terminal_in m then m else m(''request_cancel'' \<mapsto> Str ''1''))"

lemma status_in_inj: "status_in m a \<Longrightarrow> status_in m b \<Longrightarrow> a = b"
  by (simp add: status_in_def)

lemma storable_status: "storable m \<Longrightarrow> (\<And>st. status_in m st \<Longrightarrow> P) \<Longrightarrow> P"
  by (auto simp: storable_def)

lemma terminal_in_status [simp]: "status_in m st \<Longrightarrow> terminal_in m \<longleftrightarrow> terminal st"
  by (auto simp: terminal_in_def dest: status_in_inj)

lemma status_in_update [simp]:
  "status_in (m(''status'' \<mapsto> Str (status_value st))) st' \<longleftrightarrow> st' = st"
  by (auto simp: status_in_def)

lemma status_in_other [simp]: "k \<noteq> ''status'' \<Longrightarrow> status_in (m(k \<mapsto> v)) st \<longleftrightarrow> status_in m st"
  by (simp add: status_in_def)

lemma terminal_in_other [simp]: "k \<noteq> ''status'' \<Longrightarrow> terminal_in (m(k \<mapsto> v)) \<longleftrightarrow> terminal_in m"
  by (simp add: terminal_in_def)

lemma flagged_idem [simp]: "flagged (flagged m) = flagged m"
  by (simp add: flagged_def)

lemma storable_set_status [simp]:
  "storable m \<Longrightarrow> storable (m(''status'' \<mapsto> Str (status_value st)))"
  by (auto simp: storable_def typed_field_def blob_field_def)

lemma storable_set_attempts [simp]:
  "storable m \<Longrightarrow> 0 \<le> n \<Longrightarrow> storable (m(''attempts'' \<mapsto> Str (str_of_int n)))"
  by (auto simp: storable_def typed_field_def blob_field_def status_in_def)

lemma storable_set_cancel [simp]:
  "storable m \<Longrightarrow> storable (m(''request_cancel'' \<mapsto> Str (str_of_int (of_bool b))))"
  by (auto simp: storable_def typed_field_def blob_field_def status_in_def)

text \<open>What a job writes is storable, and its status reads back.\<close>

lemma to_record_status:
  "to_record S j = Inr r \<Longrightarrow> status_in (map_of r) st \<longleftrightarrow> st = status j"
  by (erule to_record_fields) (auto simp: status_in_def)

lemma to_record_typed:
  assumes "to_record S j = Inr r"
  shows "\<forall>p \<in> set r. typed_field (fst p) (snd p)"
  using assms unfolding to_record_def Let_def rbind_Inr_iff
  by (cases "group_id j"; cases "error j"; cases "status j = COMPLETED")
    (auto simp: rbind_Inr_iff typed_field_def blob_field_def)

lemma to_record_storable:
  assumes "to_record S j = Inr r" "0 \<le> attempts j"
  shows "storable (map_of r)"
proof -
  have "\<forall>k v. map_of r k = Some v \<longrightarrow> typed_field k v"
    using to_record_typed [OF assms(1)] by (fastforce dest: map_of_SomeD)
  moreover from assms(1) have "map_of r ''attempts'' = Some (Str (str_of_int (attempts j)))"
    "map_of r ''request_cancel'' = Some (Str (str_of_int (of_bool (request_cancel j))))"
    by (auto elim: to_record_fields)
  ultimately show ?thesis
    using assms to_record_status [OF assms(1)] unfolding storable_def by blast
qed

section \<open>The contract\<close>

text \<open>
  Redis counts deliveries in a signed 64-bit integer; \<open>max_attempts\<close> is its bound.
\<close>

definition max_attempts :: int where
  "max_attempts = 2 ^ 63 - 1"

locale backend_contract =
  fixes B :: "'s backend"
    and inv :: "'s \<Rightarrow> bool"
    and view :: "'s \<Rightarrow> string \<Rightarrow> rec_view option"
    and waiting :: "'s \<Rightarrow> string list"
  assumes view_storable: "inv s \<Longrightarrow> view s i = Some m \<Longrightarrow> storable m"
    and enqueue_known: "inv s \<Longrightarrow> view s i \<noteq> None \<Longrightarrow> b_enqueue B i r s = (Inr (), s)"
    and enqueue_new: "inv s \<Longrightarrow> view s i = None \<Longrightarrow> is_dict r \<Longrightarrow> storable (map_of r) \<Longrightarrow>
      map_of r ''request_cancel'' = Some (Str ''0'') \<Longrightarrow>
      \<exists>s'. b_enqueue B i r s = (Inr (), s') \<and> inv s' \<and>
        view s' = (view s)(i \<mapsto> (map_of r)(''status'' \<mapsto> Str (status_value QUEUED))) \<and>
        waiting s' = waiting s @ [i]"
    and claim_none: "inv s \<Longrightarrow> waiting s = [] \<Longrightarrow> b_claim B s = (Inr None, s)"
    and claim_some: "inv s \<Longrightarrow> waiting s = i # q \<Longrightarrow> view s i = Some m \<Longrightarrow>
      \<not> terminal_in m \<Longrightarrow> m ''attempts'' = Some (Str (str_of_int n)) \<Longrightarrow> n < max_attempts \<Longrightarrow>
      \<exists>r s'. b_claim B s = (Inr (Some r), s') \<and> inv s' \<and>
        map_of r = m(''status'' \<mapsto> Str (status_value RUNNING), ''attempts'' \<mapsto> Str (str_of_int (n + 1))) \<and>
        view s' = (view s)(i \<mapsto> map_of r) \<and> waiting s' = q"
    and get_job_known: "inv s \<Longrightarrow> view s i = Some m \<Longrightarrow> \<exists>r. b_get_job B i s = Inr r \<and> map_of r = m"
    and get_job_unknown: "inv s \<Longrightarrow> view s i = None \<Longrightarrow> b_get_job B i s = Inl (not_found i)"
    and save_unknown: "inv s \<Longrightarrow> view s i = None \<Longrightarrow> b_save B i r True s = (Inl (not_found i), s)"
    and save_known: "inv s \<Longrightarrow> view s i = Some m \<Longrightarrow> is_dict r \<Longrightarrow> storable (map_of r) \<Longrightarrow>
      terminal_in (map_of r) \<Longrightarrow>
      \<exists>s' m'. b_save B i r True s = (Inr (), s') \<and> inv s' \<and> view s' = (view s)(i \<mapsto> m') \<and>
        map_of r \<subseteq>\<^sub>m m' \<and> m' \<subseteq>\<^sub>m m ++ map_of r \<and> waiting s' = waiting s"
    and release_running: "inv s \<Longrightarrow> view s i = Some m \<Longrightarrow> status_in m RUNNING \<Longrightarrow>
      \<exists>s'. b_release B i s = (Inr (), s') \<and> inv s' \<and>
        view s' = (view s)(i \<mapsto> m(''status'' \<mapsto> Str (status_value QUEUED))) \<and>
        waiting s' = waiting s @ [i]"
    and release_other: "inv s \<Longrightarrow> view s i = Some m \<Longrightarrow> \<not> status_in m RUNNING \<Longrightarrow>
      b_release B i s = (Inr (), s)"
    and release_unknown: "inv s \<Longrightarrow> view s i = None \<Longrightarrow> b_release B i s = (Inl (not_found i), s)"
    and take_waits: "inv s \<Longrightarrow> view s i = Some m \<Longrightarrow> \<not> terminal_in m \<Longrightarrow>
      b_take_result B i s = (Pending, s)"
    and take_terminal: "inv s \<Longrightarrow> view s i = Some m \<Longrightarrow> terminal_in m \<Longrightarrow>
      \<exists>r s'. b_take_result B i s = (Ready (Inr r), s') \<and> inv s' \<and> map_of r = m \<and>
        view s' = (view s)(i := None) \<and> waiting s' = waiting s"
    and take_unknown: "inv s \<Longrightarrow> view s i = None \<Longrightarrow>
      b_take_result B i s = (Ready (Inl (not_found i)), s)"
    and cancel_active: "inv s \<Longrightarrow> view s i = Some m \<Longrightarrow> \<not> terminal_in m \<Longrightarrow>
      \<exists>s'. b_request_cancel B i s = (Inr (), s') \<and> inv s' \<and>
        view s' = (view s)(i \<mapsto> m(''request_cancel'' \<mapsto> Str ''1'')) \<and> waiting s' = waiting s"
    and cancel_done: "inv s \<Longrightarrow> view s i = Some m \<Longrightarrow> terminal_in m \<Longrightarrow>
      b_request_cancel B i s = (Inr (), s)"
    and cancel_unknown: "inv s \<Longrightarrow> view s i = None \<Longrightarrow> b_request_cancel B i s = (Inr (), s)"
    and cancel_many_nil: "b_request_cancel_many B [] s = (Inr (), s)"
    and cancel_many_cons: "inv s \<Longrightarrow> b_request_cancel B i s = (Inr (), s') \<Longrightarrow>
      b_request_cancel_many B (i # is) s = b_request_cancel_many B is s'"
    and wait_cancel_active: "inv s \<Longrightarrow> view s i = Some m \<Longrightarrow> \<not> terminal_in m \<Longrightarrow>
      b_wait_cancel B i s =
        (if m ''request_cancel'' = Some (Str ''1'') then Ready (Inr ()) else Pending)"
    and wait_cancel_unknown: "inv s \<Longrightarrow> view s i = None \<Longrightarrow>
      b_wait_cancel B i s = Ready (Inl (not_found i))"
    and heartbeat_frame: "inv s \<Longrightarrow>
      \<exists>s'. b_heartbeat B s = (Inr (), s') \<and> inv s' \<and> view s' = view s \<and> waiting s' = waiting s"
    and deregister_frame: "inv s \<Longrightarrow>
      \<exists>s'. b_deregister B s = (Inr (), s') \<and> inv s' \<and> view s' = view s \<and> waiting s' = waiting s"
    and reap_requeues: "inv s \<Longrightarrow>
      \<exists>s' n ids. b_reap B s = Some (Inr n, s') \<and> inv s' \<and> waiting s' = waiting s @ ids \<and>
        (\<forall>i. i \<notin> set ids \<longrightarrow> view s' i = view s i) \<and>
        (\<forall>i \<in> set ids. \<exists>m. view s i = Some m \<and>
           view s' i = Some (if status_in m RUNNING
             then m(''status'' \<mapsto> Str (status_value QUEUED)) else m)) \<and>
        n = int (length ids)"
begin

text \<open>A cancel request leaves the contract's state valid whatever the job's state is.\<close>

lemma request_cancel_total:
  assumes "inv s"
  obtains s' where "b_request_cancel B i s = (Inr (), s')" "inv s'" "waiting s' = waiting s"
    "view s' = (\<lambda>j. if j = i then map_option flagged (view s i) else view s j)"
proof (cases "view s i")
  case None
  show ?thesis
    by (rule that [of s]) (use assms None cancel_unknown in auto)
next
  case (Some m)
  show ?thesis
  proof (cases "terminal_in m")
    case True
    with Some assms cancel_done show ?thesis by (intro that [of s]) (auto simp: flagged_def)
  next
    case False
    from cancel_active [OF assms Some False] obtain s' where
      s': "b_request_cancel B i s = (Inr (), s')" "inv s'"
        "view s' = (view s)(i \<mapsto> m(''request_cancel'' \<mapsto> Str ''1''))" "waiting s' = waiting s"
      by blast
    with Some False show ?thesis by (intro that [of s']) (auto simp: flagged_def)
  qed
qed

text \<open>A batch is its requests in order: every listed job still active is flagged, all
  others keep their record.\<close>

lemma request_cancel_many_flags:
  assumes "inv s"
  shows "\<exists>s'. b_request_cancel_many B is s = (Inr (), s') \<and> inv s' \<and> waiting s' = waiting s \<and>
    view s' = (\<lambda>i. if i \<in> set is then map_option flagged (view s i) else view s i)"
  using assms
proof (induction "is" arbitrary: s)
  case Nil
  then show ?case using cancel_many_nil by auto
next
  case (Cons i "is")
  obtain s1 where s1: "b_request_cancel B i s = (Inr (), s1)" "inv s1" "waiting s1 = waiting s"
    "view s1 = (\<lambda>j. if j = i then map_option flagged (view s i) else view s j)"
    using request_cancel_total [OF Cons.prems] .
  from Cons.IH [OF s1(2)] obtain s' where s': "b_request_cancel_many B is s1 = (Inr (), s')"
    "inv s'" "waiting s' = waiting s1"
    "view s' = (\<lambda>i. if i \<in> set is then map_option flagged (view s1 i) else view s1 i)"
    by blast
  have "view s' = (\<lambda>j. if j \<in> set (i # is) then map_option flagged (view s j) else view s j)"
    unfolding s'(4) s1(4) by (rule ext) (auto simp: option.map_comp comp_def)
  with s' s1 cancel_many_cons [OF Cons.prems s1(1)] show ?case by auto
qed

end

end
