(* ===== verification/Sha1.thy ===== *)
theory Sha1
  imports Py_Base "HOL-Library.Word"
begin

text \<open>
  \<open>hashlib.sha1(data).hexdigest()\<close> of the standard library, which seeds the ids of spawned
  jobs: the message is padded to whole blocks of 64 bytes, each block runs the 80 rounds on
  32-bit words with wrap-around, and the digest is printed as 40 lower-case hex digits.
\<close>

unbundle bit_operations_syntax

type_synonym sha_state = "32 word \<times> 32 word \<times> 32 word \<times> 32 word \<times> 32 word"

definition rotl32 :: "nat \<Rightarrow> 32 word \<Rightarrow> 32 word" where
  "rotl32 n w = push_bit n w OR drop_bit (32 - n) w"

definition be_bytes :: "nat \<Rightarrow> int \<Rightarrow> int list" where
  "be_bytes k n = rev (map (\<lambda>i. n div 256 ^ i mod 256) [0..<k])"

definition sha_pad :: "int list \<Rightarrow> int list" where
  "sha_pad m = m @ [128] @ replicate ((119 - length m mod 64) mod 64) 0 @ be_bytes 8 (8 * int (length m))"

fun sha_words :: "int list \<Rightarrow> 32 word list" where
  "sha_words (a # b # c # d # ws) =
     word_of_int (((a * 256 + b) * 256 + c) * 256 + d) # sha_words ws"
| "sha_words _ = []"

text \<open>The message schedule, newest word first: 16 words of the block are extended to 80.\<close>

fun sha_extend :: "nat \<Rightarrow> 32 word list \<Rightarrow> 32 word list" where
  "sha_extend 0 ws = ws"
| "sha_extend (Suc n) ws = sha_extend n (rotl32 1 (ws ! 2 XOR ws ! 7 XOR ws ! 13 XOR ws ! 15) # ws)"

definition sha_f :: "nat \<Rightarrow> 32 word \<Rightarrow> 32 word \<Rightarrow> 32 word \<Rightarrow> 32 word" where
  "sha_f t b c d =
     (if t < 20 then (b AND c) OR (NOT b AND d)
      else if t < 40 then b XOR c XOR d
      else if t < 60 then (b AND c) OR (b AND d) OR (c AND d)
      else b XOR c XOR d)"

definition sha_k :: "nat \<Rightarrow> 32 word" where
  "sha_k t = (if t < 20 then 0x5A827999 else if t < 40 then 0x6ED9EBA1
     else if t < 60 then 0x8F1BBCDC else 0xCA62C1D6)"

fun sha_rounds :: "nat \<Rightarrow> 32 word list \<Rightarrow> sha_state \<Rightarrow> sha_state" where
  "sha_rounds t [] s = s"
| "sha_rounds t (w # ws) (a, b, c, d, e) =
     sha_rounds (Suc t) ws (rotl32 5 a + sha_f t b c d + e + sha_k t + w, a, rotl32 30 b, c, d)"

definition sha_block :: "32 word list \<Rightarrow> sha_state \<Rightarrow> sha_state" where
  "sha_block ws s =
     (case s of (a, b, c, d, e) \<Rightarrow>
        case sha_rounds 0 (rev (sha_extend 64 (rev ws))) s of (a', b', c', d', e') \<Rightarrow>
          (a + a', b + b', c + c', d + d', e + e'))"

function sha_blocks :: "32 word list \<Rightarrow> sha_state \<Rightarrow> sha_state" where
  "sha_blocks ws s = (if ws = [] then s else sha_blocks (drop 16 ws) (sha_block (take 16 ws) s))"
  by pat_completeness auto
termination by (relation "measure (length \<circ> fst)") auto

declare sha_blocks.simps [simp del]

definition sha1_words :: "string \<Rightarrow> 32 word list" where
  "sha1_words bs =
     (case sha_blocks (sha_words (sha_pad (map of_char bs)))
             (0x67452301, 0xEFCDAB89, 0x98BADCFE, 0x10325476, 0xC3D2E1F0) of
        (a, b, c, d, e) \<Rightarrow> [a, b, c, d, e])"

definition hex_byte :: "int \<Rightarrow> string" where
  "hex_byte n = [hex_digit (nat (n div 16 mod 16)), hex_digit (nat (n mod 16))]"

definition sha1_hex :: "string \<Rightarrow> string" where
  "sha1_hex bs = concat (map (\<lambda>w. concat (map hex_byte (be_bytes 4 (uint w)))) (sha1_words bs))"

text \<open>The padded message is whole blocks, and the digest is always 40 hex digits.\<close>

lemma length_be_bytes [simp]: "length (be_bytes k n) = k"
  by (simp add: be_bytes_def)

lemma length_sha_pad: "64 dvd length (sha_pad m)"
proof -
  define r where "r = length m mod 64"
  have r: "r < 64" "r \<le> length m" "64 dvd length m - r"
    by (simp_all add: r_def dvd_minus_mod)
  have "(119 - r) mod 64 = (if r \<le> 55 then 55 - r else 119 - r)"
  proof (cases "r \<le> 55")
    case True
    then have "119 - r = 64 + (55 - r)" by simp
    then show ?thesis using True by (simp only: mod_add_self1) simp
  qed (use r(1) in simp)
  then have "length (sha_pad m) = (length m - r) + (if r \<le> 55 then 64 else 128)"
    using r(1,2) by (simp add: sha_pad_def flip: r_def)
  then show ?thesis using r(3) by simp
qed

definition is_hex :: "char \<Rightarrow> bool" where
  "is_hex c \<longleftrightarrow> c \<in> set ''0123456789abcdef''"

lemma is_hex_digit: "d < 16 \<Longrightarrow> is_hex (hex_digit d)"
proof -
  assume "d < 16"
  then have "d \<in> set [0..<16]" by simp
  moreover have "\<forall>d \<in> set [0..<16]. is_hex (hex_digit d)" by code_simp
  ultimately show ?thesis by blast
qed

lemma length_sha1_words: "length (sha1_words bs) = 5"
  by (simp add: sha1_words_def split: prod.splits)

lemma sha1_hex_shape: "length (sha1_hex bs) = 40" "\<forall>c \<in> set (sha1_hex bs). is_hex c"
proof -
  have "length (concat (map hex_byte ns)) = 2 * length ns" for ns
    by (induction ns) (simp_all add: hex_byte_def)
  then have "length (concat (map (\<lambda>w. concat (map hex_byte (be_bytes 4 (uint w)))) ws)) = 8 * length ws"
    for ws :: "32 word list"
    by (induction ws) simp_all
  then show "length (sha1_hex bs) = 40" by (simp add: sha1_hex_def length_sha1_words)
  show "\<forall>c \<in> set (sha1_hex bs). is_hex c"
    by (auto simp: sha1_hex_def hex_byte_def intro!: is_hex_digit)
qed

end
