(* ===== verification/Submission.thy ===== *)
theory Submission
  imports Backend_Interface Sha1
begin

text \<open>
  The producer side: \<open>context.py\<close> (the identity of the running job and its spawn counter),
  \<open>_child_id\<close> of \<open>job_group.py\<close>, \<open>task.py\<close> (\<open>submit\<close>) and
  \<open>handle.py\<close>. The locale \<open>client\<close> joins a store that keeps the backend contract with
  a codec; what it proves holds for every store and serializer.
\<close>

section \<open>Job context and child ids\<close>

record job_context =
  ctx_job_id :: string
  ctx_group_id :: "string option"
  ctx_task_name :: string
  ctx_attempts :: int
  ctx_spawns :: int

definition JobContext_init :: "string \<Rightarrow> string option \<Rightarrow> string \<Rightarrow> int \<Rightarrow> job_context" where
  "JobContext_init i g name n =
     \<lparr>ctx_job_id = i, ctx_group_id = g, ctx_task_name = name, ctx_attempts = n, ctx_spawns = 0\<rparr>"

definition next_spawn :: "job_context \<Rightarrow> int \<times> job_context" where
  "next_spawn c = (let ordinal = ctx_spawns c in (ordinal, c\<lparr>ctx_spawns := ctx_spawns c + 1\<rparr>))"

definition child_seed :: "string \<Rightarrow> int \<Rightarrow> string" where
  "child_seed parent n = parent @ '':'' @ str_of_int n"

text \<open>\<open>_child_id\<close>: the context variable is read and its counter advanced.\<close>

definition child_id :: "job_context option \<Rightarrow> string option \<times> job_context option" where
  "child_id current =
     (case current of
        None \<Rightarrow> (None, None)
      | Some parent \<Rightarrow>
          (case next_spawn parent of (n, parent') \<Rightarrow>
             (Some (take 32 (sha1_hex (utf8_encode (child_seed (ctx_job_id parent) n)))), Some parent')))"

section \<open>Tasks and handles\<close>

text \<open>
  A task's function takes the arguments and, when it comes back, has returned or raised;
  \<open>Pending\<close> is a body that does not come back. Its own calls to the queue are steps of
  the store.
\<close>

record task_obj =
  t_func :: "pyval list \<Rightarrow> (string \<times> pyval) list \<Rightarrow> pyval await"
  t_name :: string
  t_max_retries :: int

definition task_call :: "task_obj \<Rightarrow> pyval list \<Rightarrow> (string \<times> pyval) list \<Rightarrow> pyval await" where
  "task_call t as ks = t_func t as ks"

record job_handle =
  h_job_id :: string
  h_job :: "job option"

definition JobHandle_init :: "string \<Rightarrow> job_handle" where
  "JobHandle_init i = \<lparr>h_job_id = i, h_job = None\<rparr>"

definition submit ::
  "serializer \<Rightarrow> 's backend \<Rightarrow> task_obj \<Rightarrow> string \<Rightarrow> datetime \<Rightarrow> string option \<Rightarrow> string option
   \<Rightarrow> pyval list \<Rightarrow> (string \<times> pyval) list \<Rightarrow> 's \<Rightarrow> job_handle res \<times> 's" where
  "submit S B t fresh now gid ident as ks s =
     (let j = Job_init fresh now (t_name t) ident as ks gid
      in case to_record S j of
           Inl e \<Rightarrow> (Inl e, s)
         | Inr r \<Rightarrow>
             (case b_enqueue B (jid j) r s of
                (Inl e, s') \<Rightarrow> (Inl e, s')
              | (Inr _, s') \<Rightarrow> (Inr (JobHandle_init (jid j)), s')))"

text \<open>\<open>_consume\<close>: the lock admits one caller at a time, so a second one finds the cache.\<close>

definition handle_consume ::
  "serializer \<Rightarrow> 's backend \<Rightarrow> job_handle \<Rightarrow> 's \<Rightarrow> job await \<times> job_handle \<times> 's" where
  "handle_consume S B h s =
     (case h_job h of
        Some j \<Rightarrow> (Ready (Inr j), h, s)
      | None \<Rightarrow>
          (case b_take_result B (h_job_id h) s of
             (Pending, s') \<Rightarrow> (Pending, h, s')
           | (Ready (Inl e), s') \<Rightarrow> (Ready (Inl e), h, s')
           | (Ready (Inr r), s') \<Rightarrow>
               (case from_record S r of
                  Inl e \<Rightarrow> (Ready (Inl e), h, s')
                | Inr j \<Rightarrow> (Ready (Inr j), h\<lparr>h_job := Some j\<rparr>, s'))))"

text \<open>An f-string prints \<open>None\<close> for a missing error text.\<close>

definition job_outcome :: "string \<Rightarrow> job \<Rightarrow> pyval res" where
  "job_outcome i j =
     (if status j = FAILED
      then Inl (RuntimeError (''job '' @ py_repr i @ '' failed: '' @ (case error j of None \<Rightarrow> ''None'' | Some e \<Rightarrow> e)))
      else if status j = CANCELLED
      then Inl (JobCancelled (''job '' @ py_repr i @ '' was cancelled''))
      else Inr (result j))"

definition handle_result ::
  "serializer \<Rightarrow> 's backend \<Rightarrow> job_handle \<Rightarrow> 's \<Rightarrow> pyval await \<times> job_handle \<times> 's" where
  "handle_result S B h s =
     (case handle_consume S B h s of
        (Pending, h', s') \<Rightarrow> (Pending, h', s')
      | (Ready (Inl e), h', s') \<Rightarrow> (Ready (Inl e), h', s')
      | (Ready (Inr j), h', s') \<Rightarrow> (Ready (job_outcome (h_job_id h) j), h', s'))"

definition handle_status :: "'s backend \<Rightarrow> job_handle \<Rightarrow> 's \<Rightarrow> JobStatus res" where
  "handle_status B h s =
     (case h_job h of
        Some j \<Rightarrow> Inr (status j)
      | None \<Rightarrow> rbind (b_get_job B (h_job_id h) s) (\<lambda>r. rbind (get_str r ''status'') JobStatus_of))"

definition handle_cancel :: "'s backend \<Rightarrow> job_handle \<Rightarrow> 's \<Rightarrow> unit res \<times> 's" where
  "handle_cancel B h s = b_request_cancel B (h_job_id h) s"

section \<open>Child ids\<close>

lemma digits_no_colon: "CHR '':'' \<notin> set (str_of_int n)"
proof -
  have "CHR '':'' \<notin> set (str_of_nat m)" for m
    using str_of_nat_digits [of m] by (auto simp: list_all_iff is_digit_def)
  then show ?thesis by (simp add: str_of_int_def)
qed

text \<open>Two spawns have the same seed only if they are the same spawn of the same job.\<close>

lemma child_seed_inj: "child_seed p n = child_seed q k \<longleftrightarrow> p = q \<and> n = k"
proof
  assume eq: "child_seed p n = child_seed q k"
  let ?no = "\<lambda>c. c \<noteq> CHR '':''"
  have tail: "takeWhile ?no (rev (child_seed a i)) = rev (str_of_int i)" for a i
  proof -
    have "takeWhile ?no (rev (str_of_int i) @ CHR '':'' # rev a) = rev (str_of_int i)"
      using digits_no_colon [of i] by (subst takeWhile_append2) auto
    then show ?thesis by (simp add: child_seed_def)
  qed
  from tail [of p n] tail [of q k] eq have "str_of_int n = str_of_int k" by simp
  with eq show "p = q \<and> n = k" by (auto simp: child_seed_def str_of_int_inj)
qed simp

lemma child_id_shape:
  assumes "child_id (Some c) = (Some i, c')"
  shows "length i = 32" "\<forall>x \<in> set i. is_hex x"
proof -
  from assms have i: "i = take 32 (sha1_hex (utf8_encode (child_seed (ctx_job_id c) (ctx_spawns c))))"
    by (simp add: child_id_def next_spawn_def)
  show "length i = 32" by (simp add: i sha1_hex_shape)
  show "\<forall>x \<in> set i. is_hex x" unfolding i using sha1_hex_shape(2) by (meson in_set_takeD)
qed

section \<open>The record of a job\<close>

text \<open>What a store that holds job \<open>j\<close> shows for it.\<close>

definition job_view :: "serializer \<Rightarrow> job \<Rightarrow> rec_view option" where
  "job_view S j = (case to_record S j of Inl _ \<Rightarrow> None | Inr r \<Rightarrow> Some (map_of r))"

lemma job_view_Some: "job_view S j = Some m \<longleftrightarrow> (\<exists>r. to_record S j = Inr r \<and> map_of r = m)"
  by (auto simp: job_view_def split: sum.splits)

lemma job_view_update:
  assumes "job_view S j = Some m" "status j \<noteq> COMPLETED"
  shows "st \<noteq> COMPLETED \<Longrightarrow> job_view S (j\<lparr>status := st\<rparr>) = Some (m(''status'' \<mapsto> Str (status_value st)))"
    "job_view S (j\<lparr>attempts := n\<rparr>) = Some (m(''attempts'' \<mapsto> Str (str_of_int n)))"
    "job_view S (j\<lparr>request_cancel := b\<rparr>) = Some (m(''request_cancel'' \<mapsto> Str (str_of_int (of_bool b))))"
  using assms unfolding job_view_Some to_record_def
  by (cases "group_id j"; cases "error j"; force simp: rbind_Inr_iff fun_eq_iff)+

lemma job_view_fields:
  assumes "job_view S j = Some m"
  shows "status_in m st \<longleftrightarrow> st = status j"
    "m ''attempts'' = Some (Str (str_of_int (attempts j)))"
    "m ''request_cancel'' = Some (Str (str_of_int (of_bool (request_cancel j))))"
    "terminal_in m \<longleftrightarrow> terminal (status j)"
proof -
  obtain r where r: "to_record S j = Inr r" "map_of r = m" using assms by (auto simp: job_view_Some)
  show st: "status_in m st \<longleftrightarrow> st = status j" for st using to_record_status [OF r(1)] r(2) by simp
  then show "terminal_in m \<longleftrightarrow> terminal (status j)" by (simp add: terminal_in_def)
  show "m ''attempts'' = Some (Str (str_of_int (attempts j)))"
    "m ''request_cancel'' = Some (Str (str_of_int (of_bool (request_cancel j))))"
    using r(1) by (rule to_record_fields; simp add: r(2) [symmetric])+
qed

definition job_fields :: "job \<Rightarrow> string set" where
  "job_fields j = {''id'', ''task_name'', ''created_at'', ''status'', ''attempts'', ''request_cancel'', ''payload''} \<union>
     (if group_id j = None then {} else {''group_id''}) \<union> (if error j = None then {} else {''error''}) \<union>
     (if status j = COMPLETED then {''result''} else {})"

lemma job_view_dom:
  assumes "job_view S j = Some m"
  shows "dom m = job_fields j"
  using assms unfolding job_view_Some to_record_def job_fields_def
  by (cases "group_id j"; cases "error j"; cases "status j = COMPLETED")
    (auto simp: rbind_Inr_iff dom_map_of_conv_image_fst split: if_split_asm)

text \<open>A save that merges over the claimed record leaves exactly the record it wrote.\<close>

lemma merged_is_written:
  assumes "map_of r \<subseteq>\<^sub>m m'" "m' \<subseteq>\<^sub>m m ++ map_of r" "dom m \<subseteq> dom (map_of r)"
  shows "m' = map_of r"
proof (rule map_le_antisym [OF _ assms(1)])
  have "m ++ map_of r = map_of r"
    using assms(3) by (auto simp: fun_eq_iff map_add_def dom_def subset_iff split: option.splits)
  with assms(2) show "m' \<subseteq>\<^sub>m map_of r" by simp
qed

section \<open>Clients of a store\<close>

locale client =
  backend_contract B inv view waiting + codec S norm fits
  for B :: "'s backend" and inv :: "'s \<Rightarrow> bool" and view :: "'s \<Rightarrow> string \<Rightarrow> rec_view option"
    and waiting :: "'s \<Rightarrow> string list" and S :: serializer
    and norm :: "pyval \<Rightarrow> pyval" and fits :: "pyval \<Rightarrow> bool"
begin

lemma read_back:
  assumes "fits_job fits j" "job_view S j = Some (map_of r)"
  shows "from_record S r = Inr (norm_job norm j)"
proof -
  obtain r' where "to_record S j = Inr r'" "map_of r' = map_of r" using assms(2) by (auto simp: job_view_Some)
  then show ?thesis using job_roundtrip [OF assms(1)] from_record_cong [of r' r S] by simp
qed

lemma submit_new:
  assumes "inv s" "view s (jid j) = None" "fits_job fits j"
    "j = Job_init fresh now (t_name t) ident as ks gid"
  shows "\<exists>s'. submit S B t fresh now gid ident as ks s = (Inr (JobHandle_init (jid j)), s') \<and> inv s' \<and>
    waiting s' = waiting s @ [jid j] \<and> view s' = (view s)(jid j := job_view S (j\<lparr>status := QUEUED\<rparr>))"
proof -
  obtain r where r: "to_record S j = Inr r" using to_record_total [OF assms(3)] by blast
  then have v: "job_view S j = Some (map_of r)" by (auto simp: job_view_Some)
  have j: "status j = CREATED" "attempts j = 0" "request_cancel j = False" using assms(4) by (simp_all add: Job_init_def)
  have "map_of r ''request_cancel'' = Some (Str ''0'')"
    using job_view_fields(3) [OF v] str_of_int_0_1 by (simp add: j)
  then obtain s' where s': "b_enqueue B (jid j) r s = (Inr (), s')" "inv s'" "waiting s' = waiting s @ [jid j]"
    "view s' = (view s)(jid j \<mapsto> (map_of r)(''status'' \<mapsto> Str (status_value QUEUED)))"
    using enqueue_new [OF assms(1,2) to_record_is_dict [OF r]] to_record_storable [OF r] j(2) by auto
  moreover have "job_view S (j\<lparr>status := QUEUED\<rparr>) = Some ((map_of r)(''status'' \<mapsto> Str (status_value QUEUED)))"
    by (rule job_view_update(1) [OF v]) (simp_all add: j)
  ultimately show ?thesis using r by (simp add: submit_def assms(4) [symmetric])
qed

text \<open>Submitting an id the store knows changes nothing and hands out a handle on that job.\<close>

lemma submit_known:
  assumes "inv s" "view s (jid j) \<noteq> None" "fits_job fits j"
    "j = Job_init fresh now (t_name t) ident as ks gid"
  shows "submit S B t fresh now gid ident as ks s = (Inr (JobHandle_init (jid j)), s)"
proof -
  obtain r where "to_record S j = Inr r" using to_record_total [OF assms(3)] by blast
  with enqueue_known [OF assms(1,2)] show ?thesis by (simp add: submit_def assms(4) [symmetric])
qed

lemma result_waits:
  assumes "inv s" "view s i = Some m" "\<not> terminal_in m" "h_job h = None" "h_job_id h = i"
  shows "handle_result S B h s = (Pending, h, s)"
  using take_waits [OF assms(1-3)] assms(4,5) by (simp add: handle_result_def handle_consume_def)

lemma result_gone:
  assumes "inv s" "view s i = None" "h_job h = None" "h_job_id h = i"
  shows "handle_result S B h s = (Ready (Inl (not_found i)), h, s)"
  using take_unknown [OF assms(1,2)] assms(3,4) by (simp add: handle_result_def handle_consume_def)

text \<open>A finished job: its outcome is returned, its record freed, and later calls are served
  from the handle.\<close>

lemma result_finished:
  assumes "inv s" "fits_job fits j" "view s i = job_view S j" "view s i \<noteq> None" "terminal (status j)"
    "h_job h = None" "h_job_id h = i"
  shows "\<exists>h' s'. handle_result S B h s = (Ready (job_outcome i (norm_job norm j)), h', s') \<and> inv s' \<and>
    view s' = (view s)(i := None) \<and> waiting s' = waiting s \<and>
    (\<forall>t. handle_result S B h' t = (Ready (job_outcome i (norm_job norm j)), h', t)) \<and>
    (\<forall>t. handle_status B h' t = Inr (status j))"
proof -
  obtain m where m: "view s i = Some m" "job_view S j = Some m" using assms(3,4) by auto
  obtain r s' where s': "b_take_result B i s = (Ready (Inr r), s')" "inv s'" "map_of r = m"
    "view s' = (view s)(i := None)" "waiting s' = waiting s"
    using take_terminal [OF assms(1) m(1)] job_view_fields(4) [OF m(2)] assms(5) by blast
  then have "from_record S r = Inr (norm_job norm j)" using read_back [OF assms(2)] m(2) by simp
  with s' assms(6,7) show ?thesis
    by (auto simp: handle_result_def handle_consume_def handle_status_def norm_job_def)
qed

lemma status_reads:
  assumes "inv s" "view s (h_job_id h) = job_view S j" "view s (h_job_id h) \<noteq> None" "h_job h = None"
  shows "handle_status B h s = Inr (status j)"
proof -
  obtain m where m: "view s (h_job_id h) = Some m" "job_view S j = Some m" using assms(2,3) by auto
  obtain r where r: "b_get_job B (h_job_id h) s = Inr r" "map_of r = m"
    using get_job_known [OF assms(1) m(1)] by blast
  have "map_of r ''status'' = Some (Str (status_value (status j)))"
    using job_view_fields(1) [OF m(2), of "status j"] r(2) by (simp add: status_in_def)
  with r(1) assms(4) show ?thesis by (simp add: handle_status_def get_str_def field_str_def)
qed

end

end
