(* ===== verification/Job_Group.thy ===== *)
theory Job_Group
  imports Submission
begin

text \<open>
  \<open>job_group.py\<close>: a scope of spawned jobs. Each spawned job has a local waiter task that
  awaits its handle's result; in \<open>cancel_siblings\<close> mode every waiter carries the done
  callback \<open>_job_finished\<close>. The event loop is the environment: a waiter ends at any time
  (\<open>waiter_done\<close>), and its callback runs later, callbacks in the order of the completions.
  Entering, spawning, joining in each mode, leaving the scope on every path and settling the
  local tasks are operations on the group and the store.
\<close>

section \<open>The group and its operations\<close>

datatype OnError = CANCEL_SIBLINGS | IGNORE | COLLECT

fun OnError_value :: "OnError \<Rightarrow> string" where
  "OnError_value CANCEL_SIBLINGS = ''cancel_siblings''"
| "OnError_value IGNORE = ''ignore''"
| "OnError_value COLLECT = ''collect''"

definition OnError_of :: "string \<Rightarrow> OnError res" where
  "OnError_of v =
     (if v = ''cancel_siblings'' then Inr CANCEL_SIBLINGS
      else if v = ''ignore'' then Inr IGNORE
      else if v = ''collect'' then Inr COLLECT
      else Inl (ValueError (py_repr v @ '' is not a valid OnError'')))"

text \<open>A waiter task: still waiting, ended with the handle's outcome, or cancelled locally.\<close>

datatype waiter = Waiting | Finished "pyval res" | Dropped

record group =
  g_id :: string
  g_on_error :: OnError
  g_deadline :: "int option"
  g_deadline_at :: "int option"
  g_handles :: "job_handle pydict"
  g_waiters :: "(string \<times> waiter) list"
  g_failures :: "pyexc list"
  g_entered :: bool
  g_cancelling :: bool
  g_fanout :: "string list option"
  g_fanned :: bool
  g_callbacks :: "nat list"

definition JobGroup_init :: "string \<Rightarrow> string \<Rightarrow> int option \<Rightarrow> group res" where
  "JobGroup_init fresh on_error deadline =
     rbind (OnError_of on_error) (\<lambda>mode.
       Inr \<lparr>g_id = fresh, g_on_error = mode, g_deadline = deadline, g_deadline_at = None,
            g_handles = [], g_waiters = [], g_failures = [], g_entered = False,
            g_cancelling = False, g_fanout = None, g_fanned = False, g_callbacks = []\<rparr>)"

definition group_enter :: "int \<Rightarrow> group \<Rightarrow> group" where
  "group_enter now g =
     g\<lparr>g_entered := True,
       g_deadline_at := (case g_deadline g of None \<Rightarrow> g_deadline_at g | Some d \<Rightarrow> Some (now + d))\<rparr>"

text \<open>A submitted job enters the scope: its handle always, a waiter only once the scope is entered.\<close>

definition group_register :: "job_handle \<Rightarrow> group \<Rightarrow> group" where
  "group_register h g =
     (let g1 = g\<lparr>g_handles := AList.update (h_job_id h) h (g_handles g)\<rparr>
      in if g_entered g1 then g1\<lparr>g_waiters := g_waiters g1 @ [(h_job_id h, Waiting)]\<rparr> else g1)"

text \<open>\<open>spawn\<close>: the id comes from the running job, if any; a submission that raises leaves the
  group as it was, with the spawn counted.\<close>

definition group_spawn ::
  "serializer \<Rightarrow> 's backend \<Rightarrow> task_obj \<Rightarrow> string \<Rightarrow> datetime \<Rightarrow> job_context option \<Rightarrow> pyval list
   \<Rightarrow> (string \<times> pyval) list \<Rightarrow> group \<Rightarrow> 's \<Rightarrow> job_handle res \<times> job_context option \<times> group \<times> 's" where
  "group_spawn S B t fresh now current as ks g s =
     (case child_id current of (ident, current') \<Rightarrow>
        case submit S B t fresh now (if g_entered g then Some (g_id g) else None) ident as ks s of
          (Inl e, s') \<Rightarrow> (Inl e, current', g, s')
        | (Inr h, s') \<Rightarrow> (Inr h, current', group_register h g, s'))"

definition is_JobCancelled :: "pyexc \<Rightarrow> bool" where
  "is_JobCancelled e \<longleftrightarrow> (case e of JobCancelled _ \<Rightarrow> True | _ \<Rightarrow> False)"

text \<open>The failure a waiter ended with; a task that ends in \<open>CancelledError\<close> is cancelled.\<close>

definition waiter_failure :: "waiter \<Rightarrow> pyexc option" where
  "waiter_failure w =
     (case w of Finished (Inl e) \<Rightarrow> if is_Exception e then Some e else None | _ \<Rightarrow> None)"

definition still_running :: "group \<Rightarrow> string list" where
  "still_running g = map fst (filter (\<lambda>(i, w). w = Waiting) (g_waiters g))"

definition job_finished :: "waiter \<Rightarrow> group \<Rightarrow> group" where
  "job_finished w g =
     (case waiter_failure w of
        None \<Rightarrow> g
      | Some failure \<Rightarrow>
          if g_cancelling g \<and> is_JobCancelled failure then g
          else let g1 = g\<lparr>g_failures := g_failures g @ [failure]\<rparr>
               in if g_cancelling g1 then g1
                  else g1\<lparr>g_cancelling := True, g_fanout := Some (still_running g1)\<rparr>)"

text \<open>The event loop: a waiter ends and its callback is scheduled; the next callback runs.\<close>

definition waiter_done :: "nat \<Rightarrow> pyval res \<Rightarrow> group \<Rightarrow> group" where
  "waiter_done k r g =
     g\<lparr>g_waiters := (g_waiters g)[k := (fst (g_waiters g ! k), Finished r)],
       g_callbacks := (if g_on_error g = CANCEL_SIBLINGS then g_callbacks g @ [k] else g_callbacks g)\<rparr>"

definition run_callback :: "group \<Rightarrow> group" where
  "run_callback g =
     (case g_callbacks g of
        [] \<Rightarrow> g
      | k # ks \<Rightarrow> job_finished (snd (g_waiters g ! k)) (g\<lparr>g_callbacks := ks\<rparr>))"

definition all_done :: "group \<Rightarrow> bool" where
  "all_done g \<longleftrightarrow> list_all (\<lambda>(i, w). w \<noteq> Waiting) (g_waiters g)"

text \<open>\<open>asyncio.wait(..., FIRST_EXCEPTION)\<close>: it refuses an empty set, and comes back when every
  waiter is done or one has failed.\<close>

definition wait_first_exception :: "group \<Rightarrow> unit await" where
  "wait_first_exception g =
     (if g_waiters g = [] then Ready (Inl (ValueError ''Set of Tasks/Futures is empty.''))
      else if all_done g \<or> list_ex (\<lambda>(i, w). waiter_failure w \<noteq> None) (g_waiters g) then Ready (Inr ())
      else Pending)"

definition cancel_siblings_mode :: "'s backend \<Rightarrow> group \<Rightarrow> 's \<Rightarrow> pyexc list await \<times> group \<times> 's" where
  "cancel_siblings_mode B g s =
     (case wait_first_exception g of
        Pending \<Rightarrow> (Pending, g, s)
      | Ready (Inl e) \<Rightarrow> (Ready (Inl e), g, s)
      | Ready (Inr _) \<Rightarrow>
          if all_done g then (Ready (Inr (g_failures g)), g, s)
          else if g_cancelling g then (Pending, g, s)
          else let g1 = g\<lparr>g_cancelling := True\<rparr>
               in case b_request_cancel_many B (still_running g1) s of
                    (Inl e, s') \<Rightarrow> (Ready (Inl e), g1, s')
                  | (Inr _, s') \<Rightarrow> (Pending, g1, s'))"

text \<open>\<open>gather(..., return_exceptions=True)\<close> over the waiters, in spawn order.\<close>

definition gather_errors :: "group \<Rightarrow> pyexc list" where
  "gather_errors g =
     concat (map (\<lambda>(i, w). case w of Finished (Inl e) \<Rightarrow> [e] | Dropped \<Rightarrow> [CancelledError] | _ \<Rightarrow> [])
       (g_waiters g))"

definition ignore_mode :: "group \<Rightarrow> unit await" where
  "ignore_mode g = (if all_done g then Ready (Inr ()) else Pending)"

definition collect_mode :: "group \<Rightarrow> pyexc list await" where
  "collect_mode g = (if all_done g then Ready (Inr (gather_errors g)) else Pending)"

definition group_join :: "'s backend \<Rightarrow> group \<Rightarrow> 's \<Rightarrow> pyexc list await \<times> group \<times> 's" where
  "group_join B g s =
     (case g_on_error g of
        IGNORE \<Rightarrow> (case ignore_mode g of Pending \<Rightarrow> (Pending, g, s)
                   | Ready (Inl e) \<Rightarrow> (Ready (Inl e), g, s) | Ready (Inr _) \<Rightarrow> (Ready (Inr []), g, s))
      | COLLECT \<Rightarrow> (collect_mode g, g, s)
      | CANCEL_SIBLINGS \<Rightarrow> cancel_siblings_mode B g s)"

text \<open>\<open>cancel_all_jobs\<close>: one batch request; the wait for the waiters that follows is bounded and
  its outcome is only logged.\<close>

definition cancel_all_jobs :: "'s backend \<Rightarrow> group \<Rightarrow> 's \<Rightarrow> unit res \<times> 's" where
  "cancel_all_jobs B g s = b_request_cancel_many B (map (\<lambda>(k, h). h_job_id h) (g_handles g)) s"

text \<open>The fan-out task scheduled by the callback: it runs once, and nobody sees its error.\<close>

definition run_fanout :: "'s backend \<Rightarrow> group \<Rightarrow> 's \<Rightarrow> group \<times> 's" where
  "run_fanout B g s =
     (case g_fanout g of
        None \<Rightarrow> (g, s)
      | Some ids \<Rightarrow> if g_fanned g then (g, s) else (g\<lparr>g_fanned := True\<rparr>, snd (b_request_cancel_many B ids s)))"

text \<open>\<open>_settle\<close>: waiters that still wait are cancelled, and the fan-out is collected.\<close>

definition group_settle :: "'s backend \<Rightarrow> group \<Rightarrow> 's \<Rightarrow> group \<times> 's" where
  "group_settle B g s =
     run_fanout B (g\<lparr>g_waiters := map (\<lambda>(i, w). (i, if w = Waiting then Dropped else w)) (g_waiters g)\<rparr>) s"

text \<open>How the join is left: it came back or still waits, the deadline passed, or the task that
  awaits the scope was cancelled.\<close>

datatype join_end = JoinOn | JoinDeadline | JoinCancelled

datatype exit_result =
    ExitNormal
  | ExitRaises pyexc
  | ExitGroup string "pyexc list"
  | ExitWaits

definition cancel_and_raise :: "'s backend \<Rightarrow> pyexc \<Rightarrow> group \<Rightarrow> 's \<Rightarrow> exit_result \<times> group \<times> 's" where
  "cancel_and_raise B e g s =
     (case cancel_all_jobs B g s of
        (Inl e', s') \<Rightarrow> (ExitRaises e', group_settle B g s')
      | (Inr _, s') \<Rightarrow> (ExitRaises e, group_settle B g s'))"

definition group_exit ::
  "'s backend \<Rightarrow> pyexc option \<Rightarrow> join_end \<Rightarrow> group \<Rightarrow> 's \<Rightarrow> exit_result \<times> group \<times> 's" where
  "group_exit B exc how g s =
     (case exc of
        Some e \<Rightarrow> cancel_and_raise B e g s
      | None \<Rightarrow>
          if g_handles g = [] then (ExitNormal, group_settle B g s)
          else if how = JoinDeadline \<and> g_deadline_at g \<noteq> None then cancel_and_raise B TimeoutError g s
          else if how = JoinCancelled then cancel_and_raise B CancelledError g s
          else case group_join B g s of
            (Pending, g1, s1) \<Rightarrow> (ExitWaits, g1, s1)
          | (Ready (Inl e), g1, s1) \<Rightarrow> (ExitRaises e, group_settle B g1 s1)
          | (Ready (Inr failures), g1, s1) \<Rightarrow>
              if failures \<noteq> []
              then (ExitGroup (''one or more jobs in group '' @ g_id g @ '' failed'') failures, group_settle B g1 s1)
              else (ExitNormal, group_settle B g1 s1))"

section \<open>Runs of a group in \<open>cancel_siblings\<close> mode\<close>

text \<open>Spawns happen while no sibling has failed; the callbacks run in the order of completion.\<close>

inductive group_event :: "group \<Rightarrow> group \<Rightarrow> bool" where
  ge_spawn: "group_event g (group_register h g)" if "g_entered g" "\<not> g_cancelling g"
| ge_done: "group_event g (waiter_done k r g)"
    if "k < length (g_waiters g)" "snd (g_waiters g ! k) = Waiting"
| ge_call: "group_event g (run_callback g)" if "g_callbacks g \<noteq> []"

definition failed_with :: "group \<Rightarrow> nat \<Rightarrow> pyexc \<Rightarrow> bool" where
  "failed_with g k e \<longleftrightarrow> k < length (g_waiters g) \<and> waiter_failure (snd (g_waiters g ! k)) = Some e"

definition waiting_id :: "group \<Rightarrow> string \<Rightarrow> bool" where
  "waiting_id g i \<longleftrightarrow> (i, Waiting) \<in> set (g_waiters g)"

definition group_ok :: "group \<Rightarrow> bool" where
  "group_ok g \<longleftrightarrow>
     g_on_error g = CANCEL_SIBLINGS \<and>
     (g_cancelling g \<longleftrightarrow> g_failures g \<noteq> []) \<and>
     (\<forall>k \<in> set (g_callbacks g). k < length (g_waiters g) \<and> snd (g_waiters g ! k) \<noteq> Waiting) \<and>
     (\<forall>k e. failed_with g k e \<longrightarrow> k \<in> set (g_callbacks g) \<or> e \<in> set (g_failures g) \<or>
        is_JobCancelled e \<and> g_cancelling g) \<and>
     (\<forall>e \<in> set (g_failures g). \<exists>k. failed_with g k e) \<and>
     (\<forall>e \<in> set (tl (g_failures g)). \<not> is_JobCancelled e) \<and>
     (case g_fanout g of None \<Rightarrow> \<not> g_cancelling g
      | Some ids \<Rightarrow> g_cancelling g \<and> (\<forall>i. waiting_id g i \<longrightarrow> i \<in> set ids))"

lemma group_okD:
  assumes "group_ok g"
  shows "g_on_error g = CANCEL_SIBLINGS" "g_cancelling g \<longleftrightarrow> g_failures g \<noteq> []"
    "k \<in> set (g_callbacks g) \<Longrightarrow> k < length (g_waiters g) \<and> snd (g_waiters g ! k) \<noteq> Waiting"
    "failed_with g k e \<Longrightarrow> k \<in> set (g_callbacks g) \<or> e \<in> set (g_failures g) \<or> is_JobCancelled e \<and> g_cancelling g"
    "e \<in> set (g_failures g) \<Longrightarrow> \<exists>k. failed_with g k e"
    "e \<in> set (tl (g_failures g)) \<Longrightarrow> \<not> is_JobCancelled e"
    "g_fanout g = None \<Longrightarrow> \<not> g_cancelling g"
    "g_fanout g = Some ids \<Longrightarrow> g_cancelling g \<and> (waiting_id g i \<longrightarrow> i \<in> set ids)"
  using assms unfolding group_ok_def by (blast | simp)+

lemma group_okI:
  assumes "g_on_error g = CANCEL_SIBLINGS" "g_cancelling g \<longleftrightarrow> g_failures g \<noteq> []"
    "\<And>k. k \<in> set (g_callbacks g) \<Longrightarrow> k < length (g_waiters g) \<and> snd (g_waiters g ! k) \<noteq> Waiting"
    "\<And>k e. failed_with g k e \<Longrightarrow> k \<in> set (g_callbacks g) \<or> e \<in> set (g_failures g) \<or> is_JobCancelled e \<and> g_cancelling g"
    "\<And>e. e \<in> set (g_failures g) \<Longrightarrow> \<exists>k. failed_with g k e"
    "\<And>e. e \<in> set (tl (g_failures g)) \<Longrightarrow> \<not> is_JobCancelled e"
    "g_fanout g = None \<Longrightarrow> \<not> g_cancelling g"
    "\<And>ids i. g_fanout g = Some ids \<Longrightarrow> g_cancelling g \<and> (waiting_id g i \<longrightarrow> i \<in> set ids)"
  shows "group_ok g"
  using assms unfolding group_ok_def by (auto split: option.splits)

lemma waiter_failure_simps [simp]:
  "waiter_failure Waiting = None" "waiter_failure Dropped = None" "waiter_failure (Finished (Inr v)) = None"
  "waiter_failure (Finished (Inl e)) = (if is_Exception e then Some e else None)"
  by (simp_all add: waiter_failure_def)

lemma group_frame [simp]:
  "failed_with (g\<lparr>g_callbacks := ks\<rparr>) = failed_with g" "failed_with (g\<lparr>g_failures := es\<rparr>) = failed_with g"
  "failed_with (g\<lparr>g_cancelling := b\<rparr>) = failed_with g" "failed_with (g\<lparr>g_fanout := f\<rparr>) = failed_with g"
  "waiting_id (g\<lparr>g_callbacks := ks\<rparr>) = waiting_id g" "waiting_id (g\<lparr>g_failures := es\<rparr>) = waiting_id g"
  "waiting_id (g\<lparr>g_cancelling := b\<rparr>) = waiting_id g" "waiting_id (g\<lparr>g_fanout := f\<rparr>) = waiting_id g"
  by (simp_all add: fun_eq_iff failed_with_def waiting_id_def)

text \<open>Two failures of the same waiter are the same failure.\<close>

lemma failed_with_fun: "failed_with g k e \<Longrightarrow> failed_with g k e' \<Longrightarrow> e' = e"
  by (simp add: failed_with_def)

lemma ok_spawn:
  assumes "group_ok g" "g_entered g" "\<not> g_cancelling g"
  shows "group_ok (group_register h g)"
proof -
  note D = group_okD [OF assms(1)]
  let ?g = "group_register h g"
  have w: "g_waiters ?g = g_waiters g @ [(h_job_id h, Waiting)]"
    and rest: "g_on_error ?g = g_on_error g" "g_cancelling ?g = g_cancelling g" "g_failures ?g = g_failures g"
      "g_callbacks ?g = g_callbacks g" "g_fanout ?g = g_fanout g"
    using assms(2) by (simp_all add: group_register_def Let_def)
  have f: "failed_with ?g k e \<longleftrightarrow> failed_with g k e" for k e
    by (auto simp: failed_with_def w nth_append less_Suc_eq)
  have "g_fanout g = None" using D(8) assms(3) by (cases "g_fanout g") auto
  then show ?thesis
    using D(1-7) assms(3) by (intro group_okI) (auto simp: f w rest nth_append less_SucI)
qed

lemma ok_done:
  assumes "group_ok g" "k < length (g_waiters g)" "snd (g_waiters g ! k) = Waiting"
  shows "group_ok (waiter_done k r g)"
proof -
  note D = group_okD [OF assms(1)]
  let ?g = "waiter_done k r g"
  have k: "k \<in> set (g_callbacks ?g)" by (simp add: waiter_done_def D(1))
  have f: "failed_with ?g n e \<longleftrightarrow> (if n = k then waiter_failure (Finished r) = Some e else failed_with g n e)" for n e
    using assms(2) by (auto simp: failed_with_def waiter_done_def nth_list_update)
  have old: "\<not> failed_with g k e" for e using assms(3) by (simp add: failed_with_def)
  have w: "waiting_id ?g i \<Longrightarrow> waiting_id g i" for i
    using assms(2) set_update_subset_insert [of "g_waiters g" k "(fst (g_waiters g ! k), Finished r)"]
    by (auto simp: waiting_id_def waiter_done_def)
  have rest: "g_cancelling ?g = g_cancelling g" "g_failures ?g = g_failures g" "g_fanout ?g = g_fanout g"
    "g_on_error ?g = g_on_error g" "set (g_callbacks ?g) = insert k (set (g_callbacks g))"
    "length (g_waiters ?g) = length (g_waiters g)"
    "snd (g_waiters ?g ! n) = (if n = k then Finished r else snd (g_waiters g ! n))" for n
    using assms(2) by (auto simp: waiter_done_def D(1) nth_list_update)
  show ?thesis
  proof (rule group_okI)
    show "\<exists>n. failed_with ?g n e" if "e \<in> set (g_failures ?g)" for e
      using D(5) [of e] that old f by (metis rest(2))
    show "n \<in> set (g_callbacks ?g) \<or> e \<in> set (g_failures ?g) \<or> is_JobCancelled e \<and> g_cancelling ?g"
      if "failed_with ?g n e" for n e
      using that D(4) [of n e] k by (auto simp: f rest split: if_split_asm)
    show "g_cancelling ?g \<and> (waiting_id ?g i \<longrightarrow> i \<in> set ids)" if "g_fanout ?g = Some ids" for ids i
      using that D(8) [of ids i] w [of i] by (auto simp: rest)
  qed (use D assms(2) in \<open>auto simp: rest\<close>)
qed

lemma ok_call:
  assumes "group_ok g" "g_callbacks g \<noteq> []"
  shows "group_ok (run_callback g)"
proof -
  note D = group_okD [OF assms(1)]
  obtain k ks where k: "g_callbacks g = k # ks" using assms(2) by (cases "g_callbacks g") auto
  let ?w = "snd (g_waiters g ! k)"
  have run: "run_callback g = job_finished ?w (g\<lparr>g_callbacks := ks\<rparr>)" by (simp add: run_callback_def k)
  show ?thesis
  proof (cases "waiter_failure ?w")
    case None
    then have no: "\<not> failed_with g k e" for e by (simp add: failed_with_def)
    have r: "run_callback g = g\<lparr>g_callbacks := ks\<rparr>" by (simp add: run job_finished_def None)
    have "n \<in> set ks \<or> e \<in> set (g_failures g) \<or> is_JobCancelled e \<and> g_cancelling g" if "failed_with g n e" for n e
      using D(4) [OF that] that no by (auto simp: k)
    with D show ?thesis unfolding r by (intro group_okI) (auto simp: k)
  next
    case (Some e)
    have fk: "failed_with g k e" using Some D(3) [of k] k by (simp add: failed_with_def)
    consider "g_cancelling g" "is_JobCancelled e" | "g_cancelling g" "\<not> is_JobCancelled e" | "\<not> g_cancelling g"
      by blast
    then show ?thesis
    proof cases
      case 1
      have r: "run_callback g = g\<lparr>g_callbacks := ks\<rparr>" by (simp add: run job_finished_def Some 1)
      have "n \<in> set ks \<or> e' \<in> set (g_failures g) \<or> is_JobCancelled e' \<and> g_cancelling g" if "failed_with g n e'" for n e'
        using D(4) [OF that] that failed_with_fun [OF fk, of e'] 1 by (auto simp: k)
      with D 1 show ?thesis unfolding r by (intro group_okI) (auto simp: k)
    next
      case 2
      have r: "run_callback g = g\<lparr>g_callbacks := ks, g_failures := g_failures g @ [e]\<rparr>"
        using 2 by (simp add: run job_finished_def Some)
      have 4: "n \<in> set ks \<or> e' \<in> set (g_failures g) \<or> e' = e \<or> is_JobCancelled e' \<and> g_cancelling g"
        if "failed_with g n e'" for n e'
        using D(4) [OF that] that failed_with_fun [OF fk, of e'] by (auto simp: k)
      have "g_failures g \<noteq> []" using D(2) 2 by simp
      then have "set (tl (g_failures g @ [e])) = insert e (set (tl (g_failures g)))" by simp
      with D(1-3,5-8) 2 fk show ?thesis unfolding r by (intro group_okI) (auto simp: k dest: 4)
    next
      case 3
      have none: "g_failures g = []" using D(2) 3 by simp
      have r: "run_callback g = g\<lparr>g_callbacks := ks, g_failures := [e], g_cancelling := True,
          g_fanout := Some (still_running g)\<rparr>"
        using 3 none by (simp add: run job_finished_def Some still_running_def)
      have "n \<in> set ks \<or> e' = e" if "failed_with g n e'" for n e'
        using D(4) [OF that] that failed_with_fun [OF fk, of e'] 3 none by (auto simp: k)
      moreover have "waiting_id g i \<Longrightarrow> i \<in> set (still_running g)" for i
        by (force simp: waiting_id_def still_running_def)
      ultimately show ?thesis
        using D(1,3) fk unfolding r by (intro group_okI) (auto simp: k)
    qed
  qed
qed

lemma ok_event: "group_event g g' \<Longrightarrow> group_ok g \<Longrightarrow> group_ok g'"
  by (induction rule: group_event.induct) (auto intro: ok_spawn ok_done ok_call)

lemma ok_run: "group_event\<^sup>*\<^sup>* g g' \<Longrightarrow> group_ok g \<Longrightarrow> group_ok g'"
  by (induction rule: rtranclp_induct) (auto intro: ok_event)

text \<open>A group as \<open>async with\<close> enters it.\<close>

definition fresh_group :: "group \<Rightarrow> bool" where
  "fresh_group g \<longleftrightarrow> g_on_error g = CANCEL_SIBLINGS \<and> g_entered g \<and> g_handles g = [] \<and> g_waiters g = [] \<and> g_failures g = [] \<and>
     \<not> g_cancelling g \<and> g_fanout g = None \<and> g_callbacks g = []"

lemma fresh_ok: "fresh_group g \<Longrightarrow> group_ok g"
  by (rule group_okI) (auto simp: fresh_group_def failed_with_def)

lemma fresh_init: "JobGroup_init fresh ''cancel_siblings'' d = Inr g \<Longrightarrow> fresh_group (group_enter now g)"
  by (auto simp: JobGroup_init_def OnError_of_def fresh_group_def group_enter_def split: option.splits)

lemma run_handles: "group_event\<^sup>*\<^sup>* g0 g \<Longrightarrow> fresh_group g0 \<Longrightarrow> g_handles g = [] \<longleftrightarrow> g_waiters g = []"
proof (induction rule: rtranclp_induct)
  case (step g g')
  from step(2) step.IH [OF step.prems] show ?case
  proof (cases rule: group_event.cases)
    case (ge_spawn h)
    have "AList.update k v d \<noteq> []" for k v and d :: "job_handle pydict" by (cases d) auto
    with ge_spawn show ?thesis by (simp add: group_register_def Let_def)
  next
    case ge_call
    with step.IH [OF step.prems] show ?thesis
      by (auto simp: run_callback_def job_finished_def Let_def split: list.splits option.splits)
  qed (use step.IH [OF step.prems] in \<open>auto simp: waiter_done_def\<close>)
qed (simp add: fresh_group_def)

section \<open>What a scope promises\<close>

lemma all_done_alt: "all_done g \<longleftrightarrow> (\<forall>i. \<not> waiting_id g i)"
  by (auto simp: all_done_def waiting_id_def list_all_iff)

lemma group_join_done:
  assumes "g_on_error g = CANCEL_SIBLINGS" "g_waiters g \<noteq> []" "all_done g"
  shows "group_join B g s = (Ready (Inr (g_failures g)), g, s)"
  using assms by (simp add: group_join_def cancel_siblings_mode_def wait_first_exception_def)

definition group_error :: "group \<Rightarrow> exit_result" where
  "group_error g = ExitGroup (''one or more jobs in group '' @ g_id g @ '' failed'') (g_failures g)"

lemma siblings_verdict:
  assumes "group_ok g" "g_callbacks g = []" "all_done g" "g_handles g = [] \<longleftrightarrow> g_waiters g = []"
  shows "fst (group_exit B None JoinOn g s) = (if \<exists>k e. failed_with g k e then group_error g else ExitNormal)"
    "failed_with g k e \<Longrightarrow> \<not> is_JobCancelled e \<Longrightarrow> e \<in> set (g_failures g)"
    "e \<in> set (g_failures g) \<Longrightarrow> \<exists>k. failed_with g k e"
    "e \<in> set (tl (g_failures g)) \<Longrightarrow> \<not> is_JobCancelled e"
proof -
  note D = group_okD [OF assms(1)]
  have "g_failures g \<noteq> [] \<longleftrightarrow> (\<exists>k e. failed_with g k e)"
    using D(2,4,5) assms(2) by (metis empty_iff list.set(1) list.set_intros(1) neq_Nil_conv)
  then show "fst (group_exit B None JoinOn g s) = (if \<exists>k e. failed_with g k e then group_error g else ExitNormal)"
    using group_join_done [OF D(1) _ assms(3), of B s] assms(4)
    by (cases "g_waiters g = []") (auto simp: group_exit_def group_error_def failed_with_def split: prod.splits)
  show "failed_with g k e \<Longrightarrow> \<not> is_JobCancelled e \<Longrightarrow> e \<in> set (g_failures g)"
    using D(4) [of k e] assms(2) by auto
  show "e \<in> set (g_failures g) \<Longrightarrow> \<exists>k. failed_with g k e" using D(5) .
  show "e \<in> set (tl (g_failures g)) \<Longrightarrow> \<not> is_JobCancelled e" using D(6) .
qed

text \<open>Once the callbacks have run, the join never has to cancel on its own.\<close>

lemma backstop_not_needed:
  assumes "group_ok g" "g_callbacks g = []" "wait_first_exception g = Ready (Inr ())" "\<not> all_done g"
  shows "g_cancelling g"
proof -
  have "list_ex (\<lambda>(i, w). waiter_failure w \<noteq> None) (g_waiters g)"
    using assms(3,4) by (auto simp: wait_first_exception_def split: if_splits)
  then obtain i w e where "(i, w) \<in> set (g_waiters g)" "waiter_failure w = Some e"
    by (auto simp: list_ex_iff)
  then obtain k where "failed_with g k e" by (auto simp: in_set_conv_nth failed_with_def) (metis snd_conv)
  then show ?thesis using group_okD(2,4) [OF assms(1)] assms(2) by fastforce
qed

definition handle_ids :: "group \<Rightarrow> string set" where
  "handle_ids g = h_job_id ` snd ` set (g_handles g)"

context backend_contract
begin

text \<open>The fan-out reaches every sibling that still runs.\<close>

lemma fanout_flags:
  assumes "inv s" "group_ok g" "g_cancelling g" "\<not> g_fanned g"
  shows "\<exists>g' s'. run_fanout B g s = (g', s') \<and> inv s' \<and> waiting s' = waiting s \<and> g_fanned g' \<and>
    (\<forall>i. waiting_id g i \<longrightarrow> view s' i = map_option flagged (view s i))"
proof -
  obtain ids where ids: "g_fanout g = Some ids" using group_okD(7) [OF assms(2)] assms(3) by (cases "g_fanout g") auto
  obtain s' where "b_request_cancel_many B ids s = (Inr (), s')" "inv s'" "waiting s' = waiting s"
    "view s' = (\<lambda>i. if i \<in> set ids then map_option flagged (view s i) else view s i)"
    using request_cancel_many_flags [OF assms(1)] by blast
  then show ?thesis using group_okD(8) [OF assms(2) ids] ids assms(4) by (auto simp: run_fanout_def)
qed

lemma cancel_all_flags:
  assumes "inv s"
  shows "\<exists>s'. cancel_all_jobs B g s = (Inr (), s') \<and> inv s' \<and> waiting s' = waiting s \<and>
    view s' = (\<lambda>i. if i \<in> handle_ids g then map_option flagged (view s i) else view s i)"
  using request_cancel_many_flags [OF assms, of "map (\<lambda>(k, h). h_job_id h) (g_handles g)"]
  by (auto simp: cancel_all_jobs_def handle_ids_def image_image case_prod_unfold)

lemma settle_valid:
  assumes "inv s"
  shows "\<exists>g' s'. group_settle B g s = (g', s') \<and> inv s' \<and> waiting s' = waiting s \<and> all_done g' \<and>
    (\<forall>i. view s' i = view s i \<or> view s' i = map_option flagged (view s i))"
proof -
  let ?g = "g\<lparr>g_waiters := map (\<lambda>(i, w). (i, if w = Waiting then Dropped else w)) (g_waiters g)\<rparr>"
  have d: "all_done ?g" by (auto simp: all_done_def list_all_iff split: if_split_asm)
  have d': "all_done (?g\<lparr>g_fanned := True\<rparr>)" using d by (simp add: all_done_def)
  show ?thesis
  proof (cases "g_fanout g = None \<or> g_fanned g")
    case True
    then have "group_settle B g s = (?g, s)" by (auto simp: group_settle_def run_fanout_def split: option.splits)
    with assms d show ?thesis by auto
  next
    case False
    then obtain ids where ids: "g_fanout g = Some ids" by auto
    obtain s' where "b_request_cancel_many B ids s = (Inr (), s')" "inv s'" "waiting s' = waiting s"
      "view s' = (\<lambda>i. if i \<in> set ids then map_option flagged (view s i) else view s i)"
      using request_cancel_many_flags [OF assms] by blast
    with False ids d' show ?thesis by (auto simp: group_settle_def run_fanout_def)
  qed
qed

text \<open>Leaving the scope by an exception of its body, by its deadline or by cancellation: every
  child that is still active is flagged, no local waiter is left, and the exception goes on.\<close>

lemma exit_cancels:
  assumes "inv s"
  shows "\<exists>g' s'. cancel_and_raise B e g s = (ExitRaises e, g', s') \<and> inv s' \<and> waiting s' = waiting s \<and>
    all_done g' \<and> (\<forall>i \<in> handle_ids g. view s' i = map_option flagged (view s i))"
proof -
  obtain s1 where s1: "cancel_all_jobs B g s = (Inr (), s1)" "inv s1" "waiting s1 = waiting s"
    "view s1 = (\<lambda>i. if i \<in> handle_ids g then map_option flagged (view s i) else view s i)"
    using cancel_all_flags [OF assms] by blast
  obtain g' s' where "group_settle B g s1 = (g', s')" "inv s'" "waiting s' = waiting s1" "all_done g'"
    "\<forall>i. view s' i = view s1 i \<or> view s' i = map_option flagged (view s1 i)"
    using settle_valid [OF s1(2)] by blast
  moreover have "view s' i = map_option flagged (view s i)" if "i \<in> handle_ids g" for i
    using spec [OF calculation(5), of i] s1(4) that by (auto simp: option.map_comp comp_def)
  ultimately show ?thesis using s1 by (auto simp: cancel_and_raise_def)
qed

end

end
