(* ===== verification/Memory_Backend.thy ===== *)
theory Memory_Backend
  imports Backend_Interface
begin

text \<open>
  \<open>backends/memory_backend.py\<close>: the single-process store. Its four fields are modelled as
  they are: the records, the queue, and two tables of \<open>asyncio.Event\<close> objects per job.
  Event objects are numbered as they are created (\<open>m_next\<close>) and \<open>m_set\<close> says which
  have been set; a task that waits keeps the object it fetched, so an event popped from its
  table can still wake it.
  Every dict handed in by \<open>Task.submit\<close> and \<open>Worker._save\<close> is fresh and dropped by its
  caller, and every dict handed out is a copy, so records are passed by value.
\<close>

section \<open>State and operations\<close>

record mem =
  m_jobs :: "string \<Rightarrow> hrecord option"
  m_events :: "string \<Rightarrow> nat option"
  m_queue :: "string list"
  m_cancels :: "string \<Rightarrow> nat option"
  m_set :: "nat \<Rightarrow> bool"
  m_next :: nat

definition mem_init :: mem where
  "mem_init = \<lparr>m_jobs = Map.empty, m_events = Map.empty, m_queue = [], m_cancels = Map.empty,
     m_set = (\<lambda>_. False), m_next = 0\<rparr>"

definition mem_enqueue :: "string \<Rightarrow> hrecord \<Rightarrow> mem \<Rightarrow> unit res \<times> mem" where
  "mem_enqueue i r s =
     (if m_jobs s i \<noteq> None then (Inr (), s)
      else (Inr (),
        s\<lparr>m_jobs := (m_jobs s)(i \<mapsto> AList.update ''status'' (Str (status_value QUEUED)) r),
          m_events := (m_events s)(i \<mapsto> m_next s),
          m_cancels := (m_cancels s)(i \<mapsto> Suc (m_next s)),
          m_set := (m_set s)(m_next s := False, Suc (m_next s) := False),
          m_next := Suc (Suc (m_next s)),
          m_queue := m_queue s @ [i]\<rparr>))"

text \<open>
  \<open>claim\<close>: an empty queue at the end of the one-second wait gives \<open>None\<close>. The status
  is written before the attempt counter is read.
\<close>

definition mem_claim :: "mem \<Rightarrow> hrecord option res \<times> mem" where
  "mem_claim s =
     (case m_queue s of
        [] \<Rightarrow> (Inr None, s)
      | i # q \<Rightarrow>
          let s1 = s\<lparr>m_queue := q\<rparr>
          in case m_jobs s1 i of
               None \<Rightarrow> (Inl (KeyError i), s1)
             | Some r \<Rightarrow>
                 let r1 = AList.update ''status'' (Str (status_value RUNNING)) r
                 in case get_int r1 ''attempts'' of
                      Inl e \<Rightarrow> (Inl e, s1\<lparr>m_jobs := (m_jobs s1)(i \<mapsto> r1)\<rparr>)
                    | Inr n \<Rightarrow>
                        let r2 = AList.update ''attempts'' (Str (str_of_int (n + 1))) r1
                        in (Inr (Some r2), s1\<lparr>m_jobs := (m_jobs s1)(i \<mapsto> r2)\<rparr>))"

definition mem_get_job :: "string \<Rightarrow> mem \<Rightarrow> hrecord res" where
  "mem_get_job i s = (case m_jobs s i of None \<Rightarrow> Inl (not_found i) | Some r \<Rightarrow> Inr r)"

definition mem_save :: "string \<Rightarrow> hrecord \<Rightarrow> bool \<Rightarrow> mem \<Rightarrow> unit res \<times> mem" where
  "mem_save i r fin s =
     (if m_jobs s i = None then (Inl (not_found i), s)
      else let s1 = s\<lparr>m_jobs := (m_jobs s)(i \<mapsto> r)\<rparr>
           in if fin
              then let s2 = s1\<lparr>m_events := (m_events s1)(i := None)\<rparr>;
                       s3 = (case m_events s1 i of None \<Rightarrow> s2
                             | Some ev \<Rightarrow> s2\<lparr>m_set := (m_set s2)(ev := True)\<rparr>)
                   in (Inr (), s3\<lparr>m_cancels := (m_cancels s3)(i := None)\<rparr>)
              else (Inr (), s1))"

definition mem_release :: "string \<Rightarrow> mem \<Rightarrow> unit res \<times> mem" where
  "mem_release i s =
     (case m_jobs s i of
        None \<Rightarrow> (Inl (not_found i), s)
      | Some r \<Rightarrow>
          (case dict_index r ''status'' of
             Inl e \<Rightarrow> (Inl e, s)
           | Inr st \<Rightarrow>
               if st = Str (status_value RUNNING)
               then (Inr (), s\<lparr>m_jobs := (m_jobs s)(i \<mapsto> AList.update ''status'' (Str (status_value QUEUED)) r),
                               m_queue := m_queue s @ [i]\<rparr>)
               else (Inr (), s)))"

text \<open>
  \<open>take_result\<close> fetches the event, waits on it if there is one, and then frees the job.
  \<open>mem_take_end\<close> is the part after the wait; \<open>mem_take_result\<close> is a call that does
  not give up: it is pending while the fetched event is not set.
\<close>

definition mem_take_end :: "string \<Rightarrow> mem \<Rightarrow> hrecord res \<times> mem" where
  "mem_take_end i s =
     (let s1 = s\<lparr>m_events := (m_events s)(i := None), m_cancels := (m_cancels s)(i := None),
                 m_jobs := (m_jobs s)(i := None)\<rparr>
      in case m_jobs s i of None \<Rightarrow> (Inl (not_found i), s1) | Some r \<Rightarrow> (Inr r, s1))"

definition mem_take_result :: "string \<Rightarrow> mem \<Rightarrow> hrecord await \<times> mem" where
  "mem_take_result i s =
     (case m_events s i of
        Some ev \<Rightarrow> if m_set s ev then (let (r, s') = mem_take_end i s in (Ready r, s')) else (Pending, s)
      | None \<Rightarrow> (let (r, s') = mem_take_end i s in (Ready r, s')))"

definition mem_request_cancel :: "string \<Rightarrow> mem \<Rightarrow> unit res \<times> mem" where
  "mem_request_cancel i s =
     (case m_jobs s i of
        None \<Rightarrow> (Inr (), s)
      | Some r \<Rightarrow>
          (case dict_index r ''status'' of
             Inl e \<Rightarrow> (Inl e, s)
           | Inr st \<Rightarrow>
               if st \<in> {Str (status_value COMPLETED), Str (status_value FAILED), Str (status_value CANCELLED)}
               then (Inr (), s)
               else let s1 = s\<lparr>m_jobs := (m_jobs s)(i \<mapsto> AList.update ''request_cancel'' (Str ''1'') r)\<rparr>
                    in (Inr (), case m_cancels s1 i of
                                  None \<Rightarrow> s1
                                | Some ev \<Rightarrow> s1\<lparr>m_set := (m_set s1)(ev := True)\<rparr>)))"

fun mem_request_cancel_many :: "string list \<Rightarrow> mem \<Rightarrow> unit res \<times> mem" where
  "mem_request_cancel_many [] s = (Inr (), s)"
| "mem_request_cancel_many (i # is) s =
     (case mem_request_cancel i s of
        (Inl e, s') \<Rightarrow> (Inl e, s')
      | (Inr _, s') \<Rightarrow> mem_request_cancel_many is s')"

definition mem_wait_cancel :: "string \<Rightarrow> mem \<Rightarrow> unit await" where
  "mem_wait_cancel i s =
     (case m_cancels s i of
        None \<Rightarrow> Ready (Inl (not_found i))
      | Some ev \<Rightarrow> if m_set s ev then Ready (Inr ()) else Pending)"

definition mem_heartbeat :: "mem \<Rightarrow> unit res \<times> mem" where
  "mem_heartbeat s = (Inr (), s)"

definition mem_reap :: "mem \<Rightarrow> (int res \<times> mem) option" where
  "mem_reap s = Some (Inr 0, s)"

definition mem_deregister :: "mem \<Rightarrow> unit res \<times> mem" where
  "mem_deregister s = (Inr (), s)"

definition MemoryBackend :: "mem backend" where
  "MemoryBackend =
     \<lparr>b_enqueue = mem_enqueue, b_claim = mem_claim, b_get_job = mem_get_job, b_save = mem_save,
      b_release = mem_release, b_take_result = mem_take_result,
      b_request_cancel = mem_request_cancel, b_request_cancel_many = mem_request_cancel_many,
      b_wait_cancel = mem_wait_cancel, b_heartbeat = mem_heartbeat,
      b_deregister = mem_deregister, b_reap = mem_reap\<rparr>"

section \<open>Invariant\<close>

definition mem_view :: "mem \<Rightarrow> string \<Rightarrow> rec_view option" where
  "mem_view s i = map_option map_of (m_jobs s i)"

definition mem_active :: "mem \<Rightarrow> string \<Rightarrow> bool" where
  "mem_active s i \<longleftrightarrow> (case mem_view s i of None \<Rightarrow> False | Some m \<Rightarrow> \<not> terminal_in m)"

text \<open>
  Records are storable dicts; a job has its two events exactly while it is active; no event
  object is shared or from the future; a done-event in the table is not yet set, and a
  cancel-event is set exactly when the record carries the cancel flag.
\<close>

definition mem_records_ok :: "mem \<Rightarrow> bool" where
  "mem_records_ok s \<longleftrightarrow> (\<forall>i r. m_jobs s i = Some r \<longrightarrow> is_dict r \<and> storable (map_of r))"

definition mem_events_ok :: "mem \<Rightarrow> bool" where
  "mem_events_ok s \<longleftrightarrow>
     (\<forall>i. (m_events s i \<noteq> None \<longleftrightarrow> mem_active s i) \<and> (m_cancels s i \<noteq> None \<longleftrightarrow> mem_active s i)) \<and>
     (\<forall>i e. m_events s i = Some e \<longrightarrow> e < m_next s \<and> \<not> m_set s e) \<and>
     (\<forall>i e. m_cancels s i = Some e \<longrightarrow> e < m_next s \<and>
        (m_set s e \<longleftrightarrow> (\<exists>m. mem_view s i = Some m \<and> m ''request_cancel'' = Some (Str ''1'')))) \<and>
     (\<forall>i j e. m_events s i = Some e \<longrightarrow> m_events s j = Some e \<longrightarrow> i = j) \<and>
     (\<forall>i j e. m_cancels s i = Some e \<longrightarrow> m_cancels s j = Some e \<longrightarrow> i = j) \<and>
     (\<forall>i j e. m_events s i = Some e \<longrightarrow> m_cancels s j \<noteq> Some e)"

definition mem_inv :: "mem \<Rightarrow> bool" where
  "mem_inv s \<longleftrightarrow> mem_records_ok s \<and> mem_events_ok s"

lemmas mem_inv_defs = mem_inv_def mem_records_ok_def mem_events_ok_def mem_active_def mem_view_def

lemma mem_events_okD:
  assumes "mem_events_ok s"
  shows "m_events s i \<noteq> None \<longleftrightarrow> mem_active s i"
    "m_cancels s i \<noteq> None \<longleftrightarrow> mem_active s i"
    "m_events s i = Some e \<Longrightarrow> e < m_next s" "m_events s i = Some e \<Longrightarrow> \<not> m_set s e"
    "m_cancels s i = Some e \<Longrightarrow> e < m_next s"
    "m_cancels s i = Some e \<Longrightarrow>
       m_set s e \<longleftrightarrow> (\<exists>m. mem_view s i = Some m \<and> m ''request_cancel'' = Some (Str ''1''))"
    "m_events s i = Some e \<Longrightarrow> m_events s j = Some e \<Longrightarrow> i = j"
    "m_cancels s i = Some e \<Longrightarrow> m_cancels s j = Some e \<Longrightarrow> i = j"
    "m_events s i = Some e \<Longrightarrow> m_cancels s j \<noteq> Some e"
  using assms unfolding mem_events_ok_def by blast+

lemma mem_events_okI:
  assumes "\<And>i. m_events s i \<noteq> None \<longleftrightarrow> mem_active s i"
    "\<And>i. m_cancels s i \<noteq> None \<longleftrightarrow> mem_active s i"
    "\<And>i e. m_events s i = Some e \<Longrightarrow> e < m_next s \<and> \<not> m_set s e"
    "\<And>i e. m_cancels s i = Some e \<Longrightarrow> e < m_next s"
    "\<And>i e. m_cancels s i = Some e \<Longrightarrow>
       m_set s e \<longleftrightarrow> (\<exists>m. mem_view s i = Some m \<and> m ''request_cancel'' = Some (Str ''1''))"
    "\<And>i j e. m_events s i = Some e \<Longrightarrow> m_events s j = Some e \<Longrightarrow> i = j"
    "\<And>i j e. m_cancels s i = Some e \<Longrightarrow> m_cancels s j = Some e \<Longrightarrow> i = j"
    "\<And>i j e. m_events s i = Some e \<Longrightarrow> m_cancels s j \<noteq> Some e"
  shows "mem_events_ok s"
  unfolding mem_events_ok_def
  by (intro conjI allI impI)
    (rule assms(1,2) | erule (1) assms(6,7) | erule assms(8,4,5) | drule assms(3), simp)+

lemma mem_inv_storable: "mem_inv s \<Longrightarrow> mem_view s i = Some m \<Longrightarrow> storable m"
  by (auto simp: mem_inv_def mem_records_ok_def mem_view_def)

lemma mem_job_of_view:
  assumes "mem_view s i = Some m"
  obtains r where "m_jobs s i = Some r" "map_of r = m"
  using assms by (auto simp: mem_view_def)

lemma mem_inv_init: "mem_inv mem_init"
  by (simp add: mem_inv_defs mem_init_def)

lemma mem_view_queue [simp]: "mem_view (s\<lparr>m_queue := q\<rparr>) = mem_view s"
  by (simp add: mem_view_def fun_eq_iff)

lemma mem_inv_queue [simp]: "mem_inv (s\<lparr>m_queue := q\<rparr>) \<longleftrightarrow> mem_inv s"
  by (simp add: mem_inv_defs)

lemma mem_view_put [simp]:
  "mem_view (s\<lparr>m_jobs := (m_jobs s)(i \<mapsto> r)\<rparr>) = (mem_view s)(i \<mapsto> map_of r)"
  by (simp add: mem_view_def fun_eq_iff)

text \<open>Rewriting a record in place keeps the invariant when the job stays active (or stays
  finished) and keeps its cancel flag.\<close>

lemma mem_inv_put:
  assumes "mem_inv s" "m_jobs s i = Some r" "is_dict r'" "storable (map_of r')"
    "terminal_in (map_of r') = terminal_in (map_of r)"
    "map_of r' ''request_cancel'' = map_of r ''request_cancel''"
  shows "mem_inv (s\<lparr>m_jobs := (m_jobs s)(i \<mapsto> r')\<rparr>)"
proof -
  let ?s = "s\<lparr>m_jobs := (m_jobs s)(i \<mapsto> r')\<rparr>"
  have v: "mem_view s i = Some (map_of r)" using assms(2) by (simp add: mem_view_def)
  have act: "mem_active ?s j = mem_active s j" for j
    using v assms(5) by (simp add: mem_active_def)
  have flag: "(\<exists>m. mem_view ?s j = Some m \<and> m ''request_cancel'' = Some (Str ''1'')) \<longleftrightarrow>
      (\<exists>m. mem_view s j = Some m \<and> m ''request_cancel'' = Some (Str ''1''))" for j
    using v assms(6) by simp
  have "mem_events_ok ?s \<longleftrightarrow> mem_events_ok s"
    by (simp only: mem_events_ok_def act flag) simp
  with assms show ?thesis by (auto simp: mem_inv_def mem_records_ok_def)
qed

text \<open>A job that finishes or is freed drops its two events; at most its own done-event is
  set on the way.\<close>

lemma mem_events_ok_drop:
  assumes ok: "mem_events_ok s"
    and ev: "m_events s' = (m_events s)(i := None)" and ca: "m_cancels s' = (m_cancels s)(i := None)"
    and nx: "m_next s' = m_next s" and vw: "mem_view s' = (mem_view s)(i := x)"
    and st: "\<And>e. m_events s i \<noteq> Some e \<Longrightarrow> m_set s' e = m_set s e"
    and x: "case x of None \<Rightarrow> True | Some m \<Rightarrow> terminal_in m"
  shows "mem_events_ok s'"
proof -
  have act: "mem_active s' j \<longleftrightarrow> j \<noteq> i \<and> mem_active s j" for j
    using x by (auto simp: mem_active_def vw split: option.splits)
  note D = mem_events_okD [OF ok]
  have se: "m_set s' e = m_set s e" if "m_events s j = Some e" "j \<noteq> i" for j e
    using that st [of e] D(7) [of j e i] by blast
  have sc: "m_set s' e = m_set s e" if "m_cancels s j = Some e" for j e
    using that st [of e] D(9) [of i e j] by blast
  show ?thesis
  proof (rule mem_events_okI)
    fix j e
    show "(m_events s' j \<noteq> None) = mem_active s' j" "(m_cancels s' j \<noteq> None) = mem_active s' j"
      using D(1) [of j] D(2) [of j] by (auto simp: act ev ca)
    show "m_events s' j = Some e \<Longrightarrow> e < m_next s' \<and> \<not> m_set s' e"
      using D(3,4) [of j e] se [of j e] by (auto simp: ev nx split: if_split_asm)
    show "m_cancels s' j = Some e \<Longrightarrow> e < m_next s'"
      using D(5) [of j e] by (auto simp: ca nx split: if_split_asm)
    show "m_cancels s' j = Some e \<Longrightarrow>
        m_set s' e = (\<exists>m. mem_view s' j = Some m \<and> m ''request_cancel'' = Some (Str ''1''))"
      using D(6) [of j e] sc [of j e] by (auto simp: ca vw split: if_split_asm)
  qed (auto simp: ev ca dest: D(7,8,9) split: if_split_asm)
qed

section \<open>Every operation, on every branch\<close>

lemma mem_enqueue_new:
  assumes "mem_inv s" "mem_view s i = None" "is_dict r" "storable (map_of r)"
    "map_of r ''request_cancel'' = Some (Str ''0'')"
  shows "\<exists>s'. mem_enqueue i r s = (Inr (), s') \<and> mem_inv s' \<and>
    mem_view s' = (mem_view s)(i \<mapsto> (map_of r)(''status'' \<mapsto> Str (status_value QUEUED))) \<and>
    m_queue s' = m_queue s @ [i]"
proof -
  let ?s = "snd (mem_enqueue i r s)"
  have new: "m_jobs s i = None" using assms(2) by (simp add: mem_view_def)
  have nt: "\<not> terminal_in ((map_of r)(''status'' \<mapsto> Str (status_value QUEUED)))"
    by (simp add: terminal_in_status [where st = QUEUED] terminal_def del: status_value.simps)
  have view: "mem_view ?s = (mem_view s)(i \<mapsto> (map_of r)(''status'' \<mapsto> Str (status_value QUEUED)))"
    using new by (auto simp: mem_enqueue_def mem_view_def)
  have "mem_records_ok ?s"
    using assms new by (auto simp: mem_enqueue_def mem_inv_def mem_records_ok_def simp del: status_value.simps)
  moreover have "mem_events_ok ?s"
    using assms(1,5) new nt unfolding mem_inv_def mem_events_ok_def mem_active_def view
    by (auto simp: mem_enqueue_def less_Suc_eq simp del: status_value.simps) fastforce+
  ultimately show ?thesis
    using new view by (auto simp: mem_inv_def mem_enqueue_def)
qed

lemma nonterminal_values [simp]:
  "\<not> terminal_in (m(''status'' \<mapsto> Str ''queued''))" "\<not> terminal_in (m(''status'' \<mapsto> Str ''running''))"
  using terminal_in_status [of "m(''status'' \<mapsto> Str ''queued'')" QUEUED]
    terminal_in_status [of "m(''status'' \<mapsto> Str ''running'')" RUNNING]
  by (simp_all add: status_in_def terminal_def)

lemma mem_claim_some:
  assumes inv: "mem_inv s" and q: "m_queue s = i # q" and v: "mem_view s i = Some m"
    and n: "m ''attempts'' = Some (Str (str_of_int n))" and act: "\<not> terminal_in m"
  shows "\<exists>r s'. mem_claim s = (Inr (Some r), s') \<and> mem_inv s' \<and>
    map_of r = m(''status'' \<mapsto> Str (status_value RUNNING), ''attempts'' \<mapsto> Str (str_of_int (n + 1))) \<and>
    mem_view s' = (mem_view s)(i \<mapsto> map_of r) \<and> m_queue s' = q"
proof -
  obtain r where r: "m_jobs s i = Some r" "map_of r = m" using v by (rule mem_job_of_view)
  define r2 where "r2 = AList.update ''attempts'' (Str (str_of_int (n + 1)))
    (AList.update ''status'' (Str ''running'') r)"
  have "get_int (AList.update ''status'' (Str ''running'') r) ''attempts'' = Inr n"
    using r n by (simp add: get_int_def get_opt_def field_str_def)
  then have cl: "mem_claim s = (Inr (Some r2), s\<lparr>m_queue := q, m_jobs := (m_jobs s)(i \<mapsto> r2)\<rparr>)"
    using q r by (simp add: mem_claim_def r2_def Let_def)
  have m2: "map_of r2 = m(''status'' \<mapsto> Str ''running'', ''attempts'' \<mapsto> Str (str_of_int (n + 1)))"
    by (simp add: r2_def r)
  have sm: "storable m" "0 \<le> n"
    using mem_inv_storable [OF inv v] n by (auto simp: storable_def)
  have "is_dict r2" using inv r by (auto simp: r2_def mem_inv_def mem_records_ok_def)
  moreover have "storable (map_of r2)"
    unfolding m2 using sm storable_set_status [OF sm(1), of RUNNING] by simp
  moreover have "\<not> terminal_in (map_of r2)" unfolding m2 by simp
  ultimately have "mem_inv (s\<lparr>m_queue := q, m_jobs := (m_jobs (s\<lparr>m_queue := q\<rparr>))(i \<mapsto> r2)\<rparr>)"
    using inv act r by (intro mem_inv_put [where r = r]) (auto simp: m2)
  with cl m2 show ?thesis using mem_view_put [of "s\<lparr>m_queue := q\<rparr>" i r2] by auto
qed

lemma mem_save_known:
  assumes inv: "mem_inv s" and v: "mem_view s i = Some m" and r: "is_dict r" "storable (map_of r)"
    and t: "terminal_in (map_of r)"
  shows "\<exists>s'. mem_save i r True s = (Inr (), s') \<and> mem_inv s' \<and>
    mem_view s' = (mem_view s)(i \<mapsto> map_of r) \<and> m_queue s' = m_queue s"
proof -
  let ?s = "snd (mem_save i r True s)"
  have known: "m_jobs s i \<noteq> None" using v by (auto simp: mem_view_def)
  have view: "mem_view ?s = (mem_view s)(i \<mapsto> map_of r)"
    using known by (auto simp: mem_save_def mem_view_def Let_def split: option.splits)
  have "mem_records_ok ?s"
    using inv r known by (auto simp: mem_save_def mem_inv_def mem_records_ok_def Let_def split: option.splits)
  moreover have "mem_events_ok ?s"
    by (rule mem_events_ok_drop [of s _ i "Some (map_of r)"])
      (use inv known t view in \<open>auto simp: mem_inv_def mem_save_def Let_def split: option.splits\<close>)
  ultimately show ?thesis
    using known view by (auto simp: mem_inv_def mem_save_def Let_def split: option.splits)
qed

lemma mem_release_running:
  assumes inv: "mem_inv s" and v: "mem_view s i = Some m" and st: "status_in m RUNNING"
  shows "\<exists>s'. mem_release i s = (Inr (), s') \<and> mem_inv s' \<and>
    mem_view s' = (mem_view s)(i \<mapsto> m(''status'' \<mapsto> Str (status_value QUEUED))) \<and>
    m_queue s' = m_queue s @ [i]"
proof -
  obtain r where r: "m_jobs s i = Some r" "map_of r = m" using v by (rule mem_job_of_view)
  define r2 where "r2 = AList.update ''status'' (Str ''queued'') r"
  have m2: "map_of r2 = m(''status'' \<mapsto> Str (status_value QUEUED))" by (simp add: r2_def r)
  have rel: "mem_release i s = (Inr (), s\<lparr>m_jobs := (m_jobs s)(i \<mapsto> r2), m_queue := m_queue s @ [i]\<rparr>)"
    using r st by (simp add: mem_release_def r2_def status_in_def)
  have "\<not> terminal_in m" using st by (simp add: terminal_def)
  moreover have "is_dict r2" using inv r by (auto simp: r2_def mem_inv_def mem_records_ok_def)
  moreover have "storable (map_of r2)"
    unfolding m2 using mem_inv_storable [OF inv v] by (rule storable_set_status)
  ultimately have "mem_inv (s\<lparr>m_jobs := (m_jobs s)(i \<mapsto> r2)\<rparr>)"
    using inv r by (intro mem_inv_put [where r = r]) (auto simp: m2)
  with rel show ?thesis by (auto simp: m2)
qed

lemma mem_release_other:
  "mem_inv s \<Longrightarrow> mem_view s i = Some m \<Longrightarrow> \<not> status_in m RUNNING \<Longrightarrow> mem_release i s = (Inr (), s)"
  using mem_inv_storable [of s i m]
  by (auto simp: mem_view_def mem_release_def storable_def status_in_def)

lemma mem_active_event:
  "mem_inv s \<Longrightarrow> mem_view s i = Some m \<Longrightarrow> (m_events s i \<noteq> None) = (\<not> terminal_in m)"
  using mem_events_okD(1) [of s i] by (simp add: mem_inv_def mem_active_def)

lemma mem_unknown_event: "mem_inv s \<Longrightarrow> mem_view s i = None \<Longrightarrow> m_events s i = None \<and> m_cancels s i = None"
  using mem_events_okD(1,2) [of s i] by (simp add: mem_inv_def mem_active_def)

lemma mem_event_unset: "mem_inv s \<Longrightarrow> m_events s i = Some e \<Longrightarrow> \<not> m_set s e"
  by (simp add: mem_inv_def mem_events_okD(4))

lemma mem_take_waits:
  "mem_inv s \<Longrightarrow> mem_view s i = Some m \<Longrightarrow> \<not> terminal_in m \<Longrightarrow> mem_take_result i s = (Pending, s)"
  using mem_active_event [of s i m] mem_event_unset [of s i]
  by (auto simp: mem_take_result_def split: option.splits)

lemma mem_take_terminal:
  assumes inv: "mem_inv s" and v: "mem_view s i = Some m" and t: "terminal_in m"
  shows "\<exists>r s'. mem_take_result i s = (Ready (Inr r), s') \<and> mem_inv s' \<and> map_of r = m \<and>
    mem_view s' = (mem_view s)(i := None) \<and> m_queue s' = m_queue s"
proof -
  obtain r where r: "m_jobs s i = Some r" "map_of r = m" using v by (rule mem_job_of_view)
  have ev: "m_events s i = None" using mem_active_event [OF inv v] t by simp
  let ?s = "snd (mem_take_end i s)"
  have view: "mem_view ?s = (mem_view s)(i := None)"
    by (auto simp: mem_take_end_def mem_view_def r)
  have "mem_records_ok ?s"
    using inv r by (simp add: mem_take_end_def mem_inv_def mem_records_ok_def)
  moreover have "mem_events_ok ?s"
    by (rule mem_events_ok_drop [of s _ i None])
      (use inv view in \<open>auto simp: mem_inv_def mem_take_end_def r\<close>)
  ultimately show ?thesis
    using r ev view by (auto simp: mem_inv_def mem_take_result_def mem_take_end_def)
qed

lemma mem_take_unknown:
  assumes "mem_inv s" "mem_view s i = None"
  shows "mem_take_result i s = (Ready (Inl (not_found i)), s)"
proof -
  have "m_jobs s i = None" "m_events s i = None" "m_cancels s i = None"
    using assms mem_unknown_event [OF assms] by (auto simp: mem_view_def)
  then have "(m_jobs s)(i := None) = m_jobs s" "(m_events s)(i := None) = m_events s"
    "(m_cancels s)(i := None) = m_cancels s" by auto
  then show ?thesis using \<open>m_jobs s i = None\<close> \<open>m_events s i = None\<close>
    by (simp add: mem_take_result_def mem_take_end_def)
qed

lemma terminal_values:
  "storable m \<Longrightarrow> m ''status'' = Some v \<Longrightarrow>
   v \<in> {Str ''completed'', Str ''failed'', Str ''cancelled''} \<longleftrightarrow> terminal_in m"
proof -
  assume m: "storable m" "m ''status'' = Some v"
  then obtain st where "v = Str (status_value st)" "status_in m st"
    by (auto simp: storable_def status_in_def)
  then show ?thesis by (cases st) (simp_all add: terminal_def)
qed

lemma mem_cancel_active:
  assumes inv: "mem_inv s" and v: "mem_view s i = Some m" and act: "\<not> terminal_in m"
  shows "\<exists>s'. mem_request_cancel i s = (Inr (), s') \<and> mem_inv s' \<and>
    mem_view s' = (mem_view s)(i \<mapsto> m(''request_cancel'' \<mapsto> Str ''1'')) \<and> m_queue s' = m_queue s"
proof -
  obtain r where r: "m_jobs s i = Some r" "map_of r = m" using v by (rule mem_job_of_view)
  define r2 where "r2 = AList.update ''request_cancel'' (Str ''1'') r"
  have ok: "mem_events_ok s" using inv by (simp add: mem_inv_def)
  note D = mem_events_okD [OF ok]
  obtain e where e: "m_cancels s i = Some e" using D(2) [of i] v act by (auto simp: mem_active_def)
  define s' where "s' = s\<lparr>m_jobs := (m_jobs s)(i \<mapsto> r2), m_set := (m_set s)(e := True)\<rparr>"
  have st: "storable m" using inv v by (rule mem_inv_storable)
  then obtain w where w: "m ''status'' = Some w" by (auto simp: storable_def status_in_def)
  then have run: "mem_request_cancel i s = (Inr (), s')"
    using r e terminal_values [OF st w] act by (simp add: mem_request_cancel_def s'_def r2_def)
  have vw: "mem_view s' = (mem_view s)(i \<mapsto> m(''request_cancel'' \<mapsto> Str ''1''))"
    by (auto simp: s'_def mem_view_def r2_def r)
  have act': "mem_active s' j = mem_active s j" for j
    using v act by (simp add: mem_active_def vw)
  have "mem_events_ok s'"
  proof (rule mem_events_okI)
    fix j e'
    show "m_cancels s' j = Some e' \<Longrightarrow>
        m_set s' e' = (\<exists>m. mem_view s' j = Some m \<and> m ''request_cancel'' = Some (Str ''1''))"
      using D(6) [of j e'] D(8) [OF e, of j] e by (auto simp: s'_def vw [unfolded s'_def])
    show "m_events s' j = Some e' \<Longrightarrow> e' < m_next s' \<and> \<not> m_set s' e'"
      using D(3,4) [of j e'] D(9) [of j e' i] e by (auto simp: s'_def)
  qed (use D in \<open>auto simp: act' simp: s'_def [THEN arg_cong [where f = m_events]]
      s'_def [THEN arg_cong [where f = m_cancels]] s'_def [THEN arg_cong [where f = m_next]]\<close>)
  moreover have "mem_records_ok s'"
    using inv r storable_set_cancel [OF st, of True]
    by (auto simp: s'_def r2_def mem_inv_def mem_records_ok_def)
  ultimately show ?thesis using run vw by (auto simp: mem_inv_def s'_def)
qed

lemma mem_cancel_done:
  assumes "mem_inv s" "mem_view s i = Some m" "terminal_in m"
  shows "mem_request_cancel i s = (Inr (), s)"
proof -
  obtain r where r: "m_jobs s i = Some r" "map_of r = m" using assms(2) by (rule mem_job_of_view)
  have st: "storable m" using assms(1,2) by (rule mem_inv_storable)
  then obtain w where w: "m ''status'' = Some w" by (auto simp: storable_def status_in_def)
  with r terminal_values [OF st w] assms(3) show ?thesis by (simp add: mem_request_cancel_def)
qed

lemma mem_wait_cancel_active:
  assumes "mem_inv s" "mem_view s i = Some m" "\<not> terminal_in m"
  shows "mem_wait_cancel i s =
    (if m ''request_cancel'' = Some (Str ''1'') then Ready (Inr ()) else Pending)"
proof -
  have ok: "mem_events_ok s" using assms(1) by (simp add: mem_inv_def)
  obtain e where e: "m_cancels s i = Some e"
    using mem_events_okD(2) [OF ok, of i] assms by (auto simp: mem_active_def)
  with mem_events_okD(6) [OF ok e] assms(2) show ?thesis by (simp add: mem_wait_cancel_def)
qed

lemma mem_unknown_id:
  assumes "mem_inv s" "mem_view s i = None"
  shows "mem_get_job i s = Inl (not_found i)" "mem_save i r fin s = (Inl (not_found i), s)"
    "mem_release i s = (Inl (not_found i), s)" "mem_request_cancel i s = (Inr (), s)"
    "mem_wait_cancel i s = Ready (Inl (not_found i))"
  using assms mem_unknown_event [OF assms]
  by (simp_all add: mem_view_def mem_get_job_def mem_save_def mem_release_def
      mem_request_cancel_def mem_wait_cancel_def)

lemma mem_known_id:
  assumes "mem_view s i = Some m"
  shows "mem_enqueue i r s = (Inr (), s)" "\<exists>r. mem_get_job i s = Inr r \<and> map_of r = m"
  using assms by (auto simp: mem_view_def mem_enqueue_def mem_get_job_def)

lemma mem_claim_none: "m_queue s = [] \<Longrightarrow> mem_claim s = (Inr None, s)"
  by (simp add: mem_claim_def)

lemma mem_upkeep: "mem_heartbeat s = (Inr (), s)" "mem_deregister s = (Inr (), s)" "mem_reap s = Some (Inr 0, s)"
  by (simp_all add: mem_heartbeat_def mem_deregister_def mem_reap_def)

lemmas mem_laws = mem_unknown_id mem_known_id mem_claim_none mem_upkeep mem_enqueue_new
  mem_release_running mem_release_other mem_take_waits mem_take_terminal mem_take_unknown
  mem_cancel_active mem_cancel_done mem_wait_cancel_active

section \<open>The in-memory store meets the contract\<close>

interpretation memory: backend_contract MemoryBackend mem_inv mem_view m_queue
proof unfold_locales
  fix s i m q n r
  assume "mem_inv s" "m_queue s = i # q" "mem_view s i = Some m" "\<not> terminal_in m"
    "m ''attempts'' = Some (Str (str_of_int n))"
  from mem_claim_some [OF this(1-3,5,4)] show "\<exists>r s'. b_claim MemoryBackend s = (Inr (Some r), s') \<and>
    mem_inv s' \<and> map_of r = m(''status'' \<mapsto> Str (status_value RUNNING),
      ''attempts'' \<mapsto> Str (str_of_int (n + 1))) \<and>
    mem_view s' = (mem_view s)(i \<mapsto> map_of r) \<and> m_queue s' = q"
    by (simp add: MemoryBackend_def)
next
  fix s i m r
  assume "mem_inv s" "mem_view s i = Some m" "is_dict r" "storable (map_of r)" "terminal_in (map_of r)"
  from mem_save_known [OF this] show "\<exists>s' m'. b_save MemoryBackend i r True s = (Inr (), s') \<and>
    mem_inv s' \<and> mem_view s' = (mem_view s)(i \<mapsto> m') \<and> map_of r \<subseteq>\<^sub>m m' \<and>
    m' \<subseteq>\<^sub>m m ++ map_of r \<and> m_queue s' = m_queue s"
    by (auto simp: MemoryBackend_def intro!: exI [of _ "map_of r"] map_le_map_add)
qed (auto simp: MemoryBackend_def mem_inv_storable mem_laws simp del: status_value.simps)

end
