(* ===== verification/Redis_Server.thy ===== *)
theory Redis_Server
  imports Py_Base
begin

text \<open>
  The Redis server that \<open>redis_backend.py\<close> talks to is a service, not code of the
  repository: its commands are a parameter of the model, the record \<open>'s redis\<close> over an
  unknown server state \<open>'s\<close>. The locale \<open>redis_server\<close> holds what the backend relies
  on, the documented effect of each command on the keyspace (\<open>r_view\<close>), stated only for
  keys that hold the command's type or nothing. The last section gives one concrete server
  that satisfies all of it.
\<close>

section \<open>Keyspace and commands\<close>

datatype rvalue =
    RHash "(string \<times> string) list"
  | RList "string list"
  | RZSet "(string \<times> int) list"

text \<open>\<open>ttl_at\<close> is the time a key expires, \<open>sent\<close> the messages published so far.\<close>

record rstate =
  keys :: "string \<Rightarrow> rvalue option"
  ttl_at :: "string \<Rightarrow> int option"
  clock :: int
  sent :: "(string \<times> string) list"

record 's redis =
  r_view :: "'s \<Rightarrow> rstate"
  r_EXISTS :: "string \<Rightarrow> 's \<Rightarrow> bool"
  r_HGET :: "string \<Rightarrow> string \<Rightarrow> 's \<Rightarrow> string option"
  r_HGETALL :: "string \<Rightarrow> 's \<Rightarrow> (string \<times> string) list"
  r_HSET :: "string \<Rightarrow> (string \<times> string) list \<Rightarrow> 's \<Rightarrow> 's"
  r_HINCRBY :: "string \<Rightarrow> string \<Rightarrow> int \<Rightarrow> 's \<Rightarrow> string + int \<times> 's"
  r_DEL :: "string \<Rightarrow> 's \<Rightarrow> 's"
  r_EXPIRE :: "string \<Rightarrow> int \<Rightarrow> 's \<Rightarrow> 's"
  r_RPUSH :: "string \<Rightarrow> string \<Rightarrow> 's \<Rightarrow> 's"
  r_LPOP :: "string \<Rightarrow> 's \<Rightarrow> string option \<times> 's"
  r_LREM1 :: "string \<Rightarrow> string \<Rightarrow> 's \<Rightarrow> 's"
  r_LLEN :: "string \<Rightarrow> 's \<Rightarrow> nat"
  r_BLMOVE :: "string \<Rightarrow> string \<Rightarrow> 's \<Rightarrow> string option \<times> 's"
  r_ZADD :: "string \<Rightarrow> int \<Rightarrow> string \<Rightarrow> 's \<Rightarrow> 's"
  r_ZREM :: "string \<Rightarrow> string \<Rightarrow> 's \<Rightarrow> int \<times> 's"
  r_ZRANGEBYSCORE :: "string \<Rightarrow> int \<Rightarrow> 's \<Rightarrow> string list"
  r_PUBLISH :: "string \<Rightarrow> string \<Rightarrow> 's \<Rightarrow> 's"
  r_TIME :: "'s \<Rightarrow> int"

section \<open>Reading and writing the keyspace\<close>

definition holds_hash :: "rstate \<Rightarrow> string \<Rightarrow> bool" where
  "holds_hash v k \<longleftrightarrow> (case keys v k of None \<Rightarrow> True | Some (RHash h) \<Rightarrow> True | Some _ \<Rightarrow> False)"

definition holds_list :: "rstate \<Rightarrow> string \<Rightarrow> bool" where
  "holds_list v k \<longleftrightarrow> (case keys v k of None \<Rightarrow> True | Some (RList h) \<Rightarrow> True | Some _ \<Rightarrow> False)"

definition holds_zset :: "rstate \<Rightarrow> string \<Rightarrow> bool" where
  "holds_zset v k \<longleftrightarrow> (case keys v k of None \<Rightarrow> True | Some (RZSet h) \<Rightarrow> True | Some _ \<Rightarrow> False)"

text \<open>A missing key reads as an empty hash, list or sorted set.\<close>

definition hash_at :: "rstate \<Rightarrow> string \<Rightarrow> (string \<times> string) list" where
  "hash_at v k = (case keys v k of Some (RHash h) \<Rightarrow> h | _ \<Rightarrow> [])"

definition list_at :: "rstate \<Rightarrow> string \<Rightarrow> string list" where
  "list_at v k = (case keys v k of Some (RList xs) \<Rightarrow> xs | _ \<Rightarrow> [])"

definition zset_at :: "rstate \<Rightarrow> string \<Rightarrow> (string \<times> int) list" where
  "zset_at v k = (case keys v k of Some (RZSet z) \<Rightarrow> z | _ \<Rightarrow> [])"

text \<open>A key whose last element goes away is removed, and its expiry with it.\<close>

definition del_key :: "string \<Rightarrow> rstate \<Rightarrow> rstate" where
  "del_key k v = v\<lparr>keys := (keys v)(k := None), ttl_at := (ttl_at v)(k := None)\<rparr>"

definition put_hash :: "string \<Rightarrow> (string \<times> string) list \<Rightarrow> rstate \<Rightarrow> rstate" where
  "put_hash k h v = (if h = [] then del_key k v else v\<lparr>keys := (keys v)(k \<mapsto> RHash h)\<rparr>)"

definition put_list :: "string \<Rightarrow> string list \<Rightarrow> rstate \<Rightarrow> rstate" where
  "put_list k xs v = (if xs = [] then del_key k v else v\<lparr>keys := (keys v)(k \<mapsto> RList xs)\<rparr>)"

definition put_zset :: "string \<Rightarrow> (string \<times> int) list \<Rightarrow> rstate \<Rightarrow> rstate" where
  "put_zset k z v = (if z = [] then del_key k v else v\<lparr>keys := (keys v)(k \<mapsto> RZSet z)\<rparr>)"

definition hset :: "(string \<times> string) list \<Rightarrow> (string \<times> string) list \<Rightarrow> (string \<times> string) list" where
  "hset fvs h = fold (\<lambda>(f, x). AList.update f x) fvs h"

text \<open>Time passes on the server: keys whose expiry is reached vanish.\<close>

definition expired_key :: "int \<Rightarrow> rstate \<Rightarrow> string \<Rightarrow> bool" where
  "expired_key t v k \<longleftrightarrow> (case ttl_at v k of None \<Rightarrow> False | Some d \<Rightarrow> d \<le> t)"

definition advance :: "int \<Rightarrow> rstate \<Rightarrow> rstate" where
  "advance t v = v\<lparr>clock := t,
     keys := (\<lambda>k. if expired_key t v k then None else keys v k),
     ttl_at := (\<lambda>k. if expired_key t v k then None else ttl_at v k)\<rparr>"

definition in64 :: "int \<Rightarrow> bool" where
  "in64 n \<longleftrightarrow> - (2 ^ 63) \<le> n \<and> n < 2 ^ 63"

section \<open>What the commands do\<close>

locale redis_server =
  fixes R :: "'s redis"
  assumes dict_hash: "is_dict (hash_at (r_view R s) k)"
    and dict_zset: "is_dict (zset_at (r_view R s) k)"
    and hash_nonempty: "keys (r_view R s) k \<noteq> Some (RHash [])"
    and ttl_absent: "keys (r_view R s) k = None \<Longrightarrow> ttl_at (r_view R s) k = None"
    and r_EXISTS: "r_EXISTS R k s \<longleftrightarrow> keys (r_view R s) k \<noteq> None"
    and r_HGET: "holds_hash (r_view R s) k \<Longrightarrow> r_HGET R k f s = map_of (hash_at (r_view R s) k) f"
    and r_HGETALL: "holds_hash (r_view R s) k \<Longrightarrow> r_HGETALL R k s = hash_at (r_view R s) k"
    and r_HSET: "holds_hash (r_view R s) k \<Longrightarrow> fvs \<noteq> [] \<Longrightarrow>
      r_view R (r_HSET R k fvs s) = put_hash k (hset fvs (hash_at (r_view R s) k)) (r_view R s)"
    and r_HINCRBY_absent: "holds_hash (r_view R s) k \<Longrightarrow> map_of (hash_at (r_view R s) k) f = None \<Longrightarrow>
      in64 n \<Longrightarrow> \<exists>s'. r_HINCRBY R k f n s = Inr (n, s') \<and>
        r_view R s' = put_hash k (AList.update f (str_of_int n) (hash_at (r_view R s) k)) (r_view R s)"
    and r_HINCRBY_int: "holds_hash (r_view R s) k \<Longrightarrow>
      map_of (hash_at (r_view R s) k) f = Some (str_of_int c) \<Longrightarrow> in64 c \<Longrightarrow> in64 (c + n) \<Longrightarrow>
      \<exists>s'. r_HINCRBY R k f n s = Inr (c + n, s') \<and>
        r_view R s' = put_hash k (AList.update f (str_of_int (c + n)) (hash_at (r_view R s) k)) (r_view R s)"
    and r_HINCRBY_fail: "holds_hash (r_view R s) k \<Longrightarrow> map_of (hash_at (r_view R s) k) f = Some x \<Longrightarrow>
      (\<nexists>c. x = str_of_int c \<and> in64 c \<and> in64 (c + n)) \<Longrightarrow> \<exists>e. r_HINCRBY R k f n s = Inl e"
    and r_DEL: "r_view R (r_DEL R k s) = del_key k (r_view R s)"
    and r_EXPIRE: "keys (r_view R s) k \<noteq> None \<Longrightarrow> 0 < n \<Longrightarrow>
      r_view R (r_EXPIRE R k n s) =
        (r_view R s)\<lparr>ttl_at := (ttl_at (r_view R s))(k \<mapsto> clock (r_view R s) + n)\<rparr>"
    and r_RPUSH: "holds_list (r_view R s) k \<Longrightarrow>
      r_view R (r_RPUSH R k x s) = put_list k (list_at (r_view R s) k @ [x]) (r_view R s)"
    and r_LPOP_nil: "holds_list (r_view R s) k \<Longrightarrow> list_at (r_view R s) k = [] \<Longrightarrow>
      r_LPOP R k s = (None, s)"
    and r_LPOP_cons: "holds_list (r_view R s) k \<Longrightarrow> list_at (r_view R s) k = x # xs \<Longrightarrow>
      \<exists>s'. r_LPOP R k s = (Some x, s') \<and> r_view R s' = put_list k xs (r_view R s)"
    and r_LREM1: "holds_list (r_view R s) k \<Longrightarrow>
      r_view R (r_LREM1 R k x s) = put_list k (remove1 x (list_at (r_view R s) k)) (r_view R s)"
    and r_LLEN: "holds_list (r_view R s) k \<Longrightarrow> r_LLEN R k s = length (list_at (r_view R s) k)"
    and r_BLMOVE_nil: "holds_list (r_view R s) a \<Longrightarrow> list_at (r_view R s) a = [] \<Longrightarrow>
      r_BLMOVE R a b s = (None, s)"
    and r_BLMOVE_cons: "holds_list (r_view R s) a \<Longrightarrow> holds_list (r_view R s) b \<Longrightarrow> a \<noteq> b \<Longrightarrow>
      list_at (r_view R s) a = x # xs \<Longrightarrow>
      \<exists>s'. r_BLMOVE R a b s = (Some x, s') \<and>
        r_view R s' = put_list b (list_at (r_view R s) b @ [x]) (put_list a xs (r_view R s))"
    and r_ZADD: "holds_zset (r_view R s) k \<Longrightarrow>
      r_view R (r_ZADD R k n x s) = put_zset k (AList.update x n (zset_at (r_view R s) k)) (r_view R s)"
    and r_ZREM: "holds_zset (r_view R s) k \<Longrightarrow>
      \<exists>s'. r_ZREM R k x s = (of_bool (map_of (zset_at (r_view R s) k) x \<noteq> None), s') \<and>
        r_view R s' = put_zset k (AList.delete x (zset_at (r_view R s) k)) (r_view R s)"
    and r_ZRANGEBYSCORE_set: "holds_zset (r_view R s) k \<Longrightarrow> set (r_ZRANGEBYSCORE R k n s) =
      {x. \<exists>sc. map_of (zset_at (r_view R s) k) x = Some sc \<and> sc \<le> n}"
    and r_ZRANGEBYSCORE_distinct: "holds_zset (r_view R s) k \<Longrightarrow> distinct (r_ZRANGEBYSCORE R k n s)"
    and r_PUBLISH: "r_view R (r_PUBLISH R ch x s) = (r_view R s)\<lparr>sent := sent (r_view R s) @ [(ch, x)]\<rparr>"
    and r_TIME: "r_TIME R s = clock (r_view R s)"

section \<open>Keyspace algebra\<close>

lemma hash_at_simps [simp]:
  "hash_at (del_key k v) k' = (if k' = k then [] else hash_at v k')"
  "hash_at (put_hash k h v) k' = (if k' = k then h else hash_at v k')"
  "k' \<noteq> k \<Longrightarrow> hash_at (put_list k xs v) k' = hash_at v k'"
  "k' \<noteq> k \<Longrightarrow> hash_at (put_zset k z v) k' = hash_at v k'"
  by (auto simp: hash_at_def put_hash_def put_list_def put_zset_def del_key_def)

lemma list_at_simps [simp]:
  "list_at (del_key k v) k' = (if k' = k then [] else list_at v k')"
  "list_at (put_list k xs v) k' = (if k' = k then xs else list_at v k')"
  "k' \<noteq> k \<Longrightarrow> list_at (put_hash k h v) k' = list_at v k'"
  "k' \<noteq> k \<Longrightarrow> list_at (put_zset k z v) k' = list_at v k'"
  by (auto simp: list_at_def put_hash_def put_list_def put_zset_def del_key_def)

lemma zset_at_simps [simp]:
  "zset_at (del_key k v) k' = (if k' = k then [] else zset_at v k')"
  "zset_at (put_zset k z v) k' = (if k' = k then z else zset_at v k')"
  "k' \<noteq> k \<Longrightarrow> zset_at (put_hash k h v) k' = zset_at v k'"
  "k' \<noteq> k \<Longrightarrow> zset_at (put_list k xs v) k' = zset_at v k'"
  by (auto simp: zset_at_def put_hash_def put_list_def put_zset_def del_key_def)

lemma holds_simps [simp]:
  "holds_hash (put_hash k h v) k' \<longleftrightarrow> k' = k \<or> holds_hash v k'"
  "holds_list (put_list k xs v) k' \<longleftrightarrow> k' = k \<or> holds_list v k'"
  "holds_zset (put_zset k z v) k' \<longleftrightarrow> k' = k \<or> holds_zset v k'"
  "holds_hash (del_key k v) k' \<longleftrightarrow> k' = k \<or> holds_hash v k'"
  "holds_list (del_key k v) k' \<longleftrightarrow> k' = k \<or> holds_list v k'"
  "holds_zset (del_key k v) k' \<longleftrightarrow> k' = k \<or> holds_zset v k'"
  "k' \<noteq> k \<Longrightarrow> holds_hash (put_list k xs v) k' \<longleftrightarrow> holds_hash v k'"
  "k' \<noteq> k \<Longrightarrow> holds_hash (put_zset k z v) k' \<longleftrightarrow> holds_hash v k'"
  "k' \<noteq> k \<Longrightarrow> holds_list (put_hash k h v) k' \<longleftrightarrow> holds_list v k'"
  "k' \<noteq> k \<Longrightarrow> holds_list (put_zset k z v) k' \<longleftrightarrow> holds_list v k'"
  "k' \<noteq> k \<Longrightarrow> holds_zset (put_hash k h v) k' \<longleftrightarrow> holds_zset v k'"
  "k' \<noteq> k \<Longrightarrow> holds_zset (put_list k xs v) k' \<longleftrightarrow> holds_zset v k'"
  by (auto simp: holds_hash_def holds_list_def holds_zset_def put_hash_def put_list_def
      put_zset_def del_key_def)

lemma frame_simps [simp]:
  "clock (del_key k v) = clock v" "clock (put_hash k h v) = clock v"
  "clock (put_list k xs v) = clock v" "clock (put_zset k z v) = clock v"
  "sent (del_key k v) = sent v" "sent (put_hash k h v) = sent v"
  "sent (put_list k xs v) = sent v" "sent (put_zset k z v) = sent v"
  by (simp_all add: del_key_def put_hash_def put_list_def put_zset_def)

lemma ttl_at_simps [simp]:
  "ttl_at (del_key k v) k' = (if k' = k then None else ttl_at v k')"
  "ttl_at (put_hash k h v) k' = (if k' = k \<and> h = [] then None else ttl_at v k')"
  "ttl_at (put_list k xs v) k' = (if k' = k \<and> xs = [] then None else ttl_at v k')"
  "ttl_at (put_zset k z v) k' = (if k' = k \<and> z = [] then None else ttl_at v k')"
  by (simp_all add: del_key_def put_hash_def put_list_def put_zset_def)

lemma at_frame [simp]:
  "hash_at (v\<lparr>ttl_at := t\<rparr>) = hash_at v" "hash_at (v\<lparr>sent := m\<rparr>) = hash_at v"
  "list_at (v\<lparr>ttl_at := t\<rparr>) = list_at v" "list_at (v\<lparr>sent := m\<rparr>) = list_at v"
  "zset_at (v\<lparr>ttl_at := t\<rparr>) = zset_at v" "zset_at (v\<lparr>sent := m\<rparr>) = zset_at v"
  "holds_hash (v\<lparr>ttl_at := t\<rparr>) = holds_hash v" "holds_hash (v\<lparr>sent := m\<rparr>) = holds_hash v"
  "holds_list (v\<lparr>ttl_at := t\<rparr>) = holds_list v" "holds_list (v\<lparr>sent := m\<rparr>) = holds_list v"
  "holds_zset (v\<lparr>ttl_at := t\<rparr>) = holds_zset v" "holds_zset (v\<lparr>sent := m\<rparr>) = holds_zset v"
  by (simp_all add: fun_eq_iff hash_at_def list_at_def zset_at_def holds_hash_def holds_list_def
      holds_zset_def)

lemma hset_simps [simp]: "hset [] h = h" "hset ((f, x) # fvs) h = hset fvs (AList.update f x h)"
  by (simp_all add: hset_def)

lemma map_of_hset: "map_of (hset fvs h) = map_of h ++ map_of (rev fvs)"
proof (induction fvs arbitrary: h)
  case (Cons p fvs)
  then show ?case by (cases p) (auto simp: fun_eq_iff map_add_def split: option.splits)
qed simp

lemma is_dict_hset: "is_dict h \<Longrightarrow> is_dict (hset fvs h)"
  by (induction fvs arbitrary: h) (auto simp: hset_def split: prod.splits)

lemma update_not_Nil [simp]: "AList.update k v d \<noteq> []"
  by (cases d) auto

lemma hset_not_Nil: "fvs \<noteq> [] \<Longrightarrow> hset fvs h \<noteq> []"
proof (induction fvs arbitrary: h)
  case (Cons p fvs)
  then show ?case by (cases fvs) (auto simp: hset_def split: prod.splits)
qed simp

lemma exists_hash: "holds_hash v k \<Longrightarrow> keys v k \<noteq> Some (RHash []) \<Longrightarrow> keys v k \<noteq> None \<longleftrightarrow> hash_at v k \<noteq> []"
  by (auto simp: holds_hash_def hash_at_def split: option.splits rvalue.splits)

lemma at_advance [simp]:
  "hash_at (advance t v) k = (if expired_key t v k then [] else hash_at v k)"
  "list_at (advance t v) k = (if expired_key t v k then [] else list_at v k)"
  "zset_at (advance t v) k = (if expired_key t v k then [] else zset_at v k)"
  "holds_hash (advance t v) k \<longleftrightarrow> expired_key t v k \<or> holds_hash v k"
  "holds_list (advance t v) k \<longleftrightarrow> expired_key t v k \<or> holds_list v k"
  "holds_zset (advance t v) k \<longleftrightarrow> expired_key t v k \<or> holds_zset v k"
  "ttl_at (advance t v) k = (if expired_key t v k then None else ttl_at v k)"
  "clock (advance t v) = t"
  by (simp_all add: hash_at_def list_at_def zset_at_def holds_hash_def holds_list_def holds_zset_def advance_def)

section \<open>A concrete server\<close>

text \<open>
  One server that behaves as documented, with the keyspace itself as its state. It shows that
  the laws can hold together and carries the witnesses.
\<close>

definition wf_keyspace :: "rstate \<Rightarrow> bool" where
  "wf_keyspace v \<longleftrightarrow> (\<forall>k. is_dict (hash_at v k) \<and> is_dict (zset_at v k) \<and> keys v k \<noteq> Some (RHash []) \<and>
     (keys v k = None \<longrightarrow> ttl_at v k = None))"

text \<open>States that no command produces are read as if their duplicate fields were absent.\<close>

definition tidy :: "rstate \<Rightarrow> rstate" where
  "tidy v = v\<lparr>keys := (\<lambda>k. case keys v k of
       Some (RHash h) \<Rightarrow> if h = [] then None else Some (RHash (AList.clearjunk h))
     | Some (RZSet z) \<Rightarrow> Some (RZSet (AList.clearjunk z))
     | x \<Rightarrow> x),
     ttl_at := (\<lambda>k. if keys v k = None \<or> keys v k = Some (RHash []) then None else ttl_at v k)\<rparr>"

definition mini_HINCRBY :: "string \<Rightarrow> string \<Rightarrow> int \<Rightarrow> rstate \<Rightarrow> string + int \<times> rstate" where
  "mini_HINCRBY k f n v =
     (let h = hash_at v k
      in case (case map_of h f of None \<Rightarrow> Some 0 | Some x \<Rightarrow> int_literal x) of
           None \<Rightarrow> Inl ''ERR hash value is not an integer''
         | Some c \<Rightarrow>
             if (map_of h f = None \<or> map_of h f = Some (str_of_int c)) \<and> in64 c \<and> in64 (c + n)
             then Inr (c + n, put_hash k (AList.update f (str_of_int (c + n)) h) v)
             else Inl ''ERR hash value is not an integer'')"

definition mini_range :: "(string \<times> int) list \<Rightarrow> int \<Rightarrow> string list" where
  "mini_range z n = map fst (sort_key snd (filter (\<lambda>p. snd p \<le> n) z))"

definition mini_redis :: "rstate redis" where
  "mini_redis =
     \<lparr>r_view = tidy,
      r_EXISTS = (\<lambda>k v. keys (tidy v) k \<noteq> None),
      r_HGET = (\<lambda>k f v. map_of (hash_at (tidy v) k) f),
      r_HGETALL = (\<lambda>k v. hash_at (tidy v) k),
      r_HSET = (\<lambda>k fvs v. put_hash k (hset fvs (hash_at (tidy v) k)) (tidy v)),
      r_HINCRBY = (\<lambda>k f n v. mini_HINCRBY k f n (tidy v)),
      r_DEL = (\<lambda>k v. del_key k (tidy v)),
      r_EXPIRE = (\<lambda>k n v. if keys (tidy v) k = None then v
         else (tidy v)\<lparr>ttl_at := (ttl_at (tidy v))(k \<mapsto> clock v + n)\<rparr>),
      r_RPUSH = (\<lambda>k x v. put_list k (list_at v k @ [x]) (tidy v)),
      r_LPOP = (\<lambda>k v. case list_at v k of [] \<Rightarrow> (None, v) | x # xs \<Rightarrow> (Some x, put_list k xs (tidy v))),
      r_LREM1 = (\<lambda>k x v. put_list k (remove1 x (list_at v k)) (tidy v)),
      r_LLEN = (\<lambda>k v. length (list_at v k)),
      r_BLMOVE = (\<lambda>a b v. case list_at v a of [] \<Rightarrow> (None, v)
         | x # xs \<Rightarrow> (Some x, put_list b (list_at v b @ [x]) (put_list a xs (tidy v)))),
      r_ZADD = (\<lambda>k n x v. put_zset k (AList.update x n (zset_at (tidy v) k)) (tidy v)),
      r_ZREM = (\<lambda>k x v. (of_bool (map_of (zset_at (tidy v) k) x \<noteq> None),
         put_zset k (AList.delete x (zset_at (tidy v) k)) (tidy v))),
      r_ZRANGEBYSCORE = (\<lambda>k n v. mini_range (zset_at (tidy v) k) n),
      r_PUBLISH = (\<lambda>ch x v. (tidy v)\<lparr>sent := sent v @ [(ch, x)]\<rparr>),
      r_TIME = clock\<rparr>"

lemma tidy_frame [simp]:
  "clock (tidy v) = clock v" "sent (tidy v) = sent v"
  "list_at (tidy v) = list_at v"
  by (auto simp: tidy_def list_at_def fun_eq_iff split: option.splits rvalue.splits)

lemma is_dict_clearjunk [simp]: "is_dict (AList.clearjunk d)"
  by (simp add: is_dict_def)

lemma clearjunk_Nil [simp]: "AList.clearjunk d = [] \<longleftrightarrow> d = []"
  by (cases d) auto

lemma is_dict_Nil [simp]: "is_dict []"
  by (simp add: is_dict_def)

lemma wf_tidy [simp]: "wf_keyspace (tidy v)"
  by (auto simp: wf_keyspace_def tidy_def hash_at_def zset_at_def split: option.splits rvalue.splits if_splits)

lemma clearjunk_id: "is_dict d \<Longrightarrow> AList.clearjunk d = d"
  by (simp add: is_dict_def distinct_clearjunk_id)

lemma tidy_id [simp]: "wf_keyspace v \<Longrightarrow> tidy v = v"
proof -
  assume wf: "wf_keyspace v"
  have "keys (tidy v) k = keys v k" for k
    using wf [unfolded wf_keyspace_def, rule_format, of k]
    by (auto simp: tidy_def hash_at_def zset_at_def clearjunk_id split: option.splits rvalue.splits)
  moreover have "ttl_at (tidy v) k = ttl_at v k" for k
    using wf [unfolded wf_keyspace_def, rule_format, of k] by (simp add: tidy_def)
  moreover have "clock (tidy v) = clock v" "sent (tidy v) = sent v" by simp_all
  ultimately show ?thesis by (intro rstate.equality) (simp_all add: fun_eq_iff)
qed

lemma wf_put [simp]:
  "wf_keyspace v \<Longrightarrow> wf_keyspace (del_key k v)"
  "wf_keyspace v \<Longrightarrow> is_dict h \<Longrightarrow> wf_keyspace (put_hash k h v)"
  "wf_keyspace v \<Longrightarrow> wf_keyspace (put_list k xs v)"
  "wf_keyspace v \<Longrightarrow> is_dict z \<Longrightarrow> wf_keyspace (put_zset k z v)"
  "wf_keyspace v \<Longrightarrow> keys v k \<noteq> None \<Longrightarrow> wf_keyspace (v\<lparr>ttl_at := (ttl_at v)(k \<mapsto> t)\<rparr>)"
  "wf_keyspace v \<Longrightarrow> wf_keyspace (v\<lparr>sent := m\<rparr>)"
  by (auto simp: wf_keyspace_def hash_at_def zset_at_def put_hash_def put_list_def put_zset_def
      del_key_def is_dict_def split: option.splits rvalue.splits)

lemma wf_advance [simp]:
  assumes "wf_keyspace v"
  shows "wf_keyspace (advance t v)"
proof -
  have "keys (advance t v) k = (if expired_key t v k then None else keys v k)" for k
    by (simp add: advance_def)
  with assms show ?thesis by (simp add: wf_keyspace_def is_dict_def)
qed

lemma tidy_at:
  "is_dict (hash_at (tidy v) k)" "is_dict (zset_at (tidy v) k)" "keys (tidy v) k \<noteq> Some (RHash [])"
  "keys (tidy v) k = None \<Longrightarrow> ttl_at (tidy v) k = None"
  using wf_tidy [of v] unfolding wf_keyspace_def by blast+

lemma is_dict_delete [simp]: "is_dict d \<Longrightarrow> is_dict (AList.delete k d)"
  by (simp add: is_dict_def distinct_delete)

lemma mini_range_spec:
  assumes "is_dict z"
  shows "set (mini_range z n) = {x. \<exists>sc. map_of z x = Some sc \<and> sc \<le> n}" "distinct (mini_range z n)"
proof -
  have inj: "inj_on fst (set z)" and dz: "distinct z"
    using assms by (auto simp: is_dict_def distinct_map)
  show "set (mini_range z n) = {x. \<exists>sc. map_of z x = Some sc \<and> sc \<le> n}"
    using assms by (force simp: is_dict_def mini_range_def)
  show "distinct (mini_range z n)"
    using dz inj by (auto simp: mini_range_def distinct_map intro: inj_on_subset)
qed

lemma mini_HINCRBY_simps:
  "map_of (hash_at v k) f = None \<Longrightarrow> in64 n \<Longrightarrow>
     mini_HINCRBY k f n v = Inr (n, put_hash k (AList.update f (str_of_int n) (hash_at v k)) v)"
  "map_of (hash_at v k) f = Some (str_of_int c) \<Longrightarrow> in64 c \<Longrightarrow> in64 (c + n) \<Longrightarrow>
     mini_HINCRBY k f n v = Inr (c + n, put_hash k (AList.update f (str_of_int (c + n)) (hash_at v k)) v)"
  by (simp_all add: mini_HINCRBY_def in64_def)

lemma mini_HINCRBY_fail:
  "map_of (hash_at v k) f = Some x \<Longrightarrow> (\<nexists>c. x = str_of_int c \<and> in64 c \<and> in64 (c + n)) \<Longrightarrow>
   \<exists>e. mini_HINCRBY k f n v = Inl e"
  by (auto simp: mini_HINCRBY_def Let_def split: option.splits)

interpretation mini: redis_server mini_redis
  by unfold_locales
    (auto simp: mini_redis_def tidy_at mini_range_spec mini_HINCRBY_simps is_dict_hset
      dest: mini_HINCRBY_fail split: list.splits)

end
