(* ===== verification/Redis_Backend.thy ===== *)
theory Redis_Backend
  imports Backend_Interface Redis_Server
begin

text \<open>
  \<open>backends/redis_backend.py\<close>: the Redis store. Each Lua script is one definition over the
  server's commands, in the order the script issues them; each method is a definition over the
  scripts. Two callers on different machines interleave between scripts and single commands,
  never inside one.
  Job ids and worker ids are hex digests, so their encoding as bytes is the identity and is not
  written out; field names and values go through the client's UTF-8 encoding.
  A round trip to the server may fail before or after the server executed it (\<open>fault\<close>).
\<close>

section \<open>Keys and records on the wire\<close>

definition QUEUE :: string where "QUEUE = ''queue''"
definition WORKERS :: string where "WORKERS = ''workers''"

definition job_key :: "string \<Rightarrow> string" where
  "job_key i = ''jobs:'' @ i"

definition processing_key :: "string \<Rightarrow> string" where
  "processing_key w = ''processing:'' @ w"

definition done_channel :: "string \<Rightarrow> string" where
  "done_channel i = ''done:'' @ i"

definition cancel_channel :: "string \<Rightarrow> string" where
  "cancel_channel i = ''cancel:'' @ i"

text \<open>\<open>_TERMINAL\<close>, as the set of status values and as the table the scripts index.\<close>

definition TERMINAL :: "string list" where
  "TERMINAL = map status_value [COMPLETED, FAILED, CANCELLED]"

fun flatten :: "hrecord \<Rightarrow> fval list" where
  "flatten [] = []"
| "flatten ((k, v) # r) = Str k # v # flatten r"

text \<open>The client sends a str as its UTF-8 bytes; a script sees \<open>ARGV\<close> as bytes.\<close>

fun enc_arg :: "fval \<Rightarrow> string" where
  "enc_arg (Str s) = utf8_encode s"
| "enc_arg (Bytes b) = b"

fun pairs_of :: "'a list \<Rightarrow> ('a \<times> 'a) list" where
  "pairs_of (f # x # xs) = (f, x) # pairs_of xs"
| "pairs_of _ = []"

fun flat_reply :: "('a \<times> 'a) list \<Rightarrow> 'a list" where
  "flat_reply [] = []"
| "flat_reply ((f, x) # h) = f # x # flat_reply h"

definition fval_decode :: "fval \<Rightarrow> string res" where
  "fval_decode v = (case v of Bytes b \<Rightarrow> utf8_decode b | Str s \<Rightarrow> Inr s)"

text \<open>\<open>_decode\<close>: str keys, str control values, blobs left as they came; an empty field
  name is dropped.\<close>

fun decode_into :: "(fval \<times> fval) list \<Rightarrow> hrecord \<Rightarrow> hrecord res" where
  "decode_into [] d = Inr d"
| "decode_into ((kb, v) # raw) d =
     rbind (fval_decode kb) (\<lambda>k.
       if k = [] then decode_into raw d
       else rbind (if blob_field k then Inr v else rbind (fval_decode v) (\<lambda>s. Inr (Str s))) (\<lambda>x.
         decode_into raw (AList.update k x d)))"

definition rb_decode :: "(string \<times> string) list \<Rightarrow> hrecord res" where
  "rb_decode raw = decode_into (map (\<lambda>(f, x). (Bytes f, Bytes x)) raw) []"

section \<open>The scripts\<close>

definition enqueue_script ::
  "'s redis \<Rightarrow> string \<Rightarrow> string \<Rightarrow> string \<Rightarrow> string list \<Rightarrow> 's \<Rightarrow> int \<times> 's" where
  "enqueue_script R job queue job_id argv s =
     (if r_EXISTS R job s then (0, s)
      else let s1 = r_HSET R job (pairs_of argv) s;
               s2 = r_RPUSH R queue job_id s1
           in (1, s2))"

text \<open>A command error aborts the script; what it wrote before stays written.\<close>

definition claim_script :: "'s redis \<Rightarrow> string \<Rightarrow> string \<Rightarrow> 's \<Rightarrow> (string + string list option) \<times> 's" where
  "claim_script R job running s =
     (if \<not> r_EXISTS R job s then (Inr None, s)
      else let s1 = r_HSET R job [(''status'', running)] s
           in case r_HINCRBY R job ''attempts'' 1 s1 of
                Inl e \<Rightarrow> (Inl e, s1)
              | Inr (_, s2) \<Rightarrow> (Inr (Some (flat_reply (r_HGETALL R job s2))), s2))"

definition save_script ::
  "'s redis \<Rightarrow> string \<Rightarrow> string \<Rightarrow> string \<Rightarrow> string \<Rightarrow> string \<Rightarrow> int \<Rightarrow> string list \<Rightarrow> 's \<Rightarrow> int \<times> 's" where
  "save_script R job processing channel fin job_id ttl argv s =
     (if \<not> r_EXISTS R job s then (0, s)
      else let s1 = r_HSET R job (pairs_of argv) s
           in if fin = ''1''
              then let s2 = r_LREM1 R processing job_id s1;
                       s3 = r_EXPIRE R job ttl s2;
                       s4 = r_PUBLISH R channel [] s3
                   in (1, s4)
              else (1, s1))"

definition release_script ::
  "'s redis \<Rightarrow> string \<Rightarrow> string \<Rightarrow> string \<Rightarrow> string \<Rightarrow> string \<Rightarrow> string \<Rightarrow> 's \<Rightarrow> int \<times> 's" where
  "release_script R job processing queue job_id running queued s =
     (if \<not> r_EXISTS R job s then (- 1, s)
      else if r_HGET R job ''status'' s \<noteq> Some running then (0, s)
      else let s1 = r_HSET R job [(''status'', queued)] s;
               s2 = r_LREM1 R processing job_id s1;
               s3 = r_RPUSH R queue job_id s2
           in (1, s3))"

definition request_cancel_script :: "'s redis \<Rightarrow> string \<Rightarrow> string \<Rightarrow> 's \<Rightarrow> int \<times> 's" where
  "request_cancel_script R job channel s =
     (if \<not> r_EXISTS R job s then (0, s)
      else if (case r_HGET R job ''status'' s of None \<Rightarrow> False | Some st \<Rightarrow> List.member TERMINAL st) then (0, s)
      else let s1 = r_HSET R job [(''request_cancel'', ''1'')] s;
               s2 = r_PUBLISH R channel [] s1
           in (1, s2))"

definition heartbeat_script :: "'s redis \<Rightarrow> string \<Rightarrow> string \<Rightarrow> 's \<Rightarrow> int \<times> 's" where
  "heartbeat_script R workers worker s = (1, r_ZADD R workers (r_TIME R s) worker s)"

definition deregister_script :: "'s redis \<Rightarrow> string \<Rightarrow> string \<Rightarrow> string \<Rightarrow> 's \<Rightarrow> int \<times> 's" where
  "deregister_script R workers processing worker s =
     (if r_LLEN R processing s > 0 then (0, s) else r_ZREM R workers worker s)"

text \<open>
  The reaper's inner \<open>while true\<close>: pop one lease at a time until the list is empty.
  \<open>None\<close> would be a loop that never ends.
\<close>

definition reap_one :: "'s redis \<Rightarrow> string \<Rightarrow> string \<Rightarrow> string \<Rightarrow> string \<Rightarrow> string \<Rightarrow> 's \<Rightarrow> bool \<times> 's" where
  "reap_one R queue queued running job_prefix job_id s =
     (let job = job_prefix @ job_id
      in if r_EXISTS R job s
         then let s1 = (if r_HGET R job ''status'' s = Some running
                        then r_HSET R job [(''status'', queued)] s else s)
              in (True, r_RPUSH R queue job_id s1)
         else (False, s))"

partial_function (option) reap_drain ::
  "'s redis \<Rightarrow> string \<Rightarrow> string \<Rightarrow> string \<Rightarrow> string \<Rightarrow> string \<Rightarrow> int \<Rightarrow> int \<Rightarrow> 's \<Rightarrow> (int \<times> int \<times> 's) option" where
  "reap_drain R processing queue queued running job_prefix reclaimed dropped s =
     (let popped = r_LPOP R processing s
      in case fst popped of
           None \<Rightarrow> Some (reclaimed, dropped, snd popped)
         | Some job_id \<Rightarrow>
             let kept = reap_one R queue queued running job_prefix job_id (snd popped)
             in if fst kept
                then reap_drain R processing queue queued running job_prefix (reclaimed + 1) dropped (snd kept)
                else reap_drain R processing queue queued running job_prefix reclaimed (dropped + 1) (snd kept))"

declare reap_drain.simps [code]

fun reap_workers ::
  "'s redis \<Rightarrow> string \<Rightarrow> string \<Rightarrow> string \<Rightarrow> string \<Rightarrow> string \<Rightarrow> string \<Rightarrow> string list \<Rightarrow> int \<Rightarrow> int \<Rightarrow> 's
   \<Rightarrow> (int \<times> int \<times> 's) option" where
  "reap_workers R workers queue queued running processing_prefix job_prefix [] reclaimed dropped s =
     Some (reclaimed, dropped, s)"
| "reap_workers R workers queue queued running processing_prefix job_prefix (w # ws) reclaimed dropped s =
     (case reap_drain R (processing_prefix @ w) queue queued running job_prefix reclaimed dropped s of
        None \<Rightarrow> None
      | Some (r, d, s1) \<Rightarrow>
          reap_workers R workers queue queued running processing_prefix job_prefix ws r d
            (snd (r_ZREM R workers w s1)))"

definition reaper_script ::
  "'s redis \<Rightarrow> string \<Rightarrow> string \<Rightarrow> int \<Rightarrow> string \<Rightarrow> string \<Rightarrow> string \<Rightarrow> string \<Rightarrow> 's \<Rightarrow> (int \<times> int \<times> 's) option" where
  "reaper_script R workers queue ttl queued running processing_prefix job_prefix s =
     (let now = r_TIME R s;
          expired = r_ZRANGEBYSCORE R workers (now - ttl) s
      in reap_workers R workers queue queued running processing_prefix job_prefix expired 0 0 s)"

section \<open>The backend object\<close>

record rb =
  instance_id :: string
  result_ttl :: int
  worker_ttl :: int

definition DEFAULT_RESULT_TTL_SECONDS :: int where "DEFAULT_RESULT_TTL_SECONDS = 86400"
definition DEFAULT_WORKER_TTL_SECONDS :: int where "DEFAULT_WORKER_TTL_SECONDS = 30"

definition RedisBackend_init :: "string \<Rightarrow> int \<Rightarrow> int \<Rightarrow> rb res" where
  "RedisBackend_init fresh rttl wttl =
     (if rttl \<le> 0 then Inl (ValueError (''result_ttl (='' @ str_of_int rttl @ '') must be greater than 0''))
      else if wttl \<le> 0 then Inl (ValueError (''worker_ttl (='' @ str_of_int wttl @ '') must be greater than 0''))
      else Inr \<lparr>instance_id = fresh, result_ttl = rttl, worker_ttl = wttl\<rparr>)"

datatype fault = NoFault | LostRequest | LostReply

text \<open>A round trip under a fault: a lost request never ran, a lost reply did.\<close>

definition round_trip :: "fault \<Rightarrow> ('s \<Rightarrow> 'a res \<times> 's) \<Rightarrow> 's \<Rightarrow> 'a res \<times> 's" where
  "round_trip f call s =
     (case f of
        NoFault \<Rightarrow> call s
      | LostRequest \<Rightarrow> (Inl (ConnectionError ''connection lost''), s)
      | LostReply \<Rightarrow> (Inl (ConnectionError ''connection lost''), snd (call s)))"

definition rb_enqueue :: "'s redis \<Rightarrow> rb \<Rightarrow> string \<Rightarrow> hrecord \<Rightarrow> 's \<Rightarrow> unit res \<times> 's" where
  "rb_enqueue R c i r s =
     (let r' = AList.update ''status'' (Str (status_value QUEUED)) r;
          (created, s') = enqueue_script R (job_key i) QUEUE i (map enc_arg (flatten r')) s
      in (Inr (), s'))"

definition rb_lease :: "'s redis \<Rightarrow> rb \<Rightarrow> 's \<Rightarrow> string option res \<times> 's" where
  "rb_lease R c s =
     (case r_BLMOVE R QUEUE (processing_key (instance_id c)) s of (x, s') \<Rightarrow> (Inr x, s'))"

definition rb_mark :: "'s redis \<Rightarrow> string \<Rightarrow> 's \<Rightarrow> string list option res \<times> 's" where
  "rb_mark R i s =
     (case claim_script R (job_key i) (status_value RUNNING) s of
        (Inl e, s') \<Rightarrow> (Inl (ResponseError e), s')
      | (Inr flat, s') \<Rightarrow> (Inr flat, s'))"

text \<open>The \<open>MULTI\<close> that hands a lease back after a failed claim script.\<close>

definition rb_return :: "'s redis \<Rightarrow> rb \<Rightarrow> string \<Rightarrow> 's \<Rightarrow> unit res \<times> 's" where
  "rb_return R c i s =
     (Inr (), r_RPUSH R QUEUE i (r_LREM1 R (processing_key (instance_id c)) i s))"

definition rb_discard :: "'s redis \<Rightarrow> rb \<Rightarrow> string \<Rightarrow> 's \<Rightarrow> 's" where
  "rb_discard R c i s = r_LREM1 R (processing_key (instance_id c)) i s"

definition rb_claim_faulty ::
  "fault \<Rightarrow> fault \<Rightarrow> fault \<Rightarrow> 's redis \<Rightarrow> rb \<Rightarrow> 's \<Rightarrow> hrecord option res \<times> 's" where
  "rb_claim_faulty f0 f1 f2 R c s =
     (case round_trip f0 (rb_lease R c) s of
        (Inl e, s1) \<Rightarrow> (Inl e, s1)
      | (Inr None, s1) \<Rightarrow> (Inr None, s1)
      | (Inr (Some i), s1) \<Rightarrow>
          (case round_trip f1 (rb_mark R i) s1 of
             (Inl e, s2) \<Rightarrow> (Inl e, snd (round_trip f2 (rb_return R c i) s2))
           | (Inr flat, s2) \<Rightarrow>
               (case flat of
                  None \<Rightarrow> (Inr None, rb_discard R c i s2)
                | Some xs \<Rightarrow>
                    if xs = [] then (Inr None, rb_discard R c i s2)
                    else (rbind (rb_decode (pairs_of xs)) (\<lambda>r. Inr (Some r)), s2))))"

definition rb_claim :: "'s redis \<Rightarrow> rb \<Rightarrow> 's \<Rightarrow> hrecord option res \<times> 's" where
  "rb_claim = rb_claim_faulty NoFault NoFault NoFault"

definition rb_get_job :: "'s redis \<Rightarrow> string \<Rightarrow> 's \<Rightarrow> hrecord res" where
  "rb_get_job R i s =
     (let raw = r_HGETALL R (job_key i) s in if raw = [] then Inl (not_found i) else rb_decode raw)"

definition rb_save :: "'s redis \<Rightarrow> rb \<Rightarrow> string \<Rightarrow> hrecord \<Rightarrow> bool \<Rightarrow> 's \<Rightarrow> unit res \<times> 's" where
  "rb_save R c i r fin s =
     (case save_script R (job_key i) (processing_key (instance_id c)) (done_channel i)
             (if fin then ''1'' else ''0'') i (result_ttl c) (map enc_arg (flatten r)) s of
        (code, s') \<Rightarrow> if code = 0 then (Inl (not_found i), s') else (Inr (), s'))"

definition rb_release :: "'s redis \<Rightarrow> rb \<Rightarrow> string \<Rightarrow> 's \<Rightarrow> unit res \<times> 's" where
  "rb_release R c i s =
     (case release_script R (job_key i) (processing_key (instance_id c)) QUEUE i
             (status_value RUNNING) (status_value QUEUED) s of
        (code, s') \<Rightarrow> if code = - 1 then (Inl (not_found i), s') else (Inr (), s'))"

definition rb_is_terminal :: "'s redis \<Rightarrow> string \<Rightarrow> 's \<Rightarrow> bool res" where
  "rb_is_terminal R i s =
     (case r_HGET R (job_key i) ''status'' s of
        None \<Rightarrow> Inl (not_found i)
      | Some raw \<Rightarrow> rbind (utf8_decode raw) (\<lambda>st. Inr (List.member TERMINAL st)))"

text \<open>The \<open>MULTI\<close> that fetches and frees a record.\<close>

definition rb_fetch :: "'s redis \<Rightarrow> string \<Rightarrow> 's \<Rightarrow> hrecord res \<times> 's" where
  "rb_fetch R i s =
     (let raw = r_HGETALL R (job_key i) s; s' = r_DEL R (job_key i) s
      in if raw = [] then (Inl (not_found i), s') else (rb_decode raw, s'))"

definition rb_take_result :: "'s redis \<Rightarrow> string \<Rightarrow> 's \<Rightarrow> hrecord await \<times> 's" where
  "rb_take_result R i s =
     (case rb_is_terminal R i s of
        Inl e \<Rightarrow> (Ready (Inl e), s)
      | Inr False \<Rightarrow> (Pending, s)
      | Inr True \<Rightarrow> (case rb_fetch R i s of (r, s') \<Rightarrow> (Ready r, s')))"

definition rb_request_cancel :: "'s redis \<Rightarrow> string \<Rightarrow> 's \<Rightarrow> unit res \<times> 's" where
  "rb_request_cancel R i s =
     (case request_cancel_script R (job_key i) (cancel_channel i) s of (_, s') \<Rightarrow> (Inr (), s'))"

fun rb_cancel_batch :: "'s redis \<Rightarrow> string list \<Rightarrow> 's \<Rightarrow> 's" where
  "rb_cancel_batch R [] s = s"
| "rb_cancel_batch R (i # is) s =
     rb_cancel_batch R is (snd (request_cancel_script R (job_key i) (cancel_channel i) s))"

definition rb_request_cancel_many :: "'s redis \<Rightarrow> string list \<Rightarrow> 's \<Rightarrow> unit res \<times> 's" where
  "rb_request_cancel_many R is s = (if is = [] then (Inr (), s) else (Inr (), rb_cancel_batch R is s))"

definition rb_cancel_requested :: "'s redis \<Rightarrow> string \<Rightarrow> 's \<Rightarrow> bool res" where
  "rb_cancel_requested R i s =
     (case r_HGET R (job_key i) ''request_cancel'' s of
        None \<Rightarrow> Inr False
      | Some raw \<Rightarrow> rbind (py_int raw) (\<lambda>n. Inr (n \<noteq> 0)))"

text \<open>
  \<open>wait_cancel\<close> reads the flag once after subscribing; a wake-up or a lapsed poll then
  re-reads it through \<open>_cancel_requested\<close>, for which a vanished record is not a cancel.
\<close>

definition rb_wait_cancel :: "'s redis \<Rightarrow> string \<Rightarrow> 's \<Rightarrow> unit await" where
  "rb_wait_cancel R i s =
     (case r_HGET R (job_key i) ''request_cancel'' s of
        None \<Rightarrow> Ready (Inl (not_found i))
      | Some flag \<Rightarrow>
          (case py_int flag of
             Inl e \<Rightarrow> Ready (Inl e)
           | Inr n \<Rightarrow> if n \<noteq> 0 then Ready (Inr ()) else Pending))"

definition rb_wait_cancel_again :: "'s redis \<Rightarrow> string \<Rightarrow> 's \<Rightarrow> unit await" where
  "rb_wait_cancel_again R i s =
     (case rb_cancel_requested R i s of
        Inl e \<Rightarrow> Ready (Inl e)
      | Inr b \<Rightarrow> if b then Ready (Inr ()) else Pending)"

definition rb_heartbeat :: "'s redis \<Rightarrow> rb \<Rightarrow> 's \<Rightarrow> unit res \<times> 's" where
  "rb_heartbeat R c s = (case heartbeat_script R WORKERS (instance_id c) s of (_, s') \<Rightarrow> (Inr (), s'))"

definition rb_deregister :: "'s redis \<Rightarrow> rb \<Rightarrow> 's \<Rightarrow> unit res \<times> 's" where
  "rb_deregister R c s =
     (case deregister_script R WORKERS (processing_key (instance_id c)) (instance_id c) s of
        (_, s') \<Rightarrow> (Inr (), s'))"

definition rb_reap :: "'s redis \<Rightarrow> rb \<Rightarrow> 's \<Rightarrow> (int res \<times> 's) option" where
  "rb_reap R c s =
     (case reaper_script R WORKERS QUEUE (worker_ttl c) (status_value QUEUED) (status_value RUNNING)
             ''processing:'' ''jobs:'' s of
        None \<Rightarrow> None
      | Some (reclaimed, dropped, s') \<Rightarrow> Some (Inr reclaimed, s'))"

definition RedisBackend :: "'s redis \<Rightarrow> rb \<Rightarrow> 's backend" where
  "RedisBackend R c =
     \<lparr>b_enqueue = rb_enqueue R c, b_claim = rb_claim R c, b_get_job = rb_get_job R,
      b_save = rb_save R c, b_release = rb_release R c, b_take_result = rb_take_result R,
      b_request_cancel = rb_request_cancel R, b_request_cancel_many = rb_request_cancel_many R,
      b_wait_cancel = rb_wait_cancel R, b_heartbeat = rb_heartbeat R c,
      b_deregister = rb_deregister R c, b_reap = rb_reap R c\<rparr>"

end
