(* ===== verification/Lease_Refinement.thy ===== *)
theory Lease_Refinement
  imports Redis_Backend
begin

text \<open>
  What the Redis backend promises, without Redis: the lease state \<open>lstate\<close> holds the job
  records, the queue, the leases of each worker, the heartbeats and the clock. Each script and
  each atomic block of the backend is refined to one operation on it: \<open>lease_abs\<close> maps a
  keyspace to its lease state, \<open>rb_inv\<close> is the typing of the keyspace that every operation
  keeps, and each lemma of the form \<open>..._refines\<close> is one commuting square.
\<close>

section \<open>The lease state and its operations\<close>

record lstate =
  l_rec :: "string \<Rightarrow> rec_view option"
  l_queue :: "string list"
  l_leases :: "string \<Rightarrow> string list"
  l_beats :: "string \<Rightarrow> int option"
  l_ttl :: "string \<Rightarrow> int option"
  l_now :: int

abbreviation set_status :: "JobStatus \<Rightarrow> rec_view \<Rightarrow> rec_view" where
  "set_status st m \<equiv> m(''status'' \<mapsto> Str (status_value st))"

definition l_enqueue :: "string \<Rightarrow> rec_view \<Rightarrow> lstate \<Rightarrow> lstate" where
  "l_enqueue i m l =
     (if l_rec l i \<noteq> None then l
      else l\<lparr>l_rec := (l_rec l)(i \<mapsto> set_status QUEUED m), l_queue := l_queue l @ [i]\<rparr>)"

definition l_lease :: "string \<Rightarrow> lstate \<Rightarrow> lstate" where
  "l_lease w l =
     (case l_queue l of [] \<Rightarrow> l
      | i # q \<Rightarrow> l\<lparr>l_queue := q, l_leases := (l_leases l)(w := l_leases l w @ [i])\<rparr>)"

definition l_mark :: "string \<Rightarrow> int \<Rightarrow> lstate \<Rightarrow> lstate" where
  "l_mark i n l =
     (case l_rec l i of None \<Rightarrow> l
      | Some m \<Rightarrow> l\<lparr>l_rec := (l_rec l)(i \<mapsto> (set_status RUNNING m)(''attempts'' \<mapsto> Str (str_of_int n)))\<rparr>)"

definition l_drop_lease :: "string \<Rightarrow> string \<Rightarrow> lstate \<Rightarrow> lstate" where
  "l_drop_lease w i l = l\<lparr>l_leases := (l_leases l)(w := remove1 i (l_leases l w))\<rparr>"

definition l_push :: "string \<Rightarrow> lstate \<Rightarrow> lstate" where
  "l_push i l = l\<lparr>l_queue := l_queue l @ [i]\<rparr>"

definition l_put :: "string \<Rightarrow> rec_view \<Rightarrow> lstate \<Rightarrow> lstate" where
  "l_put i m l = l\<lparr>l_rec := (l_rec l)(i \<mapsto> m)\<rparr>"

definition l_expire :: "string \<Rightarrow> int \<Rightarrow> lstate \<Rightarrow> lstate" where
  "l_expire i n l = l\<lparr>l_ttl := (l_ttl l)(i \<mapsto> l_now l + n)\<rparr>"

definition l_finish :: "string \<Rightarrow> string \<Rightarrow> rec_view \<Rightarrow> int \<Rightarrow> lstate \<Rightarrow> lstate" where
  "l_finish w i m ttl l =
     (case l_rec l i of None \<Rightarrow> l
      | Some m0 \<Rightarrow> l_expire i ttl (l_drop_lease w i (l_put i (m0 ++ m) l)))"

definition l_release :: "string \<Rightarrow> string \<Rightarrow> lstate \<Rightarrow> lstate" where
  "l_release w i l =
     (case l_rec l i of None \<Rightarrow> l
      | Some m \<Rightarrow> if status_in m RUNNING
                  then l_push i (l_drop_lease w i (l_put i (set_status QUEUED m) l)) else l)"

definition l_free :: "string \<Rightarrow> lstate \<Rightarrow> lstate" where
  "l_free i l = l\<lparr>l_rec := (l_rec l)(i := None), l_ttl := (l_ttl l)(i := None)\<rparr>"

definition l_cancel :: "string \<Rightarrow> lstate \<Rightarrow> lstate" where
  "l_cancel i l = (case l_rec l i of None \<Rightarrow> l | Some m \<Rightarrow> l_put i (flagged m) l)"

definition l_beat :: "string \<Rightarrow> lstate \<Rightarrow> lstate" where
  "l_beat w l = l\<lparr>l_beats := (l_beats l)(w \<mapsto> l_now l)\<rparr>"

definition l_deregister :: "string \<Rightarrow> lstate \<Rightarrow> lstate" where
  "l_deregister w l = (if l_leases l w \<noteq> [] then l else l\<lparr>l_beats := (l_beats l)(w := None)\<rparr>)"

definition requeued :: "rec_view \<Rightarrow> rec_view" where
  "requeued m = (if status_in m RUNNING then set_status QUEUED m else m)"

definition l_reap_id :: "string \<Rightarrow> lstate \<Rightarrow> lstate" where
  "l_reap_id i l = (case l_rec l i of None \<Rightarrow> l | Some m \<Rightarrow> l_push i (l_put i (requeued m) l))"

definition l_reap_worker :: "string \<Rightarrow> lstate \<Rightarrow> lstate" where
  "l_reap_worker w l =
     (fold l_reap_id (l_leases l w) l)\<lparr>l_leases := (l_leases l)(w := []), l_beats := (l_beats l)(w := None)\<rparr>"

definition l_expired :: "int \<Rightarrow> lstate \<Rightarrow> string \<Rightarrow> bool" where
  "l_expired ttl l w \<longleftrightarrow> (case l_beats l w of None \<Rightarrow> False | Some t \<Rightarrow> t \<le> l_now l - ttl)"

section \<open>Records as they are stored\<close>

definition enc_rec :: "hrecord \<Rightarrow> (string \<times> string) list" where
  "enc_rec r = map (\<lambda>(k, v). (utf8_encode k, enc_arg v)) r"

definition good_rec :: "hrecord \<Rightarrow> bool" where
  "good_rec r \<longleftrightarrow> is_dict r \<and> storable (map_of r)"

definition rb_view :: "rstate \<Rightarrow> string \<Rightarrow> rec_view option" where
  "rb_view v i =
     (let h = hash_at v (job_key i)
      in if h = [] then None else (case rb_decode h of Inl _ \<Rightarrow> None | Inr r \<Rightarrow> Some (map_of r)))"

definition lease_abs :: "rstate \<Rightarrow> lstate" where
  "lease_abs v =
     \<lparr>l_rec = rb_view v, l_queue = list_at v QUEUE, l_leases = (\<lambda>w. list_at v (processing_key w)),
      l_beats = map_of (zset_at v WORKERS), l_ttl = (\<lambda>i. ttl_at v (job_key i)), l_now = clock v\<rparr>"

text \<open>Every key holds its type, every stored hash is the encoding of a good record, and only
  job records ever expire.\<close>

definition rb_inv :: "rstate \<Rightarrow> bool" where
  "rb_inv v \<longleftrightarrow>
     (\<forall>i. holds_hash v (job_key i)) \<and> holds_list v QUEUE \<and> (\<forall>w. holds_list v (processing_key w)) \<and>
     holds_zset v WORKERS \<and>
     (\<forall>i. hash_at v (job_key i) = [] \<or> (\<exists>r. good_rec r \<and> hash_at v (job_key i) = enc_rec r)) \<and>
     ttl_at v QUEUE = None \<and> ttl_at v WORKERS = None \<and> (\<forall>w. ttl_at v (processing_key w) = None)"

lemma key_distinct [simp]:
  "job_key i = job_key j \<longleftrightarrow> i = j" "processing_key w = processing_key u \<longleftrightarrow> w = u"
  "job_key i \<noteq> processing_key w" "processing_key w \<noteq> job_key i"
  "job_key i \<noteq> QUEUE" "QUEUE \<noteq> job_key i" "job_key i \<noteq> WORKERS" "WORKERS \<noteq> job_key i"
  "processing_key w \<noteq> QUEUE" "QUEUE \<noteq> processing_key w"
  "processing_key w \<noteq> WORKERS" "WORKERS \<noteq> processing_key w" "QUEUE \<noteq> WORKERS" "WORKERS \<noteq> QUEUE"
  by (simp_all add: job_key_def processing_key_def QUEUE_def WORKERS_def)

lemma utf8_encode_inj [simp]: "utf8_encode a = utf8_encode b \<longleftrightarrow> a = b"
  by (metis Inr_inject utf8_decode_encode)

lemma utf8_ascii [simp]:
  "utf8_encode ''status'' = ''status''" "utf8_encode ''attempts'' = ''attempts''"
  "utf8_encode ''request_cancel'' = ''request_cancel''" "utf8_encode ''0'' = ''0''"
  "utf8_encode ''1'' = ''1''" "utf8_encode (status_value st) = status_value st"
  by (rule utf8_encode_ascii, simp)+ (cases st; rule utf8_encode_ascii; simp)

text \<open>From here on a status value stays symbolic.\<close>

declare status_value.simps [simp del]

lemma utf8_str_of_int [simp]: "utf8_encode (str_of_int n) = str_of_int n"
proof (rule utf8_encode_ascii)
  have "c \<in> set (str_of_nat m) \<Longrightarrow> (of_char c :: nat) < 128" for c m
    using str_of_nat_digits [of m] by (auto simp: list_all_iff is_digit_def)
  then show "\<forall>c \<in> set (str_of_int n). (of_char c :: nat) < 128" by (auto simp: str_of_int_def)
qed

lemma pairs_flatten: "pairs_of (map enc_arg (flatten r)) = enc_rec r"
  by (induction r rule: flatten.induct) (simp_all add: enc_rec_def)

lemma pairs_flat_reply: "pairs_of (flat_reply h) = h"
  by (induction h rule: flat_reply.induct) simp_all

lemma flat_reply_Nil [simp]: "flat_reply h = [] \<longleftrightarrow> h = []"
  by (cases h rule: flat_reply.cases) simp_all

lemma enc_rec_Nil [simp]: "enc_rec r = [] \<longleftrightarrow> r = []"
  by (simp add: enc_rec_def)

lemma enc_rec_update: "AList.update (utf8_encode k) (enc_arg v) (enc_rec r) = enc_rec (AList.update k v r)"
  by (induction r) (auto simp: enc_rec_def)

lemma enc_rec_simps [simp]:
  "enc_rec [] = []" "enc_rec ((k, v) # r) = (utf8_encode k, enc_arg v) # enc_rec r"
  by (simp_all add: enc_rec_def)

lemma enc_rec_hset: "hset (enc_rec r') (enc_rec r) = enc_rec (fold (\<lambda>(k, v). AList.update k v) r' r)"
  by (induction r' arbitrary: r) (auto simp: enc_rec_update)

lemma map_of_fold_update:
  "is_dict r' \<Longrightarrow> map_of (fold (\<lambda>(k, v). AList.update k v) r' r) = map_of r ++ map_of r'"
proof (induction r' arbitrary: r)
  case (Cons p r')
  obtain k v where p: "p = (k, v)" by (cases p)
  from Cons.prems have d: "is_dict r'" "map_of r' k = None"
    by (auto simp: is_dict_def p map_of_eq_None_iff)
  with Cons.IH [OF d(1)] show ?case by (auto simp: p fun_eq_iff map_add_def split: option.splits)
qed simp

lemma is_dict_fold_update: "is_dict r \<Longrightarrow> is_dict (fold (\<lambda>(k, v). AList.update k v) r' r)"
  by (induction r' arbitrary: r) (auto split: prod.splits)

lemma map_of_enc_rec: "map_of (enc_rec r) (utf8_encode k) = map_option enc_arg (map_of r k)"
  by (induction r) (auto simp: enc_rec_def)

lemma decode_enc_into:
  assumes "is_dict (d @ r)" "\<forall>p \<in> set r. typed_field (fst p) (snd p)"
  shows "decode_into (map (\<lambda>(f, x). (Bytes f, Bytes x)) (enc_rec r)) d = Inr (d @ r)"
  using assms
proof (induction r arbitrary: d)
  case Nil
  then show ?case by (simp add: enc_rec_def)
next
  case (Cons p r)
  obtain k v where p: "p = (k, v)" by (cases p)
  from Cons.prems have ty: "typed_field k v" by (simp add: p)
  have "k \<notin> fst ` set d" using Cons.prems by (auto simp: is_dict_def p)
  then have up: "AList.update k v d = d @ [(k, v)]" by (induction d) auto
  have "decode_into (map (\<lambda>(f, x). (Bytes f, Bytes x)) (enc_rec r)) (d @ [(k, v)]) = Inr ((d @ [(k, v)]) @ r)"
    by (rule Cons.IH) (use Cons.prems in \<open>simp_all add: p\<close>)
  with ty up show ?case
    by (cases v) (simp_all add: enc_rec_def p fval_decode_def typed_field_def)
qed

lemma rb_decode_enc: "good_rec r \<Longrightarrow> rb_decode (enc_rec r) = Inr r"
  using decode_enc_into [of "[]" r]
  by (force simp: rb_decode_def good_rec_def storable_def is_dict_def)

section \<open>How the abstraction sees a write\<close>

lemma good_rec_not_Nil: "good_rec r \<Longrightarrow> r \<noteq> []"
  by (auto simp: good_rec_def storable_def)

lemma rb_view_put [simp]:
  "good_rec r \<Longrightarrow> rb_view (put_hash (job_key i) (enc_rec r) v) = (rb_view v)(i \<mapsto> map_of r)"
  by (auto simp: rb_view_def fun_eq_iff rb_decode_enc good_rec_not_Nil)

lemma rb_view_frame [simp]:
  "rb_view (put_list QUEUE xs v) = rb_view v" "rb_view (put_list (processing_key w) xs v) = rb_view v"
  "rb_view (put_zset WORKERS z v) = rb_view v" "rb_view (del_key (job_key i) v) = (rb_view v)(i := None)"
  "rb_view (v\<lparr>ttl_at := t\<rparr>) = rb_view v" "rb_view (v\<lparr>sent := m\<rparr>) = rb_view v"
  by (simp_all add: rb_view_def fun_eq_iff)

lemma lease_abs_writes [simp]:
  "good_rec r \<Longrightarrow> lease_abs (put_hash (job_key i) (enc_rec r) v) = l_put i (map_of r) (lease_abs v)"
  "lease_abs (put_list QUEUE xs v) = (lease_abs v)\<lparr>l_queue := xs\<rparr>"
  "lease_abs (put_list (processing_key w) xs v) = (lease_abs v)\<lparr>l_leases := (l_leases (lease_abs v))(w := xs)\<rparr>"
  "lease_abs (put_zset WORKERS z v) = (lease_abs v)\<lparr>l_beats := map_of z\<rparr>"
  "lease_abs (del_key (job_key i) v) = l_free i (lease_abs v)"
  "lease_abs (v\<lparr>ttl_at := (ttl_at v)(job_key i \<mapsto> clock v + n)\<rparr>) = l_expire i n (lease_abs v)"
  "lease_abs (v\<lparr>sent := m\<rparr>) = lease_abs v"
  by (simp_all add: lease_abs_def l_put_def l_free_def l_expire_def fun_eq_iff good_rec_not_Nil)

lemma lease_abs_reads [simp]:
  "l_rec (lease_abs v) = rb_view v" "l_queue (lease_abs v) = list_at v QUEUE"
  "l_leases (lease_abs v) w = list_at v (processing_key w)"
  "l_beats (lease_abs v) = map_of (zset_at v WORKERS)" "l_now (lease_abs v) = clock v"
  "l_ttl (lease_abs v) i = ttl_at v (job_key i)"
  by (simp_all add: lease_abs_def)

definition stored_ok :: "rstate \<Rightarrow> string \<Rightarrow> bool" where
  "stored_ok v i \<longleftrightarrow> hash_at v (job_key i) = [] \<or> (\<exists>r. good_rec r \<and> hash_at v (job_key i) = enc_rec r)"

lemma rb_invD:
  assumes "rb_inv v"
  shows "holds_hash v (job_key i)" "holds_list v QUEUE" "holds_list v (processing_key w)"
    "holds_zset v WORKERS" "stored_ok v i"
    "ttl_at v QUEUE = None" "ttl_at v WORKERS = None" "ttl_at v (processing_key w) = None"
  using assms unfolding rb_inv_def stored_ok_def by blast+

lemma rb_invI:
  assumes "\<And>i. holds_hash v (job_key i)" "holds_list v QUEUE" "\<And>w. holds_list v (processing_key w)"
    "holds_zset v WORKERS" "\<And>i. stored_ok v i"
    "ttl_at v QUEUE = None" "ttl_at v WORKERS = None" "\<And>w. ttl_at v (processing_key w) = None"
  shows "rb_inv v"
  using assms unfolding rb_inv_def stored_ok_def by blast

lemmas rb_inv_holds [simp] = rb_invD(1-4)

lemma stored_ok_writes [simp]:
  "good_rec r \<Longrightarrow> stored_ok v j \<Longrightarrow> stored_ok (put_hash (job_key i) (enc_rec r) v) j"
  "stored_ok (put_list QUEUE xs v) j \<longleftrightarrow> stored_ok v j"
  "stored_ok (put_list (processing_key w) xs v) j \<longleftrightarrow> stored_ok v j"
  "stored_ok (put_zset WORKERS z v) j \<longleftrightarrow> stored_ok v j"
  "stored_ok v j \<Longrightarrow> stored_ok (del_key (job_key i) v) j"
  "stored_ok (v\<lparr>ttl_at := t\<rparr>) j \<longleftrightarrow> stored_ok v j" "stored_ok (v\<lparr>sent := m\<rparr>) j \<longleftrightarrow> stored_ok v j"
  by (auto simp: stored_ok_def)

lemma rb_inv_writes [simp]:
  assumes "rb_inv v"
  shows "good_rec r \<Longrightarrow> rb_inv (put_hash (job_key i) (enc_rec r) v)"
    "rb_inv (put_list QUEUE xs v)" "rb_inv (put_list (processing_key w) xs v)"
    "rb_inv (put_zset WORKERS z v)" "rb_inv (del_key (job_key i) v)"
    "rb_inv (v\<lparr>ttl_at := (ttl_at v)(job_key i \<mapsto> n)\<rparr>)" "rb_inv (v\<lparr>sent := m\<rparr>)"
  by (rule rb_invI; simp add: rb_invD [OF assms])+

lemma rb_inv_record:
  assumes "rb_inv v"
  obtains (absent) "hash_at v (job_key i) = []" "rb_view v i = None"
  | (present) r where "good_rec r" "hash_at v (job_key i) = enc_rec r" "rb_view v i = Some (map_of r)"
proof (cases "hash_at v (job_key i) = []")
  case True
  then show ?thesis by (intro absent) (simp_all add: rb_view_def)
next
  case False
  with rb_invD(5) [OF assms] obtain r where r: "good_rec r" "hash_at v (job_key i) = enc_rec r"
    by (auto simp: stored_ok_def)
  then show ?thesis by (intro present) (simp_all add: rb_view_def rb_decode_enc good_rec_not_Nil)
qed

lemma rb_view_stored:
  assumes "rb_inv v" "rb_view v i = Some m"
  obtains r where "good_rec r" "hash_at v (job_key i) = enc_rec r" "map_of r = m"
  using assms(1) by (rule rb_inv_record [of v i]) (use assms(2) that in auto)

lemma good_rec_update:
  assumes "good_rec r"
  shows "good_rec (AList.update ''status'' (Str (status_value st)) r)"
    "0 \<le> n \<Longrightarrow> good_rec (AList.update ''attempts'' (Str (str_of_int n)) r)"
    "good_rec (AList.update ''request_cancel'' (Str ''1'') r)"
  using assms storable_set_cancel [of "map_of r" True] by (simp_all add: good_rec_def)

lemma good_rec_set:
  "good_rec r \<Longrightarrow> storable ((map_of r)(k \<mapsto> v)) \<Longrightarrow> good_rec (AList.update k v r)"
  by (simp add: good_rec_def)

lemma storable_merge: "storable m \<Longrightarrow> storable m' \<Longrightarrow> storable (m ++ m')"
  unfolding storable_def status_in_def by (auto simp: map_add_Some_iff)

lemma member_TERMINAL: "status_value st \<in> set TERMINAL \<longleftrightarrow> terminal st"
  by (auto simp: TERMINAL_def terminal_def)

lemma utf8_decode_status: "utf8_decode (status_value st) = Inr (status_value st)"
  using utf8_decode_encode [of "status_value st"] by simp

section \<open>Commands and scripts as lease operations\<close>

text \<open>\<open>sim R s l\<close>: the server's state \<open>s\<close> is well typed and means the lease state \<open>l\<close>.\<close>

definition sim :: "'s redis \<Rightarrow> 's \<Rightarrow> lstate \<Rightarrow> bool" where
  "sim R s l \<longleftrightarrow> rb_inv (r_view R s) \<and> lease_abs (r_view R s) = l"

lemma sim_inv: "sim R s l \<Longrightarrow> rb_inv (r_view R s)"
  by (simp add: sim_def)

lemma sim_abs: "sim R s l \<Longrightarrow> lease_abs (r_view R s) = l"
  by (simp add: sim_def)

lemma sim_reads:
  assumes "sim R s l"
  shows "rb_view (r_view R s) = l_rec l" "list_at (r_view R s) QUEUE = l_queue l"
    "list_at (r_view R s) (processing_key w) = l_leases l w"
    "map_of (zset_at (r_view R s) WORKERS) = l_beats l" "clock (r_view R s) = l_now l"
  using sim_abs [OF assms] by auto

lemma sim_storable:
  assumes "sim R s l" "l_rec l i = Some m"
  shows "storable m"
  using assms(2) sim_reads(1) [OF assms(1)] rb_view_stored [OF sim_inv [OF assms(1)]]
  by (metis good_rec_def)

lemma status_value_enc: "status_in m st \<longleftrightarrow> map_option enc_arg (m ''status'') = Some (status_value st)"
  if "storable m"
proof -
  from that obtain st' where "m ''status'' = Some (Str (status_value st'))"
    by (auto simp: storable_def status_in_def)
  then show ?thesis by (auto simp: status_in_def)
qed

context redis_server
begin

lemma sim_EXISTS:
  assumes "sim R s l"
  shows "r_EXISTS R (job_key i) s \<longleftrightarrow> l_rec l i \<noteq> None"
proof -
  have "keys (r_view R s) (job_key i) \<noteq> None \<longleftrightarrow> hash_at (r_view R s) (job_key i) \<noteq> []"
    by (rule exists_hash) (use sim_inv [OF assms] hash_nonempty in auto)
  moreover have "hash_at (r_view R s) (job_key i) \<noteq> [] \<longleftrightarrow> l_rec l i \<noteq> None"
    using sim_inv [OF assms] by (rule rb_inv_record [of _ i])
      (auto simp: sim_reads(1) [OF assms, symmetric] good_rec_not_Nil)
  ultimately show ?thesis by (simp add: r_EXISTS)
qed

lemma sim_HGET:
  assumes "sim R s l" "l_rec l i = Some m"
  shows "r_HGET R (job_key i) (utf8_encode k) s = map_option enc_arg (m k)"
proof -
  from assms(2) have "rb_view (r_view R s) i = Some m" by (simp add: sim_reads(1) [OF assms(1)])
  then obtain r where "hash_at (r_view R s) (job_key i) = enc_rec r" "map_of r = m"
    using rb_view_stored [OF sim_inv [OF assms(1)]] by metis
  then show ?thesis using sim_inv [OF assms(1)] by (simp add: r_HGET map_of_enc_rec)
qed

lemma sim_HGET_status:
  assumes "sim R s l" "l_rec l i = Some m"
  shows "r_HGET R (job_key i) ''status'' s = Some (status_value st) \<longleftrightarrow> status_in m st"
  using sim_HGET [OF assms, of "''status''"] status_value_enc [OF sim_storable [OF assms]] by simp

lemma sim_HSET:
  assumes "sim R s l" "l_rec l i = Some m" "is_dict d" "d \<noteq> []" "storable (m ++ map_of d)"
  shows "sim R (r_HSET R (job_key i) (enc_rec d) s) (l_put i (m ++ map_of d) l)"
proof -
  note inv = sim_inv [OF assms(1)]
  from assms(2) have "rb_view (r_view R s) i = Some m" by (simp add: sim_reads(1) [OF assms(1)])
  then obtain r where r: "good_rec r" "hash_at (r_view R s) (job_key i) = enc_rec r" "map_of r = m"
    by (rule rb_view_stored [OF inv])
  let ?r = "fold (\<lambda>(k, v). AList.update k v) d r"
  have m: "map_of ?r = m ++ map_of d" using assms(3) r(3) by (simp add: map_of_fold_update)
  from r(1) m assms(5) have g: "good_rec ?r" by (simp add: good_rec_def is_dict_fold_update)
  have "r_view R (r_HSET R (job_key i) (enc_rec d) s) = put_hash (job_key i) (enc_rec ?r) (r_view R s)"
    using inv assms(4) by (simp add: r_HSET r(2) enc_rec_hset)
  with g m inv show ?thesis by (simp add: sim_def sim_abs [OF assms(1)])
qed

lemma sim_HSET_field:
  assumes "sim R s l" "l_rec l i = Some m" "storable (m(k \<mapsto> Str x))" "utf8_encode k = k" "utf8_encode x = x"
  shows "sim R (r_HSET R (job_key i) [(k, x)] s) (l_put i (m(k \<mapsto> Str x)) l)"
  using sim_HSET [OF assms(1,2), of "[(k, Str x)]"] assms(3-5) by (simp add: is_dict_def)

lemma sim_HSET_status:
  assumes "sim R s l" "l_rec l i = Some m"
  shows "sim R (r_HSET R (job_key i) [(''status'', status_value st)] s) (l_put i (set_status st m) l)"
  using sim_storable [OF assms] by (intro sim_HSET_field [OF assms]) simp_all

lemma sim_HSET_new:
  assumes "sim R s l" "l_rec l i = None" "good_rec d"
  shows "sim R (r_HSET R (job_key i) (enc_rec d) s) (l_put i (map_of d) l)"
proof -
  note inv = sim_inv [OF assms(1)]
  from assms(2) have "rb_view (r_view R s) i = None" by (simp add: sim_reads(1) [OF assms(1)])
  then have h: "hash_at (r_view R s) (job_key i) = []" using rb_inv_record [OF inv, of i] by force
  let ?r = "fold (\<lambda>(k, v). AList.update k v) d []"
  have "AList.update k v e = e @ [(k, v)]" if "k \<notin> fst ` set e" for k v and e :: hrecord
    using that by (induction e) auto
  then have "is_dict (e @ d) \<Longrightarrow> fold (\<lambda>(k, v). AList.update k v) d e = e @ d" for e :: hrecord
    by (induction d arbitrary: e) (auto simp: is_dict_def)
  from this [of "[]"] assms(3) have "?r = d" by (simp add: good_rec_def)
  then have "r_view R (r_HSET R (job_key i) (enc_rec d) s) = put_hash (job_key i) (enc_rec d) (r_view R s)"
    using inv assms(3) h enc_rec_hset [of d "[]"] by (simp add: r_HSET good_rec_not_Nil)
  with assms(3) inv show ?thesis by (simp add: sim_def sim_abs [OF assms(1)])
qed

lemma sim_RPUSH: "sim R s l \<Longrightarrow> sim R (r_RPUSH R QUEUE i s) (l_push i l)"
  by (auto simp: sim_def r_RPUSH l_push_def)

lemma sim_LREM: "sim R s l \<Longrightarrow> sim R (r_LREM1 R (processing_key w) i s) (l_drop_lease w i l)"
  by (auto simp: sim_def r_LREM1 l_drop_lease_def)

lemma sim_PUBLISH: "sim R s l \<Longrightarrow> sim R (r_PUBLISH R ch x s) l"
  by (simp add: sim_def r_PUBLISH)

lemma sim_DEL: "sim R s l \<Longrightarrow> sim R (r_DEL R (job_key i) s) (l_free i l)"
  by (auto simp: sim_def r_DEL)

lemma sim_ttl_absent: "sim R s l \<Longrightarrow> l_rec l i = None \<Longrightarrow> l_ttl l i = None"
  using sim_EXISTS [of s l i] ttl_absent [of s "job_key i"] by (auto simp: r_EXISTS sim_def)

lemma sim_EXPIRE:
  assumes "sim R s l" "l_rec l i \<noteq> None" "0 < n"
  shows "sim R (r_EXPIRE R (job_key i) n s) (l_expire i n l)"
proof -
  from assms sim_EXISTS have "keys (r_view R s) (job_key i) \<noteq> None" by (simp add: r_EXISTS)
  with assms show ?thesis by (simp add: sim_def r_EXPIRE)
qed

lemmas sim_commands = sim_RPUSH sim_LREM sim_PUBLISH sim_DEL sim_HSET_status

lemma sim_HGETALL:
  assumes "sim R s l"
  shows "l_rec l i = None \<Longrightarrow> r_HGETALL R (job_key i) s = []"
    "l_rec l i = Some m \<Longrightarrow> \<exists>r. r_HGETALL R (job_key i) s = enc_rec r \<and> good_rec r \<and> map_of r = m"
proof -
  note inv = sim_inv [OF assms]
  note reads = sim_reads(1) [OF assms, symmetric]
  show "l_rec l i = None \<Longrightarrow> r_HGETALL R (job_key i) s = []"
    using inv by (rule rb_inv_record [of _ i]) (simp_all add: reads r_HGETALL inv)
  show "l_rec l i = Some m \<Longrightarrow> \<exists>r. r_HGETALL R (job_key i) s = enc_rec r \<and> good_rec r \<and> map_of r = m"
    using inv by (rule rb_inv_record [of _ i]) (auto simp: reads r_HGETALL inv)
qed

lemma sim_HINCRBY:
  assumes "sim R s l" "l_rec l i = Some m" "m ''attempts'' = Some (Str (str_of_int n))"
    "0 \<le> n" "n < max_attempts"
  shows "\<exists>s'. r_HINCRBY R (job_key i) ''attempts'' 1 s = Inr (n + 1, s') \<and>
    sim R s' (l_put i (m(''attempts'' \<mapsto> Str (str_of_int (n + 1)))) l)"
proof -
  note inv = sim_inv [OF assms(1)]
  from assms(2) have "rb_view (r_view R s) i = Some m" by (simp add: sim_reads(1) [OF assms(1)])
  then obtain r where r: "good_rec r" "hash_at (r_view R s) (job_key i) = enc_rec r" "map_of r = m"
    by (rule rb_view_stored [OF inv])
  have at: "map_of (hash_at (r_view R s) (job_key i)) ''attempts'' = Some (str_of_int n)"
    using map_of_enc_rec [of r "''attempts''"] r assms(3) by simp
  have b: "in64 n" "in64 (n + 1)" using assms(4,5) by (auto simp: in64_def max_attempts_def)
  obtain s' where s': "r_HINCRBY R (job_key i) ''attempts'' 1 s = Inr (n + 1, s')"
    "r_view R s' = put_hash (job_key i) (AList.update ''attempts'' (str_of_int (n + 1)) (enc_rec r)) (r_view R s)"
    using r_HINCRBY_int [OF _ at b] inv by (auto simp: r(2))
  let ?r = "AList.update ''attempts'' (Str (str_of_int (n + 1))) r"
  have "r_view R s' = put_hash (job_key i) (enc_rec ?r) (r_view R s)"
    using enc_rec_update [of "''attempts''" "Str (str_of_int (n + 1))" r] s'(2) by simp
  moreover have "good_rec ?r" using r(1) assms(4) by (intro good_rec_update) simp_all
  ultimately have "sim R s' (l_put i (m(''attempts'' \<mapsto> Str (str_of_int (n + 1)))) l)"
    using inv r(3) by (simp add: sim_def sim_abs [OF assms(1)])
  with s'(1) show ?thesis by blast
qed

section \<open>The backend's operations as lease operations\<close>

lemma enqueue_known_refines:
  "sim R s l \<Longrightarrow> l_rec l i \<noteq> None \<Longrightarrow> rb_enqueue R c i r s = (Inr (), s)"
  by (simp add: rb_enqueue_def enqueue_script_def sim_EXISTS)

lemma enqueue_refines:
  assumes "sim R s l" "is_dict r" "storable (map_of r)"
  shows "\<exists>s'. rb_enqueue R c i r s = (Inr (), s') \<and> sim R s' (l_enqueue i (map_of r) l)"
proof (cases "l_rec l i")
  case None
  let ?r = "AList.update ''status'' (Str (status_value QUEUED)) r"
  have "good_rec ?r" using assms by (simp add: good_rec_def)
  from sim_HSET_new [OF assms(1) None this]
  have "sim R (r_HSET R (job_key i) (pairs_of (map enc_arg (flatten ?r))) s) (l_put i (map_of ?r) l)"
    by (simp only: pairs_flatten)
  from sim_RPUSH [OF this, of i] None show ?thesis
    using sim_EXISTS [OF assms(1), of i]
    by (simp add: rb_enqueue_def enqueue_script_def l_enqueue_def l_put_def l_push_def)
next
  case Some
  with enqueue_known_refines [OF assms(1)] assms(1) show ?thesis by (simp add: l_enqueue_def)
qed

lemma lease_refines:
  assumes "sim R s l"
  shows "\<exists>s'. rb_lease R c s = (Inr (case l_queue l of [] \<Rightarrow> None | i # q \<Rightarrow> Some i), s') \<and>
    sim R s' (l_lease (instance_id c) l) \<and> (l_queue l = [] \<longrightarrow> s' = s)"
proof (cases "l_queue l")
  case Nil
  then show ?thesis
    using assms sim_inv [OF assms]
    by (auto simp: rb_lease_def l_lease_def r_BLMOVE_nil sim_reads(2) [OF assms])
next
  case (Cons i q)
  let ?p = "processing_key (instance_id c)"
  obtain s' where s': "r_BLMOVE R QUEUE ?p s = (Some i, s')"
    "r_view R s' = put_list ?p (list_at (r_view R s) ?p @ [i]) (put_list QUEUE q (r_view R s))"
    using r_BLMOVE_cons [of s QUEUE ?p i q] sim_inv [OF assms] Cons sim_reads(2) [OF assms] by auto
  have "sim R s' (l_lease (instance_id c) l)"
    unfolding sim_def s'(2) using sim_inv [OF assms] Cons
    by (simp add: sim_abs [OF assms] l_lease_def sim_reads(3) [OF assms])
  with s' Cons show ?thesis by (auto simp: rb_lease_def)
qed

lemma mark_refines:
  assumes "sim R s l" "l_rec l i = Some m" "m ''attempts'' = Some (Str (str_of_int n))" "n < max_attempts"
  shows "\<exists>r s'. rb_mark R i s = (Inr (Some (flat_reply (enc_rec r))), s') \<and> good_rec r \<and>
    map_of r = (set_status RUNNING m)(''attempts'' \<mapsto> Str (str_of_int (n + 1))) \<and>
    sim R s' (l_mark i (n + 1) l)"
proof -
  let ?m = "set_status RUNNING m" and ?s = "r_HSET R (job_key i) [(''status'', status_value RUNNING)] s"
  have "0 \<le> n" using sim_storable [OF assms(1,2)] assms(3) by (auto simp: storable_def)
  moreover have "sim R ?s (l_put i ?m l)" by (rule sim_HSET_status [OF assms(1,2)])
  moreover have "l_rec (l_put i ?m l) i = Some ?m" by (simp add: l_put_def)
  ultimately obtain s' where s': "r_HINCRBY R (job_key i) ''attempts'' 1 ?s = Inr (n + 1, s')"
    "sim R s' (l_put i (?m(''attempts'' \<mapsto> Str (str_of_int (n + 1)))) (l_put i ?m l))"
    using sim_HINCRBY [of ?s "l_put i ?m l" i ?m n] assms(3,4) by auto
  have l: "l_put i (?m(''attempts'' \<mapsto> Str (str_of_int (n + 1)))) (l_put i ?m l) = l_mark i (n + 1) l"
    using assms(2) by (simp add: l_put_def l_mark_def)
  obtain r where "r_HGETALL R (job_key i) s' = enc_rec r" "good_rec r"
    "map_of r = ?m(''attempts'' \<mapsto> Str (str_of_int (n + 1)))"
    using sim_HGETALL(2) [OF s'(2), of i] by (auto simp: l_put_def)
  with s' l assms(2) sim_EXISTS [OF assms(1), of i] show ?thesis
    by (auto simp: rb_mark_def claim_script_def)
qed

lemma mark_missing: "sim R s l \<Longrightarrow> l_rec l i = None \<Longrightarrow> rb_mark R i s = (Inr None, s)"
  by (simp add: rb_mark_def claim_script_def sim_EXISTS)

lemma return_refines:
  "sim R s l \<Longrightarrow> sim R (snd (rb_return R c i s)) (l_push i (l_drop_lease (instance_id c) i l))"
  by (simp add: rb_return_def sim_commands)

lemma discard_refines: "sim R s l \<Longrightarrow> sim R (rb_discard R c i s) (l_drop_lease (instance_id c) i l)"
  by (simp add: rb_discard_def sim_commands)

lemma finish_refines:
  assumes "sim R s l" "l_rec l i = Some m" "is_dict r" "storable (map_of r)" "0 < result_ttl c"
  shows "\<exists>s'. rb_save R c i r True s = (Inr (), s') \<and> sim R s' (l_finish (instance_id c) i (map_of r) (result_ttl c) l)"
proof -
  let ?p = "processing_key (instance_id c)"
  let ?s1 = "r_HSET R (job_key i) (enc_rec r) s" and ?l1 = "l_put i (m ++ map_of r) l"
  let ?s2 = "r_LREM1 R ?p i ?s1" and ?l2 = "l_drop_lease (instance_id c) i ?l1"
  have "r \<noteq> []" using assms(3,4) good_rec_not_Nil by (auto simp: good_rec_def)
  then have "sim R ?s1 ?l1"
    using sim_storable [OF assms(1,2)] assms(3,4) by (intro sim_HSET [OF assms(1,2)]) (auto intro: storable_merge)
  then have "sim R ?s2 ?l2" by (rule sim_LREM)
  then have "sim R (r_EXPIRE R (job_key i) (result_ttl c) ?s2) (l_expire i (result_ttl c) ?l2)"
    using assms(5) by (intro sim_EXPIRE) (auto simp: l_put_def l_drop_lease_def)
  then have "sim R (r_PUBLISH R (done_channel i) [] (r_EXPIRE R (job_key i) (result_ttl c) ?s2)) (l_expire i (result_ttl c) ?l2)"
    by (rule sim_PUBLISH)
  then show ?thesis
    using assms(2) sim_EXISTS [OF assms(1), of i]
    by (simp add: rb_save_def save_script_def l_finish_def pairs_flatten)
qed

lemma save_missing: "sim R s l \<Longrightarrow> l_rec l i = None \<Longrightarrow> rb_save R c i r fin s = (Inl (not_found i), s)"
  by (simp add: rb_save_def save_script_def sim_EXISTS)

lemma release_missing: "sim R s l \<Longrightarrow> l_rec l i = None \<Longrightarrow> rb_release R c i s = (Inl (not_found i), s)"
  by (simp add: rb_release_def release_script_def sim_EXISTS)

lemma release_refines:
  assumes "sim R s l" "l_rec l i = Some m"
  shows "\<exists>s'. rb_release R c i s = (Inr (), s') \<and> sim R s' (l_release (instance_id c) i l) \<and>
    (\<not> status_in m RUNNING \<longrightarrow> s' = s)"
proof (cases "status_in m RUNNING")
  case True
  note hset = sim_HSET_status [OF assms, of QUEUED]
  note lrem = sim_LREM [OF hset, of "instance_id c" i]
  from sim_RPUSH [OF lrem, of i] True assms show ?thesis
    by (simp add: rb_release_def release_script_def l_release_def sim_EXISTS sim_HGET_status)
next
  case False
  with assms show ?thesis
    by (simp add: rb_release_def release_script_def l_release_def sim_EXISTS sim_HGET_status)
qed

lemma is_terminal_refines:
  assumes "sim R s l" "l_rec l i = Some m"
  shows "rb_is_terminal R i s = Inr (terminal_in m)"
proof -
  obtain st where st: "status_in m st" using sim_storable [OF assms] by (rule storable_status)
  then have "r_HGET R (job_key i) ''status'' s = Some (status_value st)"
    using sim_HGET_status [OF assms] by simp
  then show ?thesis
    using st by (simp add: rb_is_terminal_def utf8_decode_status member_TERMINAL)
qed

lemma take_refines:
  assumes "sim R s l"
  shows "l_rec l i = None \<Longrightarrow> rb_take_result R i s = (Ready (Inl (not_found i)), s)"
    "l_rec l i = Some m \<Longrightarrow> \<not> terminal_in m \<Longrightarrow> rb_take_result R i s = (Pending, s)"
    "l_rec l i = Some m \<Longrightarrow> terminal_in m \<Longrightarrow>
       \<exists>r s'. rb_take_result R i s = (Ready (Inr r), s') \<and> map_of r = m \<and> sim R s' (l_free i l)"
proof -
  have "l_rec l i = None \<Longrightarrow> r_HGET R (job_key i) ''status'' s = None"
    using sim_HGETALL(1) [OF assms, of i] sim_inv [OF assms] by (simp add: r_HGET r_HGETALL)
  then show "l_rec l i = None \<Longrightarrow> rb_take_result R i s = (Ready (Inl (not_found i)), s)"
    by (simp add: rb_take_result_def rb_is_terminal_def)
  show "l_rec l i = Some m \<Longrightarrow> \<not> terminal_in m \<Longrightarrow> rb_take_result R i s = (Pending, s)"
    by (simp add: rb_take_result_def is_terminal_refines [OF assms])
  assume m: "l_rec l i = Some m" "terminal_in m"
  then obtain r where "r_HGETALL R (job_key i) s = enc_rec r" "good_rec r" "map_of r = m"
    using sim_HGETALL(2) [OF assms] by blast
  with m sim_DEL [OF assms, of i]
  show "\<exists>r s'. rb_take_result R i s = (Ready (Inr r), s') \<and> map_of r = m \<and> sim R s' (l_free i l)"
    by (simp add: rb_take_result_def is_terminal_refines [OF assms] rb_fetch_def rb_decode_enc
        good_rec_not_Nil)
qed

lemma cancel_script_refines:
  assumes "sim R s l"
  shows "sim R (snd (request_cancel_script R (job_key i) ch s)) (l_cancel i l) \<and>
    ((\<forall>m. l_rec l i = Some m \<longrightarrow> terminal_in m) \<longrightarrow> snd (request_cancel_script R (job_key i) ch s) = s)"
proof (cases "l_rec l i")
  case None
  with assms show ?thesis by (simp add: request_cancel_script_def sim_EXISTS l_cancel_def)
next
  case (Some m)
  obtain st where st: "status_in m st" using sim_storable [OF assms Some] by (rule storable_status)
  then have h: "r_HGET R (job_key i) ''status'' s = Some (status_value st)"
    using sim_HGET_status [OF assms Some] by simp
  show ?thesis
  proof (cases "terminal st")
    case True
    then have "l_cancel i l = l" using Some st by (simp add: l_cancel_def flagged_def l_put_def fun_upd_idem)
    with True Some assms h show ?thesis
      by (simp add: request_cancel_script_def sim_EXISTS member_TERMINAL)
  next
    case False
    have "sim R (r_HSET R (job_key i) [(''request_cancel'', ''1'')] s) (l_put i (m(''request_cancel'' \<mapsto> Str ''1'')) l)"
      using sim_storable [OF assms Some] storable_set_cancel [of m True]
      by (intro sim_HSET_field [OF assms Some]) simp_all
    from sim_PUBLISH [OF this, of ch "[]"] False Some st h show ?thesis
      by (simp add: request_cancel_script_def sim_EXISTS [OF assms] member_TERMINAL l_cancel_def flagged_def)
  qed
qed

lemma heartbeat_refines: "\<exists>s'. rb_heartbeat R c s = (Inr (), s') \<and> sim R s' (l_beat (instance_id c) l)"
  if "sim R s l"
proof -
  have "map_of (AList.update w (clock (r_view R s)) (zset_at (r_view R s) WORKERS)) = (l_beats l)(w \<mapsto> l_now l)" for w
    using sim_reads(4,5) [OF that] by simp
  then show ?thesis
    using sim_inv [OF that] sim_abs [OF that]
    by (simp add: rb_heartbeat_def heartbeat_script_def sim_def r_ZADD r_TIME l_beat_def)
qed

lemma deregister_refines:
  assumes "sim R s l"
  shows "\<exists>s'. rb_deregister R c s = (Inr (), s') \<and> sim R s' (l_deregister (instance_id c) l)"
proof -
  let ?w = "instance_id c"
  obtain s' where s': "r_ZREM R WORKERS ?w s = (of_bool (map_of (zset_at (r_view R s) WORKERS) ?w \<noteq> None), s')"
    "r_view R s' = put_zset WORKERS (AList.delete ?w (zset_at (r_view R s) WORKERS)) (r_view R s)"
    using r_ZREM [of s WORKERS ?w] sim_inv [OF assms] by auto
  have "sim R s' (l\<lparr>l_beats := (l_beats l)(?w := None)\<rparr>)"
    unfolding sim_def s'(2) using sim_inv [OF assms] sim_reads(4) [OF assms]
    by (simp add: sim_abs [OF assms] delete_conv')
  with s' assms show ?thesis
    using sim_inv [OF assms] sim_reads(3) [OF assms, of ?w]
    by (auto simp: rb_deregister_def deregister_script_def l_deregister_def r_LLEN)
qed

end

section \<open>The reaper\<close>

lemma l_reap_id_frame [simp]:
  "l_leases (l_reap_id i l) = l_leases l" "l_beats (l_reap_id i l) = l_beats l" "l_now (l_reap_id i l) = l_now l"
  "l_ttl (l_reap_id i l) = l_ttl l"
  "l_reap_id i (l\<lparr>l_leases := f\<rparr>) = (l_reap_id i l)\<lparr>l_leases := f\<rparr>"
  "l_reap_id i (l\<lparr>l_beats := b\<rparr>) = (l_reap_id i l)\<lparr>l_beats := b\<rparr>"
  by (simp_all add: l_reap_id_def l_push_def l_put_def split: option.splits)

lemma fold_reap_frame [simp]:
  "l_leases (fold l_reap_id xs l) = l_leases l" "l_beats (fold l_reap_id xs l) = l_beats l"
  "l_now (fold l_reap_id xs l) = l_now l" "l_ttl (fold l_reap_id xs l) = l_ttl l"
  "fold l_reap_id xs (l\<lparr>l_leases := f\<rparr>) = (fold l_reap_id xs l)\<lparr>l_leases := f\<rparr>"
  by (induction xs arbitrary: l) simp_all

lemma requeued_idem [simp]: "requeued (requeued m) = requeued m"
  by (simp add: requeued_def)

lemma l_reap_id_rec: "l_rec (l_reap_id i l) = (l_rec l)(i := map_option requeued (l_rec l i))"
  by (auto simp: l_reap_id_def l_push_def l_put_def fun_eq_iff split: option.splits)

text \<open>Which ids a list of leases returns to the queue: those whose record still exists.\<close>

definition known_ids :: "lstate \<Rightarrow> string list \<Rightarrow> string list" where
  "known_ids l xs = filter (\<lambda>i. l_rec l i \<noteq> None) xs"

lemma fold_reap_rec:
  "l_rec (fold l_reap_id xs l) = (\<lambda>i. if i \<in> set xs then map_option requeued (l_rec l i) else l_rec l i)"
  by (induction xs arbitrary: l) (auto simp: l_reap_id_rec fun_eq_iff option.map_comp comp_def)

lemma known_ids_simps [simp]:
  "known_ids l [] = []" "known_ids l (xs @ ys) = known_ids l xs @ known_ids l ys"
  "known_ids l (i # xs) = (if l_rec l i = None then [] else [i]) @ known_ids l xs"
  by (auto simp: known_ids_def)

lemma known_ids_cong: "(\<And>i. l_rec l i = None \<longleftrightarrow> l_rec l' i = None) \<Longrightarrow> known_ids l xs = known_ids l' xs"
  by (induction xs) auto

lemma known_ids_reap_id [simp]: "known_ids (l_reap_id i l) xs = known_ids l xs"
  by (rule known_ids_cong) (simp add: l_reap_id_rec)

lemma fold_reap_queue: "l_queue (fold l_reap_id xs l) = l_queue l @ known_ids l xs"
proof (induction xs arbitrary: l)
  case (Cons i xs)
  have "l_queue (l_reap_id i l) = l_queue l @ (if l_rec l i \<noteq> None then [i] else [])"
    by (auto simp: l_reap_id_def l_push_def l_put_def split: option.splits)
  with Cons show ?case by simp
qed simp

lemma l_reap_worker_simps [simp]:
  "l_leases (l_reap_worker w l) = (l_leases l)(w := [])"
  "l_beats (l_reap_worker w l) = (l_beats l)(w := None)" "l_now (l_reap_worker w l) = l_now l"
  "l_ttl (l_reap_worker w l) = l_ttl l"
  "l_queue (l_reap_worker w l) = l_queue l @ known_ids l (l_leases l w)"
  "l_rec (l_reap_worker w l) =
     (\<lambda>i. if i \<in> set (l_leases l w) then map_option requeued (l_rec l i) else l_rec l i)"
  by (simp_all add: l_reap_worker_def fold_reap_queue fold_reap_rec)

lemma known_ids_reap_worker [simp]: "known_ids (l_reap_worker w l) xs = known_ids l xs"
  by (rule known_ids_cong) simp

text \<open>Reaping several workers: their leases are emptied, in order, into the queue.\<close>

definition reaped_ids :: "lstate \<Rightarrow> string list \<Rightarrow> string list" where
  "reaped_ids l ws = concat (map (\<lambda>w. l_leases l w) ws)"

lemma fold_reap_workers_all:
  "distinct ws \<Longrightarrow>
   l_leases (fold l_reap_worker ws l) = (\<lambda>w. if w \<in> set ws then [] else l_leases l w) \<and>
   l_beats (fold l_reap_worker ws l) = (\<lambda>w. if w \<in> set ws then None else l_beats l w) \<and>
   l_now (fold l_reap_worker ws l) = l_now l \<and>
   l_queue (fold l_reap_worker ws l) = l_queue l @ known_ids l (reaped_ids l ws) \<and>
   l_rec (fold l_reap_worker ws l) =
     (\<lambda>i. if i \<in> set (reaped_ids l ws) then map_option requeued (l_rec l i) else l_rec l i)"
proof (induction ws arbitrary: l)
  case (Cons w ws)
  from Cons.prems have d: "distinct ws" "w \<notin> set ws" by auto
  have others: "reaped_ids (l_reap_worker w l) ws = reaped_ids l ws"
    using d(2) unfolding reaped_ids_def by (intro arg_cong [of _ _ concat] map_cong) auto
  have split: "reaped_ids l (w # ws) = l_leases l w @ reaped_ids l ws" by (simp add: reaped_ids_def)
  note IH = Cons.IH [where l = "l_reap_worker w l", OF d(1), unfolded others]
  show ?case
  proof (intro conjI)
    show "l_leases (fold l_reap_worker (w # ws) l) = (\<lambda>u. if u \<in> set (w # ws) then [] else l_leases l u)"
      using IH d(2) by (auto simp: fun_eq_iff)
    show "l_beats (fold l_reap_worker (w # ws) l) = (\<lambda>u. if u \<in> set (w # ws) then None else l_beats l u)"
      using IH d(2) by (auto simp: fun_eq_iff)
    show "l_rec (fold l_reap_worker (w # ws) l) =
      (\<lambda>i. if i \<in> set (reaped_ids l (w # ws)) then map_option requeued (l_rec l i) else l_rec l i)"
      using IH by (auto simp: split fun_eq_iff option.map_comp comp_def)
  qed (use IH in \<open>simp_all add: split\<close>)
qed (simp add: reaped_ids_def)

lemma fold_reap_workers_ttl [simp]: "l_ttl (fold l_reap_worker ws l) = l_ttl l"
  by (induction ws arbitrary: l) simp_all

lemmas fold_reap_workers =
  fold_reap_workers_all [THEN conjunct1]
  fold_reap_workers_all [THEN conjunct2, THEN conjunct1]
  fold_reap_workers_all [THEN conjunct2, THEN conjunct2, THEN conjunct1]
  fold_reap_workers_all [THEN conjunct2, THEN conjunct2, THEN conjunct2, THEN conjunct1]
  fold_reap_workers_all [THEN conjunct2, THEN conjunct2, THEN conjunct2, THEN conjunct2]

lemma reap_one_job_key:
  "reap_one R QUEUE queued running ''jobs:'' i s =
     (if r_EXISTS R (job_key i) s
      then (True, r_RPUSH R QUEUE i
        (if r_HGET R (job_key i) ''status'' s = Some running
         then r_HSET R (job_key i) [(''status'', queued)] s else s))
      else (False, s))"
  by (simp add: reap_one_def job_key_def Let_def)

context redis_server
begin

lemma reap_one_refines:
  assumes "sim R s l"
  shows "\<exists>s'. reap_one R QUEUE (status_value QUEUED) (status_value RUNNING) ''jobs:'' i s = (l_rec l i \<noteq> None, s') \<and>
    sim R s' (l_reap_id i l)"
proof (cases "l_rec l i")
  case None
  with assms show ?thesis
    by (simp add: reap_one_job_key sim_EXISTS l_reap_id_def)
next
  case (Some m)
  have "l_put i m l = l" using Some by (simp add: l_put_def fun_upd_idem)
  with Some sim_RPUSH [OF sim_HSET_status [OF assms Some, of QUEUED], of i] sim_RPUSH [OF assms, of i]
  show ?thesis
    by (simp add: reap_one_job_key sim_EXISTS [OF assms] sim_HGET_status [OF assms Some]
        l_reap_id_def requeued_def)
qed

lemma sim_LPOP:
  assumes "sim R s l"
  shows "l_leases l w = [] \<Longrightarrow> r_LPOP R (processing_key w) s = (None, s)"
    "l_leases l w = i # q \<Longrightarrow> \<exists>s'. r_LPOP R (processing_key w) s = (Some i, s') \<and>
       sim R s' (l\<lparr>l_leases := (l_leases l)(w := q)\<rparr>)"
proof -
  note inv = sim_inv [OF assms] and reads = sim_reads(3) [OF assms, of w]
  show "l_leases l w = [] \<Longrightarrow> r_LPOP R (processing_key w) s = (None, s)"
    using inv reads by (simp add: r_LPOP_nil)
  assume "l_leases l w = i # q"
  then obtain s' where "r_LPOP R (processing_key w) s = (Some i, s')"
    "r_view R s' = put_list (processing_key w) q (r_view R s)"
    using inv reads r_LPOP_cons [of s "processing_key w" i q] by auto
  with inv show "\<exists>s'. r_LPOP R (processing_key w) s = (Some i, s') \<and>
       sim R s' (l\<lparr>l_leases := (l_leases l)(w := q)\<rparr>)"
    by (simp add: sim_def sim_abs [OF assms])
qed

text \<open>The inner loop ends, with every lease of the worker popped.\<close>

lemma reap_drain_refines:
  assumes "sim R s l"
  shows "\<exists>d s'. reap_drain R (processing_key w) QUEUE (status_value QUEUED) (status_value RUNNING) ''jobs:'' rc dr s
      = Some (rc + int (length (known_ids l (l_leases l w))), d, s') \<and>
    sim R s' ((fold l_reap_id (l_leases l w) l)\<lparr>l_leases := (l_leases l)(w := [])\<rparr>)"
  using assms
proof (induction "l_leases l w" arbitrary: s l rc dr)
  case Nil
  then have "l\<lparr>l_leases := (l_leases l)(w := [])\<rparr> = l" by (simp add: fun_upd_idem)
  with Nil sim_LPOP(1) [OF Nil(2), of w] show ?case
    by (subst reap_drain.simps) (simp flip: Nil(1))
next
  case (Cons i q)
  let ?l1 = "l\<lparr>l_leases := (l_leases l)(w := q)\<rparr>"
  obtain s1 where s1: "r_LPOP R (processing_key w) s = (Some i, s1)" "sim R s1 ?l1"
    using sim_LPOP(2) [OF Cons.prems] Cons.hyps(2) by metis
  obtain s2 where s2: "reap_one R QUEUE (status_value QUEUED) (status_value RUNNING) ''jobs:'' i s1 = (l_rec l i \<noteq> None, s2)"
    "sim R s2 (l_reap_id i ?l1)"
    using reap_one_refines [OF s1(2), of i] by auto
  have q: "q = l_leases (l_reap_id i ?l1) w" by simp
  have k: "known_ids (l_reap_id i ?l1) q = known_ids l q"
    by (rule known_ids_cong) (simp add: l_reap_id_rec)
  have l': "(fold l_reap_id (l_leases (l_reap_id i ?l1) w) (l_reap_id i ?l1))\<lparr>l_leases := (l_leases (l_reap_id i ?l1))(w := [])\<rparr>
    = (fold l_reap_id (l_leases l w) l)\<lparr>l_leases := (l_leases l)(w := [])\<rparr>"
    by (simp flip: Cons.hyps(2))
  note IH = Cons.hyps(1) [OF q s2(2), unfolded l', folded q, unfolded k]
  show ?case
  proof (cases "l_rec l i = None")
    case True
    with IH [of rc "dr + 1"] s1 s2 show ?thesis
      by (subst reap_drain.simps) (simp flip: Cons.hyps(2))
  next
    case False
    then obtain m where "l_rec l i = Some m" by blast
    with IH [of "rc + 1" dr] s1 s2 show ?thesis
      by (subst reap_drain.simps) (simp add: ac_simps flip: Cons.hyps(2))
  qed
qed

lemma reap_worker_refines:
  assumes "sim R s l"
  shows "\<exists>d s'. reap_drain R (''processing:'' @ w) QUEUE (status_value QUEUED) (status_value RUNNING) ''jobs:'' rc dr s
      = Some (rc + int (length (known_ids l (l_leases l w))), d, s') \<and>
    sim R (snd (r_ZREM R WORKERS w s')) (l_reap_worker w l)"
proof -
  obtain d s' where s': "reap_drain R (processing_key w) QUEUE (status_value QUEUED) (status_value RUNNING) ''jobs:'' rc dr s
      = Some (rc + int (length (known_ids l (l_leases l w))), d, s')"
    "sim R s' ((fold l_reap_id (l_leases l w) l)\<lparr>l_leases := (l_leases l)(w := [])\<rparr>)"
    using reap_drain_refines [OF assms] by blast
  let ?l = "(fold l_reap_id (l_leases l w) l)\<lparr>l_leases := (l_leases l)(w := [])\<rparr>"
  from r_ZREM [of s' WORKERS w] sim_inv [OF s'(2)] obtain s'' where
    z: "r_ZREM R WORKERS w s' = (of_bool (map_of (zset_at (r_view R s') WORKERS) w \<noteq> None), s'')"
      "r_view R s'' = put_zset WORKERS (AList.delete w (zset_at (r_view R s') WORKERS)) (r_view R s')"
    by auto
  have "sim R s'' (?l\<lparr>l_beats := (l_beats l)(w := None)\<rparr>)"
    unfolding sim_def z(2) using sim_inv [OF s'(2)] sim_reads(4) [OF s'(2)]
    by (simp add: sim_abs [OF s'(2)] delete_conv')
  with s'(1) z(1) show ?thesis by (auto simp: processing_key_def l_reap_worker_def)
qed

lemma reap_workers_refines:
  assumes "sim R s l" "distinct ws"
  shows "\<exists>d s'. reap_workers R WORKERS QUEUE (status_value QUEUED) (status_value RUNNING) ''processing:'' ''jobs:'' ws rc dr s
      = Some (rc + int (length (known_ids l (reaped_ids l ws))), d, s') \<and>
    sim R s' (fold l_reap_worker ws l)"
  using assms
proof (induction ws arbitrary: s l rc dr)
  case Nil
  then show ?case by (auto simp: reaped_ids_def)
next
  case (Cons w ws)
  obtain d s1 where s1: "reap_drain R (''processing:'' @ w) QUEUE (status_value QUEUED) (status_value RUNNING) ''jobs:'' rc dr s
      = Some (rc + int (length (known_ids l (l_leases l w))), d, s1)"
    "sim R (snd (r_ZREM R WORKERS w s1)) (l_reap_worker w l)"
    using reap_worker_refines [OF Cons.prems(1)] by blast
  have d: "distinct ws" "w \<notin> set ws" using Cons.prems(2) by auto
  have "reaped_ids (l_reap_worker w l) ws = reaped_ids l ws"
    using d(2) unfolding reaped_ids_def by (intro arg_cong [of _ _ concat] map_cong) auto
  with Cons.IH [OF s1(2) d(1), of "rc + int (length (known_ids l (l_leases l w)))" d] s1(1) show ?case
    by (auto simp: reaped_ids_def add.assoc)
qed

text \<open>A reap returns, drains exactly the expired workers and counts what it put back.\<close>

lemma reap_refines:
  assumes "sim R s l"
  shows "\<exists>ws s'. rb_reap R c s = Some (Inr (int (length (known_ids l (reaped_ids l ws)))), s') \<and>
    distinct ws \<and> set ws = {w. l_expired (worker_ttl c) l w} \<and> sim R s' (fold l_reap_worker ws l)"
proof -
  let ?ws = "r_ZRANGEBYSCORE R WORKERS (clock (r_view R s) - worker_ttl c) s"
  have z: "holds_zset (r_view R s) WORKERS" using sim_inv [OF assms] by simp
  have "set ?ws = {w. l_expired (worker_ttl c) l w}"
    using r_ZRANGEBYSCORE_set [OF z] sim_reads(4,5) [OF assms]
    by (auto simp: l_expired_def split: option.splits)
  moreover note d = r_ZRANGEBYSCORE_distinct [OF z, of "clock (r_view R s) - worker_ttl c"]
  moreover obtain dr s' where "reap_workers R WORKERS QUEUE (status_value QUEUED) (status_value RUNNING)
      ''processing:'' ''jobs:'' ?ws 0 0 s = Some (int (length (known_ids l (reaped_ids l ?ws))), dr, s')"
    "sim R s' (fold l_reap_worker ?ws l)"
    using reap_workers_refines [OF assms d, of 0 0] by auto
  ultimately show ?thesis by (auto simp: rb_reap_def reaper_script_def r_TIME)
qed

end

end
