(* ===== verification/Redis_Contract.thy ===== *)
theory Redis_Contract
  imports Lease_Refinement
begin

text \<open>
  The Redis store against the \<open>Backend\<close> protocol: the laws of \<open>backend_contract\<close>
  follow from the refinement to the lease state, for every server with the documented commands
  and every backend object that the constructor accepts.
\<close>

section \<open>The Redis store meets the backend contract\<close>

definition rb_valid :: "'s redis \<Rightarrow> 's \<Rightarrow> bool" where
  "rb_valid R s \<longleftrightarrow> rb_inv (r_view R s)"

definition rb_records :: "'s redis \<Rightarrow> 's \<Rightarrow> string \<Rightarrow> rec_view option" where
  "rb_records R s = l_rec (lease_abs (r_view R s))"

definition rb_waiting :: "'s redis \<Rightarrow> 's \<Rightarrow> string list" where
  "rb_waiting R s = l_queue (lease_abs (r_view R s))"

lemma rb_valid_sim: "rb_valid R s \<longleftrightarrow> sim R s (lease_abs (r_view R s))"
  by (simp add: rb_valid_def sim_def)

lemma sim_observed: "sim R s l \<Longrightarrow> rb_valid R s \<and> rb_records R s = l_rec l \<and> rb_waiting R s = l_queue l"
  by (auto simp: rb_valid_def rb_records_def rb_waiting_def sim_def)

locale redis_backend = redis_server R for R :: "'s redis" +
  fixes c :: rb
  assumes ttl_positive: "0 < result_ttl c"
begin

lemma valid_sim:
  assumes "rb_valid R s"
  obtains l where "sim R s l" "rb_records R s = l_rec l" "rb_waiting R s = l_queue l"
  using assms sim_observed by (metis rb_valid_sim)

text \<open>\<open>claim\<close> with no fault: lease, mark, decode.\<close>

lemma claim_refines:
  assumes "sim R s l" "l_queue l = i # q" "l_rec l i = Some m"
    "m ''attempts'' = Some (Str (str_of_int n))" "n < max_attempts"
  shows "\<exists>r s'. rb_claim R c s = (Inr (Some r), s') \<and>
    map_of r = (set_status RUNNING m)(''attempts'' \<mapsto> Str (str_of_int (n + 1))) \<and>
    sim R s' (l_mark i (n + 1) (l_lease (instance_id c) l))"
proof -
  obtain s1 where s1: "rb_lease R c s = (Inr (Some i), s1)" "sim R s1 (l_lease (instance_id c) l)"
    using lease_refines [OF assms(1)] assms(2) by force
  have m: "l_rec (l_lease (instance_id c) l) i = Some m" using assms(2,3) by (simp add: l_lease_def)
  obtain r s2 where s2: "rb_mark R i s1 = (Inr (Some (flat_reply (enc_rec r))), s2)" "good_rec r"
    "map_of r = (set_status RUNNING m)(''attempts'' \<mapsto> Str (str_of_int (n + 1)))"
    "sim R s2 (l_mark i (n + 1) (l_lease (instance_id c) l))"
    using mark_refines [OF s1(2) m assms(4,5)] by blast
  then show ?thesis
    using s1 by (auto simp: rb_claim_def rb_claim_faulty_def round_trip_def pairs_flat_reply rb_decode_enc
        good_rec_not_Nil)
qed

lemma claim_missing:
  assumes "sim R s l" "l_queue l = i # q" "l_rec l i = None"
  shows "\<exists>s'. rb_claim R c s = (Inr None, s') \<and>
    sim R s' (l_drop_lease (instance_id c) i (l_lease (instance_id c) l))"
proof -
  obtain s1 where s1: "rb_lease R c s = (Inr (Some i), s1)" "sim R s1 (l_lease (instance_id c) l)"
    using lease_refines [OF assms(1)] assms(2) by force
  have "l_rec (l_lease (instance_id c) l) i = None" using assms(2,3) by (simp add: l_lease_def)
  with s1 discard_refines [OF s1(2), of c i] show ?thesis
    by (simp add: rb_claim_def rb_claim_faulty_def round_trip_def mark_missing)
qed

lemma get_job_refines:
  assumes "sim R s l"
  shows "l_rec l i = None \<Longrightarrow> rb_get_job R i s = Inl (not_found i)"
    "l_rec l i = Some m \<Longrightarrow> \<exists>r. rb_get_job R i s = Inr r \<and> map_of r = m"
  using sim_HGETALL [OF assms, of i] by (auto simp: rb_get_job_def rb_decode_enc good_rec_not_Nil)

lemma wait_cancel_refines:
  assumes "sim R s l"
  shows "l_rec l i = None \<Longrightarrow> rb_wait_cancel R i s = Ready (Inl (not_found i))"
    "l_rec l i = Some m \<Longrightarrow> rb_wait_cancel R i s =
       (if m ''request_cancel'' = Some (Str ''1'') then Ready (Inr ()) else Pending)"
proof -
  have "l_rec l i = None \<Longrightarrow> r_HGET R (job_key i) ''request_cancel'' s = None"
    using sim_HGETALL(1) [OF assms, of i] sim_inv [OF assms] by (simp add: r_HGET r_HGETALL)
  then show "l_rec l i = None \<Longrightarrow> rb_wait_cancel R i s = Ready (Inl (not_found i))"
    by (simp add: rb_wait_cancel_def)
  assume m: "l_rec l i = Some m"
  then obtain b where b: "m ''request_cancel'' = Some (Str (str_of_int (of_bool b)))"
    using sim_storable [OF assms m] by (auto simp: storable_def)
  then have "r_HGET R (job_key i) ''request_cancel'' s = Some (str_of_int (of_bool b))"
    using sim_HGET [OF assms m, of "''request_cancel''"] by simp
  with b show "rb_wait_cancel R i s =
       (if m ''request_cancel'' = Some (Str ''1'') then Ready (Inr ()) else Pending)"
    using py_int_str_of_int [of 0] py_int_str_of_int [of 1] by (cases b) (simp_all add: rb_wait_cancel_def)
qed

lemma reap_requeues_refines:
  assumes "sim R s l"
  shows "\<exists>s' n ids. rb_reap R c s = Some (Inr n, s') \<and> rb_valid R s' \<and> rb_waiting R s' = l_queue l @ ids \<and>
    (\<forall>i. i \<notin> set ids \<longrightarrow> rb_records R s' i = l_rec l i) \<and>
    (\<forall>i \<in> set ids. \<exists>m. l_rec l i = Some m \<and> rb_records R s' i = Some (requeued m)) \<and> n = int (length ids)"
proof -
  obtain ws s' where s': "rb_reap R c s = Some (Inr (int (length (known_ids l (reaped_ids l ws)))), s')"
    "distinct ws" "sim R s' (fold l_reap_worker ws l)"
    using reap_refines [OF assms] by blast
  note obs = sim_observed [OF s'(3)] fold_reap_workers [OF s'(2), of l]
  let ?ids = "known_ids l (reaped_ids l ws)"
  have ids: "i \<in> set ?ids \<longleftrightarrow> i \<in> set (reaped_ids l ws) \<and> l_rec l i \<noteq> None" for i
    by (auto simp: known_ids_def)
  have "rb_waiting R s' = l_queue l @ ?ids" using obs by simp
  moreover have "\<forall>i. i \<notin> set ?ids \<longrightarrow> rb_records R s' i = l_rec l i" using obs ids by (auto split: option.splits)
  moreover have "\<forall>i \<in> set ?ids. \<exists>m. l_rec l i = Some m \<and> rb_records R s' i = Some (requeued m)"
    using obs ids by auto
  ultimately show ?thesis using s'(1) obs by blast
qed

lemma enqueue_laws:
  assumes "rb_valid R s"
  shows "rb_records R s i \<noteq> None \<Longrightarrow> rb_enqueue R c i r s = (Inr (), s)"
    "rb_records R s i = None \<Longrightarrow> is_dict r \<Longrightarrow> storable (map_of r) \<Longrightarrow>
      \<exists>s'. rb_enqueue R c i r s = (Inr (), s') \<and> rb_valid R s' \<and>
        rb_records R s' = (rb_records R s)(i \<mapsto> set_status QUEUED (map_of r)) \<and>
        rb_waiting R s' = rb_waiting R s @ [i]"
proof -
  obtain l where l: "sim R s l" "rb_records R s = l_rec l" "rb_waiting R s = l_queue l"
    by (rule valid_sim [OF assms])
  show "rb_records R s i \<noteq> None \<Longrightarrow> rb_enqueue R c i r s = (Inr (), s)"
    using enqueue_known_refines [OF l(1)] l(2) by simp
  assume a: "rb_records R s i = None" "is_dict r" "storable (map_of r)"
  obtain s' where s': "rb_enqueue R c i r s = (Inr (), s')" "sim R s' (l_enqueue i (map_of r) l)"
    using enqueue_refines [OF l(1) a(2,3)] by blast
  from sim_observed [OF s'(2)] s'(1) a(1) l show "\<exists>s'. rb_enqueue R c i r s = (Inr (), s') \<and> rb_valid R s' \<and>
        rb_records R s' = (rb_records R s)(i \<mapsto> set_status QUEUED (map_of r)) \<and>
        rb_waiting R s' = rb_waiting R s @ [i]"
    by (simp add: l_enqueue_def)
qed

lemma claim_laws:
  assumes "rb_valid R s"
  shows "rb_waiting R s = [] \<Longrightarrow> rb_claim R c s = (Inr None, s)"
    "rb_waiting R s = i # q \<Longrightarrow> rb_records R s i = Some m \<Longrightarrow>
      m ''attempts'' = Some (Str (str_of_int n)) \<Longrightarrow> n < max_attempts \<Longrightarrow>
      \<exists>r s'. rb_claim R c s = (Inr (Some r), s') \<and> rb_valid R s' \<and>
        map_of r = (set_status RUNNING m)(''attempts'' \<mapsto> Str (str_of_int (n + 1))) \<and>
        rb_records R s' = (rb_records R s)(i \<mapsto> map_of r) \<and> rb_waiting R s' = q"
proof -
  obtain l where l: "sim R s l" "rb_records R s = l_rec l" "rb_waiting R s = l_queue l"
    by (rule valid_sim [OF assms])
  show "rb_waiting R s = [] \<Longrightarrow> rb_claim R c s = (Inr None, s)"
    using lease_refines [OF l(1), of c] l(3) by (auto simp: rb_claim_def rb_claim_faulty_def round_trip_def)
  assume a: "rb_waiting R s = i # q" "rb_records R s i = Some m"
    "m ''attempts'' = Some (Str (str_of_int n))" "n < max_attempts"
  obtain r s' where s': "rb_claim R c s = (Inr (Some r), s')"
    "map_of r = (set_status RUNNING m)(''attempts'' \<mapsto> Str (str_of_int (n + 1)))"
    "sim R s' (l_mark i (n + 1) (l_lease (instance_id c) l))"
    using claim_refines [OF l(1)] a l by metis
  from sim_observed [OF s'(3)] s'(1,2) a l show "\<exists>r s'. rb_claim R c s = (Inr (Some r), s') \<and> rb_valid R s' \<and>
        map_of r = (set_status RUNNING m)(''attempts'' \<mapsto> Str (str_of_int (n + 1))) \<and>
        rb_records R s' = (rb_records R s)(i \<mapsto> map_of r) \<and> rb_waiting R s' = q"
    by (simp add: l_mark_def l_lease_def)
qed

lemma read_laws:
  assumes "rb_valid R s"
  shows "rb_records R s i = None \<Longrightarrow> rb_get_job R i s = Inl (not_found i)"
    "rb_records R s i = Some m \<Longrightarrow> \<exists>r. rb_get_job R i s = Inr r \<and> map_of r = m"
    "rb_records R s i = None \<Longrightarrow> rb_wait_cancel R i s = Ready (Inl (not_found i))"
    "rb_records R s i = Some m \<Longrightarrow> rb_wait_cancel R i s =
       (if m ''request_cancel'' = Some (Str ''1'') then Ready (Inr ()) else Pending)"
    "rb_records R s i = Some m \<Longrightarrow> storable m"
  by (rule valid_sim [OF assms]; simp add: get_job_refines wait_cancel_refines sim_storable)+

lemma save_laws:
  assumes "rb_valid R s"
  shows "rb_records R s i = None \<Longrightarrow> rb_save R c i r fin s = (Inl (not_found i), s)"
    "rb_records R s i = Some m \<Longrightarrow> is_dict r \<Longrightarrow> storable (map_of r) \<Longrightarrow>
      \<exists>s'. rb_save R c i r True s = (Inr (), s') \<and> rb_valid R s' \<and>
        rb_records R s' = (rb_records R s)(i \<mapsto> m ++ map_of r) \<and> rb_waiting R s' = rb_waiting R s"
proof -
  obtain l where l: "sim R s l" "rb_records R s = l_rec l" "rb_waiting R s = l_queue l"
    by (rule valid_sim [OF assms])
  show "rb_records R s i = None \<Longrightarrow> rb_save R c i r fin s = (Inl (not_found i), s)"
    using save_missing [OF l(1)] l(2) by simp
  assume a: "rb_records R s i = Some m" "is_dict r" "storable (map_of r)"
  obtain s' where s': "rb_save R c i r True s = (Inr (), s')" "sim R s' (l_finish (instance_id c) i (map_of r) (result_ttl c) l)"
    using finish_refines [OF l(1)] a l ttl_positive by metis
  from sim_observed [OF s'(2)] s'(1) a l show "\<exists>s'. rb_save R c i r True s = (Inr (), s') \<and> rb_valid R s' \<and>
        rb_records R s' = (rb_records R s)(i \<mapsto> m ++ map_of r) \<and> rb_waiting R s' = rb_waiting R s"
    by (simp add: l_finish_def l_drop_lease_def l_put_def l_expire_def)
qed

lemma release_laws:
  assumes "rb_valid R s"
  shows "rb_records R s i = None \<Longrightarrow> rb_release R c i s = (Inl (not_found i), s)"
    "rb_records R s i = Some m \<Longrightarrow> \<not> status_in m RUNNING \<Longrightarrow> rb_release R c i s = (Inr (), s)"
    "rb_records R s i = Some m \<Longrightarrow> status_in m RUNNING \<Longrightarrow>
      \<exists>s'. rb_release R c i s = (Inr (), s') \<and> rb_valid R s' \<and>
        rb_records R s' = (rb_records R s)(i \<mapsto> set_status QUEUED m) \<and> rb_waiting R s' = rb_waiting R s @ [i]"
proof -
  obtain l where l: "sim R s l" "rb_records R s = l_rec l" "rb_waiting R s = l_queue l"
    by (rule valid_sim [OF assms])
  show "rb_records R s i = None \<Longrightarrow> rb_release R c i s = (Inl (not_found i), s)"
    using release_missing [OF l(1)] l(2) by simp
  show "rb_records R s i = Some m \<Longrightarrow> \<not> status_in m RUNNING \<Longrightarrow> rb_release R c i s = (Inr (), s)"
    using release_refines [OF l(1), of i m c] l(2) by auto
  assume a: "rb_records R s i = Some m" "status_in m RUNNING"
  obtain s' where s': "rb_release R c i s = (Inr (), s')" "sim R s' (l_release (instance_id c) i l)"
    using release_refines [OF l(1), of i m c] a l by auto
  from sim_observed [OF s'(2)] s'(1) a l show "\<exists>s'. rb_release R c i s = (Inr (), s') \<and> rb_valid R s' \<and>
        rb_records R s' = (rb_records R s)(i \<mapsto> set_status QUEUED m) \<and> rb_waiting R s' = rb_waiting R s @ [i]"
    by (simp add: l_release_def l_push_def l_drop_lease_def l_put_def)
qed

lemma take_laws:
  assumes "rb_valid R s"
  shows "rb_records R s i = None \<Longrightarrow> rb_take_result R i s = (Ready (Inl (not_found i)), s)"
    "rb_records R s i = Some m \<Longrightarrow> \<not> terminal_in m \<Longrightarrow> rb_take_result R i s = (Pending, s)"
    "rb_records R s i = Some m \<Longrightarrow> terminal_in m \<Longrightarrow>
      \<exists>r s'. rb_take_result R i s = (Ready (Inr r), s') \<and> rb_valid R s' \<and> map_of r = m \<and>
        rb_records R s' = (rb_records R s)(i := None) \<and> rb_waiting R s' = rb_waiting R s"
proof -
  obtain l where l: "sim R s l" "rb_records R s = l_rec l" "rb_waiting R s = l_queue l"
    by (rule valid_sim [OF assms])
  show "rb_records R s i = None \<Longrightarrow> rb_take_result R i s = (Ready (Inl (not_found i)), s)"
    "rb_records R s i = Some m \<Longrightarrow> \<not> terminal_in m \<Longrightarrow> rb_take_result R i s = (Pending, s)"
    using take_refines(1,2) [OF l(1)] l(2) by simp_all
  assume a: "rb_records R s i = Some m" "terminal_in m"
  then obtain r s' where s': "rb_take_result R i s = (Ready (Inr r), s')" "map_of r = m" "sim R s' (l_free i l)"
    using take_refines(3) [OF l(1)] l(2) by metis
  from sim_observed [OF s'(3)] s'(1,2) l
  show "\<exists>r s'. rb_take_result R i s = (Ready (Inr r), s') \<and> rb_valid R s' \<and> map_of r = m \<and>
        rb_records R s' = (rb_records R s)(i := None) \<and> rb_waiting R s' = rb_waiting R s"
    by (simp add: l_free_def)
qed

lemma cancel_laws:
  assumes "rb_valid R s"
  shows "rb_records R s i = None \<Longrightarrow> rb_request_cancel R i s = (Inr (), s)"
    "rb_records R s i = Some m \<Longrightarrow> terminal_in m \<Longrightarrow> rb_request_cancel R i s = (Inr (), s)"
    "rb_records R s i = Some m \<Longrightarrow> \<not> terminal_in m \<Longrightarrow>
      \<exists>s'. rb_request_cancel R i s = (Inr (), s') \<and> rb_valid R s' \<and>
        rb_records R s' = (rb_records R s)(i \<mapsto> m(''request_cancel'' \<mapsto> Str ''1'')) \<and>
        rb_waiting R s' = rb_waiting R s"
proof -
  obtain l where l: "sim R s l" "rb_records R s = l_rec l" "rb_waiting R s = l_queue l"
    by (rule valid_sim [OF assms])
  note script = cancel_script_refines [OF l(1), of i "cancel_channel i"]
  have run: "rb_request_cancel R i s = (Inr (), snd (request_cancel_script R (job_key i) (cancel_channel i) s))"
    by (simp add: rb_request_cancel_def split: prod.splits)
  show "rb_records R s i = None \<Longrightarrow> rb_request_cancel R i s = (Inr (), s)"
    "rb_records R s i = Some m \<Longrightarrow> terminal_in m \<Longrightarrow> rb_request_cancel R i s = (Inr (), s)"
    using script l(2) by (simp_all add: run)
  assume "rb_records R s i = Some m" "\<not> terminal_in m"
  with sim_observed [OF script [THEN conjunct1]] l
  show "\<exists>s'. rb_request_cancel R i s = (Inr (), s') \<and> rb_valid R s' \<and>
        rb_records R s' = (rb_records R s)(i \<mapsto> m(''request_cancel'' \<mapsto> Str ''1'')) \<and>
        rb_waiting R s' = rb_waiting R s"
    by (simp add: run l_cancel_def l_put_def flagged_def)
qed

lemma cancel_many_laws:
  "rb_request_cancel_many R [] s = (Inr (), s)"
  "rb_request_cancel R i s = (Inr (), s') \<Longrightarrow>
     rb_request_cancel_many R (i # ids) s = rb_request_cancel_many R ids s'"
  by (auto simp: rb_request_cancel_many_def rb_request_cancel_def split: prod.splits)

lemma upkeep_laws:
  assumes "rb_valid R s"
  shows "\<exists>s'. rb_heartbeat R c s = (Inr (), s') \<and> rb_valid R s' \<and> rb_records R s' = rb_records R s \<and>
      rb_waiting R s' = rb_waiting R s"
    "\<exists>s'. rb_deregister R c s = (Inr (), s') \<and> rb_valid R s' \<and> rb_records R s' = rb_records R s \<and>
      rb_waiting R s' = rb_waiting R s"
    "\<exists>s' n ids. rb_reap R c s = Some (Inr n, s') \<and> rb_valid R s' \<and> rb_waiting R s' = rb_waiting R s @ ids \<and>
      (\<forall>i. i \<notin> set ids \<longrightarrow> rb_records R s' i = rb_records R s i) \<and>
      (\<forall>i \<in> set ids. \<exists>m. rb_records R s i = Some m \<and> rb_records R s' i = Some (requeued m)) \<and>
      n = int (length ids)"
proof -
  obtain l where l: "sim R s l" "rb_records R s = l_rec l" "rb_waiting R s = l_queue l"
    by (rule valid_sim [OF assms])
  obtain s1 where s1: "rb_heartbeat R c s = (Inr (), s1)" "sim R s1 (l_beat (instance_id c) l)"
    using heartbeat_refines [OF l(1)] by blast
  from sim_observed [OF s1(2)] s1(1) l
  show "\<exists>s'. rb_heartbeat R c s = (Inr (), s') \<and> rb_valid R s' \<and> rb_records R s' = rb_records R s \<and>
      rb_waiting R s' = rb_waiting R s"
    by (simp add: l_beat_def)
  obtain s2 where s2: "rb_deregister R c s = (Inr (), s2)" "sim R s2 (l_deregister (instance_id c) l)"
    using deregister_refines [OF l(1)] by blast
  from sim_observed [OF s2(2)] s2(1) l
  show "\<exists>s'. rb_deregister R c s = (Inr (), s') \<and> rb_valid R s' \<and> rb_records R s' = rb_records R s \<and>
      rb_waiting R s' = rb_waiting R s"
    by (simp add: l_deregister_def)
  show "\<exists>s' n ids. rb_reap R c s = Some (Inr n, s') \<and> rb_valid R s' \<and> rb_waiting R s' = rb_waiting R s @ ids \<and>
      (\<forall>i. i \<notin> set ids \<longrightarrow> rb_records R s' i = rb_records R s i) \<and>
      (\<forall>i \<in> set ids. \<exists>m. rb_records R s i = Some m \<and> rb_records R s' i = Some (requeued m)) \<and>
      n = int (length ids)"
    using reap_requeues_refines [OF l(1)] unfolding l(2,3) .
qed

end

lemma RedisBackend_sel:
  "b_enqueue (RedisBackend R c) = rb_enqueue R c" "b_claim (RedisBackend R c) = rb_claim R c"
  "b_get_job (RedisBackend R c) = rb_get_job R" "b_save (RedisBackend R c) = rb_save R c"
  "b_release (RedisBackend R c) = rb_release R c" "b_take_result (RedisBackend R c) = rb_take_result R"
  "b_request_cancel (RedisBackend R c) = rb_request_cancel R"
  "b_request_cancel_many (RedisBackend R c) = rb_request_cancel_many R"
  "b_wait_cancel (RedisBackend R c) = rb_wait_cancel R" "b_heartbeat (RedisBackend R c) = rb_heartbeat R c"
  "b_deregister (RedisBackend R c) = rb_deregister R c" "b_reap (RedisBackend R c) = rb_reap R c"
  by (simp_all add: RedisBackend_def)

sublocale redis_backend \<subseteq> store: backend_contract "RedisBackend R c" "rb_valid R" "rb_records R" "rb_waiting R"
proof (unfold_locales, goal_cases)
  case (9 s i m r)
  then show ?case
    using save_laws(2) [of s i m r] by (fastforce simp: RedisBackend_sel map_le_def)
next
  case (25 s)
  show ?case
    using upkeep_laws(3) [OF 25] by (simp only: RedisBackend_sel requeued_def)
qed (simp_all add: RedisBackend_sel enqueue_laws claim_laws read_laws save_laws release_laws take_laws
    cancel_laws cancel_many_laws upkeep_laws)

context redis_backend
begin

lemma meets_contract: "backend_contract (RedisBackend R c) (rb_valid R) (rb_records R) (rb_waiting R)"
  by (rule store.backend_contract_axioms)

end

text \<open>The defaults of the constructor over the concrete server.\<close>

definition mini_config :: rb where
  "mini_config = \<lparr>instance_id = ''w1'', result_ttl = DEFAULT_RESULT_TTL_SECONDS,
     worker_ttl = DEFAULT_WORKER_TTL_SECONDS\<rparr>"

interpretation mini_store: redis_backend mini_redis mini_config
  by unfold_locales (simp add: mini_config_def DEFAULT_RESULT_TTL_SECONDS_def)

end
