(* ===== verification/Serializers.thy ===== *)
theory Serializers
  imports Job
begin

text \<open>
  \<open>serializers/json_serializer.py\<close>: the default codec, with the behaviour of
  \<open>json.dumps\<close> and \<open>json.loads\<close> it relies on. The printer is Python's default one
  (\<open>ensure_ascii\<close>, separators \<open>", "\<close> and \<open>": "\<close>); the parser is a recursive
  descent over the text that each call shortens. Floats and code points above 255 are outside
  the model, and a document that needs them is an error of the model's parser.
  The main lemma is the round trip, which discharges the serializer contract for JSON.
\<close>

section \<open>json.dumps\<close>

abbreviation quote_char :: char where "quote_char \<equiv> CHR 0x22"
abbreviation backslash :: char where "backslash \<equiv> CHR 0x5C"

definition json_esc :: "char \<Rightarrow> string" where
  "json_esc c =
     (if c = quote_char \<or> c = backslash then [backslash, c]
      else if c = CHR 0x0A then [backslash, CHR ''n'']
      else if c = CHR 0x0D then [backslash, CHR ''r'']
      else if c = CHR 0x09 then [backslash, CHR ''t'']
      else if c = CHR 0x0C then [backslash, CHR ''f'']
      else if c = CHR 0x08 then [backslash, CHR ''b'']
      else if 32 \<le> (of_char c :: nat) \<and> (of_char c :: nat) \<le> 126 then [c]
      else [backslash, CHR ''u'', CHR ''0'', CHR ''0'', hex_digit (of_char c div 16),
            hex_digit (of_char c mod 16)])"

definition json_quote :: "string \<Rightarrow> string" where
  "json_quote s = quote_char # concat (map json_esc s) @ [quote_char]"

fun json_enc :: "pyval \<Rightarrow> string res"
  and json_enc_items :: "pyval list \<Rightarrow> string res"
  and json_enc_pairs :: "(string \<times> pyval) list \<Rightarrow> string res" where
  "json_enc PNone = Inr ''null''"
| "json_enc (PBool b) = Inr (if b then ''true'' else ''false'')"
| "json_enc (PInt i) = Inr (str_of_int i)"
| "json_enc (PStr s) = Inr (json_quote s)"
| "json_enc (PBytes b) = Inl (TypeError ''Object of type bytes is not JSON serializable'')"
| "json_enc (PList vs) = (if vs = [] then Inr ''[]''
     else rbind (json_enc_items vs) (\<lambda>t. Inr (''['' @ t @ '']'')))"
| "json_enc (PTuple vs) = (if vs = [] then Inr ''[]''
     else rbind (json_enc_items vs) (\<lambda>t. Inr (''['' @ t @ '']'')))"
| "json_enc (PDict d) = (if d = [] then Inr ''{}''
     else rbind (json_enc_pairs d) (\<lambda>t. Inr (''{'' @ t @ ''}'')))"
| "json_enc_items [] = Inr []"
| "json_enc_items (v # vs) =
     rbind (json_enc v) (\<lambda>t. if vs = [] then Inr t
       else rbind (json_enc_items vs) (\<lambda>ts. Inr (t @ '', '' @ ts)))"
| "json_enc_pairs [] = Inr []"
| "json_enc_pairs ((k, v) # d) =
     rbind (json_enc v) (\<lambda>t. if d = [] then Inr (json_quote k @ '': '' @ t)
       else rbind (json_enc_pairs d) (\<lambda>ts. Inr (json_quote k @ '': '' @ t @ '', '' @ ts)))"

section \<open>json.loads\<close>

definition json_ws :: "char \<Rightarrow> bool" where
  "json_ws c \<longleftrightarrow> (of_char c :: nat) \<in> {9, 10, 13, 32}"

definition json_skip :: "string \<Rightarrow> string" where
  "json_skip s = dropWhile json_ws s"

definition hex_val :: "char \<Rightarrow> nat option" where
  "hex_val c =
     (let n = (of_char c :: nat)
      in if 48 \<le> n \<and> n \<le> 57 then Some (n - 48)
         else if 97 \<le> n \<and> n \<le> 102 then Some (n - 87)
         else if 65 \<le> n \<and> n \<le> 70 then Some (n - 55)
         else None)"

definition json_u4 :: "string \<Rightarrow> char option" where
  "json_u4 h =
     (case h of
        [a, b, c, d] \<Rightarrow> do {
          a \<leftarrow> hex_val a; b \<leftarrow> hex_val b; c \<leftarrow> hex_val c; d \<leftarrow> hex_val d;
          let n = ((a * 16 + b) * 16 + c) * 16 + d in
          if n < 256 then Some (char_of n) else None }
      | _ \<Rightarrow> None)"

definition json_unesc :: "char \<Rightarrow> char option" where
  "json_unesc c =
     (if c = quote_char \<or> c = backslash \<or> c = CHR ''/'' then Some c
      else if c = CHR ''b'' then Some (CHR 0x08)
      else if c = CHR ''f'' then Some (CHR 0x0C)
      else if c = CHR ''n'' then Some (CHR 0x0A)
      else if c = CHR ''r'' then Some (CHR 0x0D)
      else if c = CHR ''t'' then Some (CHR 0x09)
      else None)"

text \<open>The rest of a string literal after its opening quote, and what follows it.\<close>

function json_string :: "string \<Rightarrow> (string \<times> string) option" where
  "json_string s =
     (case s of
        [] \<Rightarrow> None
      | c # cs \<Rightarrow>
          if c = quote_char then Some ([], cs)
          else if (of_char c :: nat) < 32 then None
          else if c = backslash then
            (case cs of
               [] \<Rightarrow> None
             | e # es \<Rightarrow>
                 if e = CHR ''u'' then do {
                   x \<leftarrow> json_u4 (take 4 es); (t, r) \<leftarrow> json_string (drop 4 es); Some (x # t, r) }
                 else do { x \<leftarrow> json_unesc e; (t, r) \<leftarrow> json_string es; Some (x # t, r) })
          else do { (t, r) \<leftarrow> json_string cs; Some (c # t, r) })"
  by pat_completeness auto
termination by (relation "measure length") auto

declare json_string.simps [simp del]

definition json_float_tail :: "string \<Rightarrow> bool" where
  "json_float_tail s \<longleftrightarrow> s \<noteq> [] \<and> (hd s = CHR ''.'' \<or> hd s = CHR ''e'' \<or> hd s = CHR ''E'')"

definition json_digits :: "string \<Rightarrow> string" where
  "json_digits r = (if r \<noteq> [] \<and> hd r = CHR ''0'' then ''0'' else takeWhile is_digit r)"

definition json_number :: "string \<Rightarrow> (pyval \<times> string) option" where
  "json_number s =
     (let neg = (s \<noteq> [] \<and> hd s = CHR ''-'');
          r = (if neg then tl s else s);
          ds = json_digits r;
          rest = drop (length ds) r
      in if ds = [] \<or> json_float_tail rest then None
         else map_option (\<lambda>n. (PInt (if neg then - int n else int n), rest)) (int_digits False 0 ds))"

text \<open>
  One value, the elements of an array up to its \<open>]\<close>, the members of an object up to its
  \<open>}\<close>. The tests on the length of what is left always hold; they make the recursion
  visibly well-founded.
\<close>

function (sequential) json_value :: "string \<Rightarrow> (pyval \<times> string) option"
  and json_elements :: "string \<Rightarrow> (pyval list \<times> string) option"
  and json_members :: "string \<Rightarrow> ((string \<times> pyval) list \<times> string) option" where
  "json_value s =
     (case s of
        [] \<Rightarrow> None
      | c # cs \<Rightarrow>
          if c = quote_char then map_option (\<lambda>(t, r). (PStr t, r)) (json_string cs)
          else if c = CHR ''{'' then
            (case json_skip cs of
               [] \<Rightarrow> None
             | d # ds \<Rightarrow> if d = CHR ''}'' then Some (PDict [], ds)
                 else if length (d # ds) < length s
                 then map_option (\<lambda>(m, r). (PDict (foldl (\<lambda>a (k, v). AList.update k v a) [] m), r))
                        (json_members (d # ds))
                 else None)
          else if c = CHR ''['' then
            (case json_skip cs of
               [] \<Rightarrow> None
             | d # ds \<Rightarrow> if d = CHR '']'' then Some (PList [], ds)
                 else if length (d # ds) < length s
                 then map_option (\<lambda>(vs, r). (PList vs, r)) (json_elements (d # ds))
                 else None)
          else if take 4 s = ''null'' then Some (PNone, drop 4 s)
          else if take 4 s = ''true'' then Some (PBool True, drop 4 s)
          else if take 5 s = ''false'' then Some (PBool False, drop 5 s)
          else json_number s)"
| "json_elements s =
     (case json_value s of
        None \<Rightarrow> None
      | Some (v, r) \<Rightarrow>
          (case json_skip r of
             [] \<Rightarrow> None
           | c # cs \<Rightarrow>
               if c = CHR '']'' then Some ([v], cs)
               else if c = CHR '','' \<and> length (json_skip cs) < length s
               then map_option (\<lambda>(vs, r'). (v # vs, r')) (json_elements (json_skip cs))
               else None))"
| "json_members s =
     (case s of
        [] \<Rightarrow> None
      | q # s1 \<Rightarrow>
          if q \<noteq> quote_char then None
          else (case json_string s1 of
             None \<Rightarrow> None
           | Some (k, s2) \<Rightarrow>
               (case json_skip s2 of
                  [] \<Rightarrow> None
                | c # s3 \<Rightarrow>
                    if c \<noteq> CHR '':'' \<or> \<not> length (json_skip s3) < length s then None
                    else (case json_value (json_skip s3) of
                       None \<Rightarrow> None
                     | Some (v, s4) \<Rightarrow>
                         (case json_skip s4 of
                            [] \<Rightarrow> None
                          | d # s5 \<Rightarrow>
                              if d = CHR ''}'' then Some ([(k, v)], s5)
                              else if d = CHR '','' \<and> length (json_skip s5) < length s
                              then map_option (\<lambda>(m, r). ((k, v) # m, r)) (json_members (json_skip s5))
                              else None)))))"
  by pat_completeness auto
termination
  by (relation "measure (\<lambda>x. case x of Inl s \<Rightarrow> 2 * length s | Inr y \<Rightarrow>
        (case y of Inl s \<Rightarrow> 2 * length s + 1 | Inr s \<Rightarrow> 2 * length s + 1))") auto

declare json_value.simps [simp del] json_elements.simps [simp del] json_members.simps [simp del]

definition json_decode :: "string \<Rightarrow> pyval res" where
  "json_decode s =
     (case json_value (json_skip s) of
        None \<Rightarrow> Inl (ValueError ''JSONDecodeError'')
      | Some (v, r) \<Rightarrow> if json_skip r = [] then Inr v else Inl (ValueError ''JSONDecodeError''))"

section \<open>The JSON serializer\<close>

definition json_dumps :: "pyval \<Rightarrow> string res" where
  "json_dumps v = rbind (json_enc v) (\<lambda>t. Inr (utf8_encode t))"

definition json_loads :: "fval \<Rightarrow> pyval res" where
  "json_loads data =
     (case data of Str s \<Rightarrow> json_decode s | Bytes b \<Rightarrow> rbind (utf8_decode b) json_decode)"

definition JSONSerializer :: serializer where
  "JSONSerializer = \<lparr>dumps = json_dumps, loads = json_loads\<rparr>"

text \<open>JSON's type model, and what a value becomes on the way through it.\<close>

fun json_fits :: "pyval \<Rightarrow> bool" where
  "json_fits (PBytes b) = False"
| "json_fits (PList vs) = (\<forall>v \<in> set vs. json_fits v)"
| "json_fits (PTuple vs) = (\<forall>v \<in> set vs. json_fits v)"
| "json_fits (PDict d) = (is_dict d \<and> (\<forall>p \<in> set d. json_fits (snd p)))"
| "json_fits _ = True"

fun json_norm :: "pyval \<Rightarrow> pyval" where
  "json_norm (PList vs) = PList (map json_norm vs)"
| "json_norm (PTuple vs) = PList (map json_norm vs)"
| "json_norm (PDict d) = PDict (map (\<lambda>(k, v). (k, json_norm v)) d)"
| "json_norm v = v"

section \<open>String literals\<close>

lemma hex_val_hex_digit [simp]: "d < 16 \<Longrightarrow> hex_val (hex_digit d) = Some d"
  by (auto simp: hex_val_def hex_digit_def)

lemma json_u4_esc: "json_u4 [CHR ''0'', CHR ''0'', hex_digit (of_char c div 16), hex_digit (of_char c mod 16)] = Some c"
proof -
  have "(of_char c :: nat) < 256" by simp
  then have "(of_char c :: nat) div 16 < 16" by linarith
  moreover have "hex_val CHR ''0'' = Some 0" by (simp add: hex_val_def)
  ultimately show ?thesis by (simp add: json_u4_def Let_def)
qed

lemma json_string_quote: "json_string (quote_char # r) = Some ([], r)"
  by (simp add: json_string.simps)

lemma json_string_esc:
  "json_string (json_esc c @ s) = do { (t, r) \<leftarrow> json_string s; Some (c # t, r) }"
proof (cases "c \<in> {quote_char, backslash, CHR 0x0A, CHR 0x0D, CHR 0x09, CHR 0x0C, CHR 0x08}")
  case True
  then show ?thesis
    by (auto simp: json_esc_def json_unesc_def json_string.simps [of "_ # _"])
next
  case named: False
  show ?thesis
  proof (cases "32 \<le> (of_char c :: nat) \<and> (of_char c :: nat) \<le> 126")
    case True
    with named have "json_esc c = [c]" by (simp add: json_esc_def)
    with True named show ?thesis by (simp add: json_string.simps [of "_ # _"])
  next
    case False
    with named have "json_esc c = [backslash, CHR ''u'', CHR ''0'', CHR ''0'',
        hex_digit (of_char c div 16), hex_digit (of_char c mod 16)]"
      by (simp add: json_esc_def del: of_char_Char)
    then show ?thesis by (simp add: json_string.simps [of "_ # _"] json_u4_esc)
  qed
qed

lemma json_string_literal: "json_string (concat (map json_esc s) @ quote_char # r) = Some (s, r)"
  by (induction s) (simp_all add: json_string_quote json_string_esc)

section \<open>Numbers\<close>

text \<open>What may follow a value inside a document that the printer wrote.\<close>

definition json_follow :: "string \<Rightarrow> bool" where
  "json_follow r \<longleftrightarrow> r = [] \<or> hd r \<in> set '',]}''"

lemma json_follow_simps [simp]:
  "json_follow []" "json_follow (CHR '','' # r)" "json_follow (CHR '']'' # r)"
  "json_follow (CHR ''}'' # r)"
  by (simp_all add: json_follow_def)

lemma json_follow_stop:
  assumes "json_follow r"
  shows "takeWhile is_digit (ds @ r) = takeWhile is_digit ds" "\<not> json_float_tail r"
proof -
  have "r = [] \<or> \<not> is_digit (hd r)" using assms by (auto simp: json_follow_def is_digit_def)
  then show "takeWhile is_digit (ds @ r) = takeWhile is_digit ds"
    by (induction ds) (auto simp: takeWhile_eq_Nil_iff)
  show "\<not> json_float_tail r" using assms by (auto simp: json_follow_def json_float_tail_def)
qed

lemma hd_str_of_nat_zero: "hd (str_of_nat n) = CHR ''0'' \<longleftrightarrow> n = 0"
proof (induction n rule: str_of_nat.induct)
  case (1 n)
  show ?case
  proof (cases "n < 10")
    case True
    have "digit n = CHR ''0'' \<longleftrightarrow> n = 0"
      using of_char_digit [OF True] digit_0_1(1) by auto
    with True show ?thesis by (subst str_of_nat.simps) simp
  next
    case False
    with 1 show ?thesis by (subst str_of_nat.simps) auto
  qed
qed

lemma str_of_nat_0: "str_of_nat 0 = ''0''"
  by (subst str_of_nat.simps) (simp add: digit_0_1)

lemma json_digits_nat:
  assumes "json_follow r"
  shows "json_digits (str_of_nat n @ r) = str_of_nat n"
proof (cases "n = 0")
  case True
  then show ?thesis by (simp add: str_of_nat_0 json_digits_def)
next
  case False
  have "takeWhile is_digit (str_of_nat n) = str_of_nat n"
    using str_of_nat_digits by (simp add: list_all_iff)
  with False show ?thesis
    using hd_str_of_nat_zero [of n] by (simp add: json_digits_def json_follow_stop [OF assms])
qed

lemma json_number_str_of_int:
  assumes "json_follow r"
  shows "json_number (str_of_int i @ r) = Some (PInt i, r)"
proof (cases "i < 0")
  case True
  then show ?thesis
    by (simp add: json_number_def str_of_int_def json_digits_nat [OF assms]
        json_follow_stop(2) [OF assms])
next
  case False
  have "is_digit (hd (str_of_nat (nat i)))"
    using str_of_nat_digits [of "nat i"] by (simp add: list_all_iff)
  then have "hd (str_of_nat (nat i)) \<noteq> CHR ''-''" using is_digit_sign by auto
  with False show ?thesis
    by (simp add: json_number_def str_of_int_def json_digits_nat [OF assms]
        json_follow_stop(2) [OF assms])
qed

section \<open>The round trip\<close>

lemma json_skip_id [simp]: "s = [] \<or> \<not> json_ws (hd s) \<Longrightarrow> json_skip s = s"
  by (cases s) (auto simp: json_skip_def)

lemma json_skip_space [simp]: "json_skip (CHR '' '' # s) = json_skip s"
  by (simp add: json_skip_def json_ws_def)

lemma json_ws_marks [simp]:
  "\<not> json_ws CHR '']''" "\<not> json_ws CHR ''}''" "\<not> json_ws CHR '',''" "\<not> json_ws CHR '':''"
  "\<not> json_ws quote_char" "\<not> json_ws CHR ''[''" "\<not> json_ws CHR ''{''"
  by (simp_all add: json_ws_def)

lemma str_of_int_head:
  "is_digit (hd (str_of_int i)) \<or> hd (str_of_int i) = CHR ''-''"
  using str_of_nat_digits [of "nat i"] by (auto simp: str_of_int_def list_all_iff)

lemma json_enc_head:
  assumes "json_enc v = Inr t"
  shows "t \<noteq> []" "\<not> json_ws (hd t)" "hd t \<noteq> CHR '']''" "hd t \<noteq> CHR ''}''"
proof -
  have num: "\<not> json_ws (hd (str_of_int i)) \<and> hd (str_of_int i) \<notin> {CHR '']'', CHR ''}''}" for i
    using str_of_int_head [of i] by (auto simp: is_digit_def json_ws_def)
  have "t \<noteq> [] \<and> \<not> json_ws (hd t) \<and> hd t \<notin> {CHR '']'', CHR ''}''}"
  proof (cases v)
    case (PInt i)
    with assms num [of i] str_of_int_ends(3) [of i] show ?thesis by simp
  next
    case (PBool b)
    with assms show ?thesis by (cases b) (auto simp: json_ws_def)
  qed (use assms in \<open>auto simp: json_quote_def rbind_Inr_iff json_ws_def split: if_split_asm\<close>)
  then show "t \<noteq> []" "\<not> json_ws (hd t)" "hd t \<noteq> CHR '']''" "hd t \<noteq> CHR ''}''" by auto
qed

lemma json_value_int: "json_follow r \<Longrightarrow> json_value (str_of_int i @ r) = Some (PInt i, r)"
proof -
  assume f: "json_follow r"
  obtain c cs where s: "str_of_int i = c # cs" by (cases "str_of_int i") (auto simp: str_of_int_ends)
  then have c: "is_digit c \<or> c = CHR ''-''" using str_of_int_head [of i] by simp
  then have "c \<noteq> quote_char" "c \<noteq> CHR ''{''" "c \<noteq> CHR ''[''" "c \<noteq> CHR ''n''" "c \<noteq> CHR ''t''"
    "c \<noteq> CHR ''f''" by (auto simp: is_digit_def)
  with s show ?thesis
    using json_number_str_of_int [OF f, of i] by (simp add: json_value.simps)
qed

lemma json_value_quote: "json_value (json_quote s @ r) = Some (PStr s, r)"
  by (simp add: json_quote_def json_value.simps json_string_literal)

lemma json_value_array:
  assumes "t \<noteq> []" "\<not> json_ws (hd t)" "hd t \<noteq> CHR '']''"
    and "json_elements (t @ CHR '']'' # r) = Some (vs, r)"
  shows "json_value (''['' @ t @ '']'' @ r) = Some (PList vs, r)"
  using assms by (cases t) (simp_all add: json_value.simps)

lemma json_value_object:
  assumes "t \<noteq> []" "\<not> json_ws (hd t)" "hd t \<noteq> CHR ''}''"
    and "json_members (t @ CHR ''}'' # r) = Some (m, r)"
    and "foldl (\<lambda>a (k, v). AList.update k v a) [] m = m"
  shows "json_value (''{'' @ t @ ''}'' @ r) = Some (PDict m, r)"
  using assms by (cases t) (simp_all add: json_value.simps)

lemma foldl_update_dict:
  assumes "is_dict (d @ m)"
  shows "foldl (\<lambda>a (k, v). AList.update k v a) d m = d @ m"
  using assms
proof (induction m arbitrary: d)
  case Nil
  then show ?case by simp
next
  case (Cons p m)
  obtain k v where p: "p = (k, v)" by (cases p)
  have "k \<notin> fst ` set d" using Cons.prems by (auto simp: is_dict_def p)
  then have "AList.update k v d = d @ [(k, v)]" by (induction d) auto
  with Cons.IH [of "d @ [(k, v)]"] Cons.prems show ?case by (simp add: p is_dict_def)
qed

lemma json_enc_items_head:
  assumes "json_enc_items vs = Inr t" "vs \<noteq> []"
  shows "t \<noteq> []" "\<not> json_ws (hd t)" "hd t \<noteq> CHR '']''"
proof -
  obtain v vs' where vs: "vs = v # vs'" using assms(2) by (cases vs) auto
  with assms(1) obtain t1 t2 where "json_enc v = Inr t1" "t = t1 @ t2"
    by (auto simp: rbind_Inr_iff split: if_split_asm)
  with json_enc_head [of v t1] show "t \<noteq> []" "\<not> json_ws (hd t)" "hd t \<noteq> CHR '']''" by auto
qed

lemma json_enc_pairs_head:
  assumes "json_enc_pairs d = Inr t" "d \<noteq> []"
  obtains t' where "t = quote_char # t'"
  using assms by (cases d) (auto simp: rbind_Inr_iff json_quote_def split: if_splits)

lemma json_elements_one:
  "json_value (t @ CHR '']'' # r) = Some (v, CHR '']'' # r) \<Longrightarrow>
   json_elements (t @ CHR '']'' # r) = Some ([v], r)"
  by (simp add: json_elements.simps [of "t @ CHR '']'' # r"])

lemma json_elements_more:
  assumes "json_value (t @ '', '' @ ts @ r) = Some (v, '', '' @ ts @ r)"
    and "ts \<noteq> []" "\<not> json_ws (hd ts)" "json_elements (ts @ r) = Some (vs, r')"
  shows "json_elements (t @ '', '' @ ts @ r) = Some (v # vs, r')"
  using assms by (subst json_elements.simps) (cases ts, simp_all)

lemma json_members_one:
  assumes "t \<noteq> []" "\<not> json_ws (hd t)"
    and "json_value (t @ CHR ''}'' # r) = Some (v, CHR ''}'' # r)"
  shows "json_members (json_quote k @ '': '' @ t @ CHR ''}'' # r) = Some ([(k, v)], r)"
  using assms
  by (cases t) (simp_all add: json_quote_def json_members.simps [of "_ # _"] json_string_literal)

lemma json_members_more:
  assumes "t \<noteq> []" "\<not> json_ws (hd t)" "ts \<noteq> []" "\<not> json_ws (hd ts)"
    and "json_value (t @ '', '' @ ts @ r) = Some (v, '', '' @ ts @ r)"
    and "json_members (ts @ r) = Some (m, r')"
  shows "json_members (json_quote k @ '': '' @ t @ '', '' @ ts @ r) = Some ((k, v) # m, r')"
  using assms
  by (cases t; cases ts)
    (simp_all add: json_quote_def json_members.simps [of "_ # _ @ _"] json_string_literal)

lemma json_array_case:
  assumes IH: "\<And>ts. json_enc_items vs = Inr ts \<Longrightarrow> vs \<noteq> [] \<Longrightarrow>
      json_elements (ts @ CHR '']'' # r) = Some (map json_norm vs, r)"
    and enc: "(if vs = [] then Inr ''[]''
       else rbind (json_enc_items vs) (\<lambda>t. Inr (''['' @ t @ '']''))) = Inr t"
  shows "json_value (t @ r) = Some (PList (map json_norm vs), r)"
proof (cases "vs = []")
  case True
  with enc show ?thesis by (auto simp: json_value.simps)
next
  case False
  with enc obtain ts where ts: "json_enc_items vs = Inr ts" "t = ''['' @ ts @ '']''"
    by (auto simp: rbind_Inr_iff)
  from json_value_array [OF json_enc_items_head [OF ts(1) False] IH [OF ts(1) False]]
  show ?thesis by (simp add: ts)
qed

lemma json_object_case:
  assumes IH: "\<And>ts. json_enc_pairs d = Inr ts \<Longrightarrow> d \<noteq> [] \<Longrightarrow>
      json_members (ts @ CHR ''}'' # r) = Some (map (\<lambda>(k, v). (k, json_norm v)) d, r)"
    and enc: "(if d = [] then Inr ''{}''
       else rbind (json_enc_pairs d) (\<lambda>t. Inr (''{'' @ t @ ''}''))) = Inr t"
    and dict: "is_dict d"
  shows "json_value (t @ r) = Some (PDict (map (\<lambda>(k, v). (k, json_norm v)) d), r)"
proof (cases "d = []")
  case True
  with enc show ?thesis by (auto simp: json_value.simps)
next
  case False
  with enc obtain ts where ts: "json_enc_pairs d = Inr ts" "t = ''{'' @ ts @ ''}''"
    by (auto simp: rbind_Inr_iff)
  obtain ts' where q: "ts = quote_char # ts'" by (rule json_enc_pairs_head [OF ts(1) False])
  let ?m = "map (\<lambda>(k, v). (k, json_norm v)) d"
  have "map fst ?m = map fst d" by (simp add: comp_def case_prod_unfold)
  with dict have "is_dict ([] @ ?m)" by (simp only: is_dict_def append_Nil)
  then have upd: "foldl (\<lambda>a (k, v). AList.update k v a) [] ?m = ?m"
    by (simp only: foldl_update_dict append_Nil)
  from json_value_object [OF _ _ _ IH [OF ts(1) False] upd] show ?thesis by (simp add: ts q)
qed

lemma json_items_case:
  assumes v: "\<And>t r. json_enc v = Inr t \<Longrightarrow> json_follow r \<Longrightarrow> json_value (t @ r) = Some (json_norm v, r)"
    and IH: "\<And>ts. vs \<noteq> [] \<Longrightarrow> json_enc_items vs = Inr ts \<Longrightarrow>
      json_elements (ts @ CHR '']'' # r) = Some (map json_norm vs, r)"
    and enc: "json_enc_items (v # vs) = Inr ts"
  shows "json_elements (ts @ CHR '']'' # r) = Some (map json_norm (v # vs), r)"
proof -
  obtain t1 where t1: "json_enc v = Inr t1" using enc by (auto simp: rbind_Inr_iff)
  show ?thesis
  proof (cases "vs = []")
    case True
    with v enc t1 show ?thesis by (auto intro!: json_elements_one)
  next
    case False
    with enc t1 obtain t2 where t2: "json_enc_items vs = Inr t2" "ts = t1 @ '', '' @ t2"
      by (auto simp: rbind_Inr_iff)
    have "json_elements (t1 @ '', '' @ t2 @ CHR '']'' # r) = Some (json_norm v # map json_norm vs, r)"
      by (rule json_elements_more)
        (use v t1 json_enc_items_head [OF t2(1) False] IH [OF False t2(1)] in simp_all)
    then show ?thesis by (simp add: t2)
  qed
qed

lemma json_pairs_case:
  assumes v: "\<And>t r. json_enc v = Inr t \<Longrightarrow> json_follow r \<Longrightarrow> json_value (t @ r) = Some (json_norm v, r)"
    and IH: "\<And>ts. d \<noteq> [] \<Longrightarrow> json_enc_pairs d = Inr ts \<Longrightarrow>
      json_members (ts @ CHR ''}'' # r) = Some (map (\<lambda>(k, v). (k, json_norm v)) d, r)"
    and enc: "json_enc_pairs ((k, v) # d) = Inr tp"
  shows "json_members (tp @ CHR ''}'' # r) = Some (map (\<lambda>(k, v). (k, json_norm v)) ((k, v) # d), r)"
proof -
  obtain t1 where t1: "json_enc v = Inr t1" using enc by (auto simp: rbind_Inr_iff)
  note h1 = json_enc_head [OF t1]
  show ?thesis
  proof (cases "d = []")
    case True
    with json_members_one [OF h1(1,2) v [OF t1, of "CHR ''}'' # r"], of k] enc t1
    show ?thesis by auto
  next
    case False
    with enc t1 obtain t2 where t2: "json_enc_pairs d = Inr t2"
        "tp = json_quote k @ '': '' @ t1 @ '', '' @ t2"
      by (auto simp: rbind_Inr_iff)
    obtain t3 where q: "t2 = quote_char # t3" by (rule json_enc_pairs_head [OF t2(1) False])
    have "json_members (json_quote k @ '': '' @ t1 @ '', '' @ t2 @ CHR ''}'' # r) =
        Some ((k, json_norm v) # map (\<lambda>(k, v). (k, json_norm v)) d, r)"
      by (rule json_members_more [OF h1(1,2)]) (use v t1 q IH [OF False t2(1)] in simp_all)
    then show ?thesis by (simp add: t2)
  qed
qed

lemma json_enc_decode:
  "json_fits v \<Longrightarrow> json_enc v = Inr t \<Longrightarrow> json_follow r \<Longrightarrow>
   json_value (t @ r) = Some (json_norm v, r)"
  "(\<forall>v \<in> set vs. json_fits v) \<Longrightarrow> json_enc_items vs = Inr ts \<Longrightarrow> vs \<noteq> [] \<Longrightarrow>
   json_elements (ts @ CHR '']'' # r) = Some (map json_norm vs, r)"
  "(\<forall>p \<in> set d. json_fits (snd p)) \<Longrightarrow> json_enc_pairs d = Inr tp \<Longrightarrow> d \<noteq> [] \<Longrightarrow>
   json_members (tp @ CHR ''}'' # r) = Some (map (\<lambda>(k, v). (k, json_norm v)) d, r)"
proof (induction v and vs and d arbitrary: t r and ts r and tp r
    rule: json_enc_json_enc_items_json_enc_pairs.induct)
  case 1
  then show ?case by (auto simp: json_value.simps)
next
  case (2 b)
  then show ?case by (cases b) (auto simp: json_value.simps)
next
  case (6 vs)
  then show ?case using json_array_case [of vs r t] by simp
next
  case (7 vs)
  then show ?case using json_array_case [of vs r t] by simp
next
  case (8 d)
  then show ?case using json_object_case [of d r t] by simp
next
  case (10 v vs)
  show ?case by (rule json_items_case) (use 10 in auto)
next
  case (12 k v d)
  show ?case by (rule json_pairs_case) (use 12 in auto)
qed (auto simp: json_value_int json_value_quote)

lemma json_decode_enc: "json_fits v \<Longrightarrow> json_enc v = Inr t \<Longrightarrow> json_decode t = Inr (json_norm v)"
  using json_enc_decode(1) [of v t "[]"] json_enc_head [of v t]
  by (simp add: json_decode_def)

text \<open>Every value of JSON's type model has a text.\<close>

lemma json_enc_total:
  "json_fits v \<Longrightarrow> isOk (json_enc v)"
  "(\<forall>v \<in> set vs. json_fits v) \<Longrightarrow> isOk (json_enc_items vs)"
  "(\<forall>p \<in> set d. json_fits (snd p)) \<Longrightarrow> isOk (json_enc_pairs d)"
  by (induction v and vs and d rule: json_enc_json_enc_items_json_enc_pairs.induct)
    (auto simp: isOk_iff)

section \<open>JSON meets the serializer contract\<close>

lemma json_fits_norm: "json_fits v \<Longrightarrow> json_fits (json_norm v)"
proof (induction v)
  case (PDict d)
  have "map fst (map (\<lambda>(k, v). (k, json_norm v)) d) = map fst d" by auto
  then have "is_dict (map (\<lambda>(k, v). (k, json_norm v)) d) = is_dict d"
    unfolding is_dict_def by (rule arg_cong)
  then have "is_dict (map (\<lambda>(k, v). (k, json_norm v)) d)" using PDict.prems by simp
  moreover have "json_fits (json_norm v)" if "(k, v) \<in> set d" for k v
    using PDict.IH [OF that, of v] PDict.prems that by auto
  ultimately show ?case by auto
qed auto

interpretation json: codec JSONSerializer json_norm json_fits
proof unfold_locales
  fix v b
  assume v: "json_fits v"
  show "\<exists>b. dumps JSONSerializer v = Inr b"
    using json_enc_total(1) [OF v] by (auto simp: JSONSerializer_def json_dumps_def isOk_iff)
  show "dumps JSONSerializer v = Inr b \<Longrightarrow> loads JSONSerializer (Bytes b) = Inr (json_norm v)"
    using json_decode_enc [OF v]
    by (auto simp: JSONSerializer_def json_dumps_def json_loads_def rbind_Inr_iff)
qed (auto simp: image_iff intro: json_fits_norm)

section \<open>The pickle serializer\<close>

text \<open>The functions of the \<open>pickle\<close> module are parameters. Where they round-trip, as documented, the
  serializer keeps the contract with no loss, so every result about clients holds for it.\<close>

definition PickleSerializer :: "(pyval \<Rightarrow> string res) \<Rightarrow> (string \<Rightarrow> pyval res) \<Rightarrow> serializer" where
  "PickleSerializer pickle_dumps pickle_loads =
     \<lparr>dumps = pickle_dumps,
      loads = (\<lambda>data. case data of
          Bytes b \<Rightarrow> pickle_loads b
        | Str s \<Rightarrow> Inl (TypeError (''a bytes-like object is required, not '' @ [CHR 0x27] @ ''str'' @ [CHR 0x27])))\<rparr>"

lemma pickle_codec:
  assumes "\<And>v. picklable v \<Longrightarrow> \<exists>b. pickle_dumps v = Inr b"
    "\<And>v b. picklable v \<Longrightarrow> pickle_dumps v = Inr b \<Longrightarrow> pickle_loads b = Inr v"
    "\<And>vs. (\<And>v. v \<in> set vs \<Longrightarrow> picklable v) \<Longrightarrow> picklable (PList vs)"
    "\<And>d. is_dict d \<Longrightarrow> (\<And>v. v \<in> snd ` set d \<Longrightarrow> picklable v) \<Longrightarrow> picklable (PDict d)"
  shows "codec (PickleSerializer pickle_dumps pickle_loads) (\<lambda>v. v) picklable"
  using assms by unfold_locales (auto simp: PickleSerializer_def)

end
