(* ===== verification/Worker.thy ===== *)
theory Worker
  imports Submission
begin

text \<open>
  \<open>worker.py\<close>: what a worker loop does with one claimed record, one iteration and the whole
  loop, upkeep, entering and leaving a pool. The body of a job races its cancel watcher;
  \<open>race\<close> is how that race went, and every branch of \<open>_run\<close> is a branch of the model.
\<close>

section \<open>Running one job\<close>

text \<open>
  \<open>JobDone r\<close>: the body came back first (or together with the watcher) with \<open>r\<close>.
  \<open>WatcherDied e r\<close>: the watcher alone came back, with an exception, and the body, awaited
  unwatched, with \<open>r\<close>. \<open>CancelSeen u\<close>: the watcher alone came back and the body was
  cancelled; \<open>u\<close> says it unwound within the timeout. A loop goes on only once the body has ended,
  because the clean-up awaits it.
\<close>

datatype ending =
    JobDone "pyval res"
  | WatcherDied pyexc "pyval res"
  | CancelSeen bool

text \<open>
  The task of a loop can itself be cancelled, at any \<open>await\<close>: before a terminal write has reached
  the store (\<open>Interrupted\<close>), or after it, while the loop awaited the reply or cleaned up
  (\<open>InterruptedAfter\<close>, with the ending that was written).
\<close>

datatype race = Ends ending | Interrupted | InterruptedAfter ending

definition worker_save :: "serializer \<Rightarrow> 's backend \<Rightarrow> job \<Rightarrow> 's \<Rightarrow> unit res \<times> 's" where
  "worker_save S B j s =
     (case to_record S j of Inl e \<Rightarrow> (Inl e, s) | Inr r \<Rightarrow> b_save B (jid j) r True s)"

text \<open>The \<open>if job_task in done\<close> branch: the result, then the save inside the same \<open>try\<close>.\<close>

definition worker_complete :: "serializer \<Rightarrow> 's backend \<Rightarrow> job \<Rightarrow> pyval res \<Rightarrow> 's \<Rightarrow> unit res \<times> job \<times> 's" where
  "worker_complete S B j r s =
     (case r of
        Inl e \<Rightarrow> (Inl e, j, s)
      | Inr v \<Rightarrow>
          let j' = j\<lparr>result := v, status := COMPLETED\<rparr>
          in case worker_save S B j' s of (x, s') \<Rightarrow> (x, j', s'))"

definition worker_try :: "serializer \<Rightarrow> 's backend \<Rightarrow> job \<Rightarrow> ending \<Rightarrow> 's \<Rightarrow> unit res \<times> job \<times> 's" where
  "worker_try S B j ending s =
     (case ending of
        JobDone r \<Rightarrow> worker_complete S B j r s
      | WatcherDied e r \<Rightarrow> worker_complete S B j r s
      | CancelSeen unwound \<Rightarrow>
          let j' = j\<lparr>status := CANCELLED\<rparr>
          in case worker_save S B j' s of (x, s') \<Rightarrow> (x, j', s'))"

text \<open>The \<open>except\<close> clauses of \<open>_run\<close>: a cancelled task passes through, any other exception
  is the job's failure.\<close>

definition worker_except :: "serializer \<Rightarrow> 's backend \<Rightarrow> unit res \<times> job \<times> 's \<Rightarrow> unit res \<times> 's" where
  "worker_except S B out =
     (case out of
        (Inr _, j, s) \<Rightarrow> (Inr (), s)
      | (Inl e, j, s) \<Rightarrow>
          if \<not> is_Exception e then (Inl e, s)
          else worker_save S B (j\<lparr>error := Some (py_str_exc e), status := FAILED\<rparr>) s)"

definition worker_settle ::
  "serializer \<Rightarrow> 's backend \<Rightarrow> task_obj pydict \<Rightarrow> job \<Rightarrow> ending \<Rightarrow> 's \<Rightarrow> unit res \<times> 's" where
  "worker_settle S B reg j ending s =
     (if request_cancel j then worker_save S B (j\<lparr>status := CANCELLED\<rparr>) s
      else case map_of reg (task_name j) of
        None \<Rightarrow>
          worker_save S B (j\<lparr>error := Some (''no task is registered under the name '' @ py_repr (task_name j)),
            status := FAILED\<rparr>) s
      | Some task \<Rightarrow> worker_except S B (worker_try S B j ending s))"

text \<open>\<open>_run\<close> with the cancellation of its own task, which every branch lets through.\<close>

definition worker_run ::
  "serializer \<Rightarrow> 's backend \<Rightarrow> task_obj pydict \<Rightarrow> job \<Rightarrow> race \<Rightarrow> 's \<Rightarrow> unit res \<times> 's" where
  "worker_run S B reg j race s =
     (case race of
        Ends ending \<Rightarrow> worker_settle S B reg j ending s
      | Interrupted \<Rightarrow> (Inl CancelledError, s)
      | InterruptedAfter ending \<Rightarrow> (Inl CancelledError, snd (worker_settle S B reg j ending s)))"

definition worker_process ::
  "serializer \<Rightarrow> 's backend \<Rightarrow> task_obj pydict \<Rightarrow> hrecord \<Rightarrow> race \<Rightarrow> 's \<Rightarrow> unit res \<times> 's" where
  "worker_process S B reg r race s =
     (case from_record S r of Inl e \<Rightarrow> (Inl e, s) | Inr j \<Rightarrow> worker_run S B reg j race s)"

text \<open>The context a job body sees while it runs.\<close>

definition process_context :: "serializer \<Rightarrow> hrecord \<Rightarrow> job_context option" where
  "process_context S r =
     (case from_record S r of Inl e \<Rightarrow> None
      | Inr j \<Rightarrow> Some (JobContext_init (jid j) (group_id j) (task_name j) (attempts j)))"

section \<open>The worker loop\<close>

datatype control = Continue | Stopped pyexc

definition worker_serve ::
  "serializer \<Rightarrow> 's backend \<Rightarrow> task_obj pydict \<Rightarrow> hrecord \<Rightarrow> race \<Rightarrow> 's \<Rightarrow> control \<times> 's" where
  "worker_serve S B reg r race s =
     (case worker_process S B reg r race s of
        (Inr _, s') \<Rightarrow> (Continue, s')
      | (Inl e, s') \<Rightarrow>
          if is_Exception e then (Continue, s')
          else (case get_str r ''id'' of
                  Inl _ \<Rightarrow> (Stopped e, s')
                | Inr i \<Rightarrow> (case b_release B i s' of (_, s'') \<Rightarrow> (Stopped e, s''))))"

definition worker_iteration ::
  "serializer \<Rightarrow> 's backend \<Rightarrow> task_obj pydict \<Rightarrow> race \<Rightarrow> 's \<Rightarrow> control \<times> 's" where
  "worker_iteration S B reg race s =
     (case b_claim B s of
        (Inl e, s') \<Rightarrow> if is_Exception e then (Continue, s') else (Stopped e, s')
      | (Inr None, s') \<Rightarrow> (Continue, s')
      | (Inr (Some r), s') \<Rightarrow> worker_serve S B reg r race s')"

text \<open>One race per turn of \<open>while self._running\<close>; the list ends when the flag is cleared.\<close>

fun worker_loop ::
  "serializer \<Rightarrow> 's backend \<Rightarrow> task_obj pydict \<Rightarrow> race list \<Rightarrow> 's \<Rightarrow> control \<times> 's" where
  "worker_loop S B reg [] s = (Continue, s)"
| "worker_loop S B reg (race # races) s =
     (case worker_iteration S B reg race s of
        (Continue, s') \<Rightarrow> worker_loop S B reg races s'
      | (Stopped e, s') \<Rightarrow> (Stopped e, s'))"

text \<open>One turn of \<open>_upkeep_loop\<close>; \<open>None\<close> would be a reap that never ends.\<close>

definition worker_upkeep :: "'s backend \<Rightarrow> 's \<Rightarrow> (control \<times> 's) option" where
  "worker_upkeep B s =
     (case b_heartbeat B s of
        (Inl e, s') \<Rightarrow> Some (if is_Exception e then Continue else Stopped e, s')
      | (Inr _, s') \<Rightarrow>
          (case b_reap B s' of
             None \<Rightarrow> None
           | Some (Inl e, s'') \<Rightarrow> Some (if is_Exception e then Continue else Stopped e, s'')
           | Some (Inr _, s'') \<Rightarrow> Some (Continue, s'')))"

section \<open>Facts for every store\<close>

lemma is_Exception_simps [simp]:
  "is_Exception (KeyError m)" "is_Exception (TypeError m)" "is_Exception (ValueError m)"
  "is_Exception (RuntimeError m)" "\<not> is_Exception CancelledError" "is_Exception (not_found i)"
  by (simp_all add: is_Exception_def not_found_def)

lemma worker_loop_append:
  "worker_loop S B reg (xs @ ys) s =
     (case worker_loop S B reg xs s of
        (Continue, s') \<Rightarrow> worker_loop S B reg ys s'
      | (Stopped e, s') \<Rightarrow> (Stopped e, s'))"
  by (induction xs arbitrary: s) (auto split: prod.splits control.splits)

section \<open>What a served job becomes\<close>

text \<open>
  The outcome the store must show after a job was served: the finished job, or \<open>None\<close> when
  the job was interrupted before a terminal write and goes back to the queue.
\<close>

definition body_outcome :: "serializer \<Rightarrow> job \<Rightarrow> pyval res \<Rightarrow> job option" where
  "body_outcome S j r =
     (case r of
        Inl e \<Rightarrow> if is_Exception e then Some (j\<lparr>error := Some (py_str_exc e), status := FAILED\<rparr>) else None
      | Inr v \<Rightarrow>
          (case dumps S v of
             Inr _ \<Rightarrow> Some (j\<lparr>result := v, status := COMPLETED\<rparr>)
           | Inl e \<Rightarrow> if is_Exception e
                      then Some (j\<lparr>result := v, error := Some (py_str_exc e), status := FAILED\<rparr>) else None))"

definition settled_job :: "serializer \<Rightarrow> task_obj pydict \<Rightarrow> job \<Rightarrow> ending \<Rightarrow> job option" where
  "settled_job S reg j ending =
     (if request_cancel j then Some (j\<lparr>status := CANCELLED\<rparr>)
      else if map_of reg (task_name j) = None
      then Some (j\<lparr>error := Some (''no task is registered under the name '' @ py_repr (task_name j)),
             status := FAILED\<rparr>)
      else case ending of
        JobDone r \<Rightarrow> body_outcome S j r
      | WatcherDied e r \<Rightarrow> body_outcome S j r
      | CancelSeen unwound \<Rightarrow> Some (j\<lparr>status := CANCELLED\<rparr>))"

definition final_job :: "serializer \<Rightarrow> task_obj pydict \<Rightarrow> job \<Rightarrow> race \<Rightarrow> job option" where
  "final_job S reg j race =
     (case race of Ends ending \<Rightarrow> settled_job S reg j ending
      | Interrupted \<Rightarrow> None
      | InterruptedAfter ending \<Rightarrow> settled_job S reg j ending)"

text \<open>Whether serving the record ends the loop.\<close>

definition stops_loop :: "serializer \<Rightarrow> task_obj pydict \<Rightarrow> job \<Rightarrow> race \<Rightarrow> bool" where
  "stops_loop S reg j race \<longleftrightarrow> final_job S reg j race = None \<or> (\<exists>ending. race = InterruptedAfter ending)"

definition same_job :: "job \<Rightarrow> job \<Rightarrow> bool" where
  "same_job a b \<longleftrightarrow> jid a = jid b \<and> group_id a = group_id b \<and> attempts a = attempts b"

text \<open>The store shows a job as a worker holds it: claimed and running.\<close>

definition runs_in :: "serializer \<Rightarrow> (string \<Rightarrow> rec_view option) \<Rightarrow> job \<Rightarrow> bool" where
  "runs_in S v j \<longleftrightarrow> v (jid j) = job_view S j \<and> job_view S j \<noteq> None \<and> status j = RUNNING \<and>
     error j = None \<and> 0 \<le> attempts j"

context client
begin

lemma fits_norm_job: "fits_job fits j \<Longrightarrow> fits_job fits (norm_job norm j)"
proof -
  assume f: "fits_job fits j"
  have "map fst (map (\<lambda>(k, v). (k, norm v)) (kwargs j)) = map fst (kwargs j)" by auto
  then have "is_dict (map (\<lambda>(k, v). (k, norm v)) (kwargs j)) \<longleftrightarrow> is_dict (kwargs j)"
    unfolding is_dict_def by (rule arg_cong)
  with f show ?thesis by (force simp: fits_job_def norm_job_def fits_norm)
qed

text \<open>The final save of a job the worker was running: the store holds exactly that job.\<close>

lemma worker_save_holds:
  assumes "inv s" "runs_in S (view s) j" "same_job j' j" "terminal (status j')" "to_record S j' = Inr r"
  shows "\<exists>s'. worker_save S B j' s = (Inr (), s') \<and> inv s' \<and> waiting s' = waiting s \<and>
    view s' = (view s)(jid j := job_view S j')"
proof -
  obtain m where m: "view s (jid j) = Some m" "job_view S j = Some m"
    using assms(2) by (auto simp: runs_in_def)
  have v': "job_view S j' = Some (map_of r)" using assms(5) by (simp add: job_view_def)
  have t: "terminal_in (map_of r)" using job_view_fields(4) [OF v'] assms(4) by simp
  have st: "storable (map_of r)"
    using to_record_storable [OF assms(5)] assms(2,3) by (simp add: same_job_def runs_in_def)
  have "dom m \<subseteq> dom (map_of r)"
    using job_view_dom [OF m(2)] job_view_dom [OF v'] assms(2,3)
    by (auto simp: job_fields_def same_job_def runs_in_def)
  then obtain s' where "b_save B (jid j) r True s = (Inr (), s')" "inv s'" "waiting s' = waiting s"
    "view s' = (view s)(jid j \<mapsto> map_of r)"
    using save_known [OF assms(1) m(1) to_record_is_dict [OF assms(5)] st t] merged_is_written by metis
  with assms(3,5) v' show ?thesis by (simp add: worker_save_def same_job_def)
qed

text \<open>A job that did not complete can always be written.\<close>

lemma to_record_open:
  assumes "fits_job fits j" "args j' = args j" "kwargs j' = kwargs j" "status j' \<noteq> COMPLETED"
  shows "\<exists>r. to_record S j' = Inr r"
  using to_record_Inl_iff [of S j'] dumps_fits [OF fits_payload [OF assms(1)]] assms(2-4)
  by (cases "to_record S j'") auto

lemma to_record_completed:
  assumes "fits_job fits j"
  shows "(\<exists>r. to_record S (j\<lparr>result := v, status := COMPLETED\<rparr>) = Inr r) \<longleftrightarrow> isOk (dumps S v)"
    "dumps S v = Inl e \<Longrightarrow> to_record S (j\<lparr>result := v, status := COMPLETED\<rparr>) = Inl e"
  using dumps_fits [OF fits_payload [OF assms]] by (cases "dumps S v"; auto simp: to_record_def Let_def)+

lemma complete_ok:
  assumes "inv s" "runs_in S (view s) j0" "same_job j j0" "fits_job fits j" "dumps S v = Inr b"
  shows "\<exists>s'. worker_complete S B j (Inr v) s = (Inr (), j\<lparr>result := v, status := COMPLETED\<rparr>, s') \<and> inv s' \<and>
    waiting s' = waiting s \<and> view s' = (view s)(jid j0 := job_view S (j\<lparr>result := v, status := COMPLETED\<rparr>))"
proof -
  obtain r where r: "to_record S (j\<lparr>result := v, status := COMPLETED\<rparr>) = Inr r"
    using to_record_completed(1) [OF assms(4), of v] assms(5) by auto
  show ?thesis
    using worker_save_holds [OF assms(1,2) _ _ r] assms(3)
    by (auto simp: worker_complete_def same_job_def terminal_def)
qed

lemma complete_unserializable:
  assumes "fits_job fits j" "dumps S v = Inl e"
  shows "worker_complete S B j (Inr v) s = (Inl e, j\<lparr>result := v, status := COMPLETED\<rparr>, s)"
  using to_record_completed(2) [OF assms] by (simp add: worker_complete_def worker_save_def)

lemma save_open:
  assumes "inv s" "runs_in S (view s) j0" "same_job j' j0" "terminal (status j')" "status j' \<noteq> COMPLETED"
    "fits_job fits j" "args j' = args j" "kwargs j' = kwargs j"
  shows "\<exists>s'. worker_save S B j' s = (Inr (), s') \<and> inv s' \<and> waiting s' = waiting s \<and>
    view s' = (view s)(jid j0 := job_view S j')"
  using worker_save_holds [OF assms(1-4)] to_record_open [OF assms(6-8,5)] by blast

text \<open>The two ways a job object that did not complete is saved.\<close>

lemma save_cancelled:
  assumes "inv s" "runs_in S (view s) j0" "same_job j j0" "fits_job fits j"
  shows "\<exists>s'. worker_save S B (j\<lparr>status := CANCELLED\<rparr>) s = (Inr (), s') \<and> inv s' \<and> waiting s' = waiting s \<and>
    view s' = (view s)(jid j0 := job_view S (j\<lparr>status := CANCELLED\<rparr>))"
  by (rule save_open [OF assms(1,2) _ _ _ assms(4)]; use assms(3) in \<open>simp add: same_job_def terminal_def\<close>)

lemma save_failed:
  assumes "inv s" "runs_in S (view s) j0" "same_job j j0" "fits_job fits j" "args j' = args j"
    "kwargs j' = kwargs j" "same_job j' j" "status j' = FAILED"
  shows "\<exists>s'. worker_save S B j' s = (Inr (), s') \<and> inv s' \<and> waiting s' = waiting s \<and>
    view s' = (view s)(jid j0 := job_view S j')"
  by (rule save_open [OF assms(1,2) _ _ _ assms(4)]; use assms in \<open>simp add: same_job_def terminal_def\<close>)

lemma body_spec:
  assumes "inv s" "runs_in S (view s) j0" "same_job j j0" "fits_job fits j"
  shows "case body_outcome S j r of
      Some j' \<Rightarrow> terminal (status j') \<and> (\<exists>s'. worker_except S B (worker_complete S B j r s) = (Inr (), s') \<and> inv s' \<and>
        waiting s' = waiting s \<and> view s' = (view s)(jid j0 := job_view S j'))
    | None \<Rightarrow> worker_except S B (worker_complete S B j r s) = (Inl CancelledError, s)"
proof (cases r)
  case (Inl e)
  have "\<exists>s'. worker_save S B (j\<lparr>error := Some (py_str_exc e), status := FAILED\<rparr>) s = (Inr (), s') \<and> inv s' \<and>
      waiting s' = waiting s \<and> view s' = (view s)(jid j0 := job_view S (j\<lparr>error := Some (py_str_exc e), status := FAILED\<rparr>))"
    by (rule save_failed [OF assms]) (simp_all add: same_job_def)
  then show ?thesis
    by (auto simp: Inl body_outcome_def worker_complete_def worker_except_def terminal_def is_Exception_def)
next
  case (Inr v)
  show ?thesis
  proof (cases "dumps S v")
    case dv: (Inl e)
    have "\<exists>s'. worker_save S B (j\<lparr>result := v, error := Some (py_str_exc e), status := FAILED\<rparr>) s = (Inr (), s') \<and> inv s' \<and>
        waiting s' = waiting s \<and>
        view s' = (view s)(jid j0 := job_view S (j\<lparr>result := v, error := Some (py_str_exc e), status := FAILED\<rparr>))"
      by (rule save_failed [OF assms]) (simp_all add: same_job_def)
    then show ?thesis
      using complete_unserializable [OF assms(4) dv, of s]
      by (auto simp: Inr body_outcome_def dv worker_except_def terminal_def is_Exception_def)
  next
    case dv: (Inr b)
    show ?thesis using complete_ok [OF assms dv]
      by (auto simp: Inr body_outcome_def dv worker_except_def terminal_def)
  qed
qed

text \<open>The whole of \<open>_run\<close>, branch by branch.\<close>

lemma settle_spec:
  assumes "inv s" "runs_in S (view s) j0" "same_job j j0" "fits_job fits j"
  shows "case settled_job S reg j ending of
      Some j' \<Rightarrow> terminal (status j') \<and> (\<exists>s'. worker_settle S B reg j ending s = (Inr (), s') \<and> inv s' \<and>
        waiting s' = waiting s \<and> view s' = (view s)(jid j0 := job_view S j'))
    | None \<Rightarrow> worker_settle S B reg j ending s = (Inl CancelledError, s)"
proof -
  consider "request_cancel j" | "\<not> request_cancel j" "map_of reg (task_name j) = None"
    | t where "\<not> request_cancel j" "map_of reg (task_name j) = Some t" by (cases "map_of reg (task_name j)") auto
  then show ?thesis
  proof cases
    case 1
    then show ?thesis using save_cancelled [OF assms] by (auto simp: worker_settle_def settled_job_def terminal_def)
  next
    case 2
    let ?j = "j\<lparr>error := Some (''no task is registered under the name '' @ py_repr (task_name j)), status := FAILED\<rparr>"
    have "\<exists>s'. worker_save S B ?j s = (Inr (), s') \<and> inv s' \<and> waiting s' = waiting s \<and>
        view s' = (view s)(jid j0 := job_view S ?j)"
      by (rule save_failed [OF assms]) (simp_all add: same_job_def)
    with 2 show ?thesis by (auto simp: worker_settle_def settled_job_def terminal_def)
  next
    case (3 t)
    then have run: "worker_settle S B reg j ending s = worker_except S B (worker_try S B j ending s)"
      by (simp add: worker_settle_def)
    show ?thesis
    proof (cases ending)
      case (JobDone r)
      show ?thesis unfolding run using body_spec [OF assms, of r] 3
        by (simp add: JobDone settled_job_def worker_try_def split: option.splits)
    next
      case (WatcherDied e r)
      show ?thesis unfolding run using body_spec [OF assms, of r] 3
        by (simp add: WatcherDied settled_job_def worker_try_def split: option.splits)
    next
      case (CancelSeen u)
      show ?thesis unfolding run using save_cancelled [OF assms] 3
        by (auto simp: CancelSeen settled_job_def worker_try_def worker_except_def terminal_def)
    qed
  qed
qed

lemma run_spec:
  assumes "inv s" "runs_in S (view s) j0" "same_job j j0" "fits_job fits j"
  shows "case final_job S reg j race of
      Some j' \<Rightarrow> terminal (status j') \<and> (\<exists>s'. worker_run S B reg j race s =
        ((if stops_loop S reg j race then Inl CancelledError else Inr ()), s') \<and> inv s' \<and>
        waiting s' = waiting s \<and> view s' = (view s)(jid j0 := job_view S j'))
    | None \<Rightarrow> worker_run S B reg j race s = (Inl CancelledError, s)"
proof (cases race)
  case (Ends e)
  with settle_spec [OF assms, of reg e] show ?thesis
    by (cases "settled_job S reg j e") (simp_all add: worker_run_def final_job_def stops_loop_def)
next
  case Interrupted
  then show ?thesis by (simp add: worker_run_def final_job_def)
next
  case (InterruptedAfter e)
  show ?thesis
  proof (cases "settled_job S reg j e")
    case None
    with InterruptedAfter settle_spec [OF assms, of reg e] show ?thesis by (simp add: worker_run_def final_job_def)
  next
    case (Some j')
    with settle_spec [OF assms, of reg e] obtain s' where "terminal (status j')"
      "worker_settle S B reg j e s = (Inr (), s')" "inv s'" "waiting s' = waiting s"
      "view s' = (view s)(jid j0 := job_view S j')" by auto
    with InterruptedAfter Some show ?thesis by (simp add: worker_run_def final_job_def stops_loop_def)
  qed
qed

lemma same_job_refl: "same_job j j"
  by (simp add: same_job_def)

lemma same_job_norm: "same_job (norm_job norm j) j"
  by (simp add: same_job_def norm_job_def)

lemma record_id:
  assumes "job_view S j = Some (map_of r)"
  shows "get_str r ''id'' = Inr (jid j)"
proof -
  obtain r' where "to_record S j = Inr r'" "map_of r' = map_of r" using assms by (auto simp: job_view_Some)
  then have "map_of r ''id'' = Some (Str (jid j))" by (metis to_record_fields)
  then show ?thesis by (simp add: get_str_def field_str_def)
qed

lemma runs_in_release:
  assumes "inv s" "runs_in S (view s) j"
  shows "\<exists>s'. b_release B (jid j) s = (Inr (), s') \<and> inv s' \<and> waiting s' = waiting s @ [jid j] \<and>
    view s' = (view s)(jid j := job_view S (j\<lparr>status := QUEUED\<rparr>))"
proof -
  obtain m where m: "view s (jid j) = Some m" "job_view S j = Some m"
    using assms(2) by (auto simp: runs_in_def)
  have j: "status j = RUNNING" using assms(2) by (simp add: runs_in_def)
  have "job_view S (j\<lparr>status := QUEUED\<rparr>) = Some (m(''status'' \<mapsto> Str (status_value QUEUED)))"
    by (rule job_view_update(1) [OF m(2)]) (simp_all add: j)
  then show ?thesis
    using release_running [OF assms(1) m(1)] job_view_fields(1) [OF m(2), of RUNNING] j by auto
qed

lemma finished_release:
  assumes "inv s" "view s i = job_view S j" "terminal (status j)" "view s i \<noteq> None"
  shows "b_release B i s = (Inr (), s)"
proof -
  obtain m where m: "view s i = Some m" "job_view S j = Some m" using assms(2,4) by auto
  have "\<not> status_in m RUNNING" using job_view_fields(1) [OF m(2), of RUNNING] assms(3) by (auto simp: terminal_def)
  then show ?thesis using release_other [OF assms(1) m(1)] by simp
qed

lemma final_job_written:
  assumes "fits_job fits j" "final_job S reg j race = Some j'"
  shows "job_view S j' \<noteq> None"
proof -
  have "\<exists>r. to_record S j' = Inr r" if "status j' \<noteq> COMPLETED"
    using assms(2) that
    by (intro to_record_open [OF assms(1)])
      (auto simp: final_job_def settled_job_def body_outcome_def split: if_splits option.splits sum.splits race.splits ending.splits)
  moreover have "\<exists>v. j' = j\<lparr>result := v, status := COMPLETED\<rparr> \<and> isOk (dumps S v)" if "status j' = COMPLETED"
    using assms(2) that
    by (auto simp: final_job_def settled_job_def body_outcome_def split: if_splits option.splits sum.splits race.splits ending.splits)
  ultimately have "\<exists>r. to_record S j' = Inr r" using to_record_completed(1) [OF assms(1)] by blast
  then show ?thesis by (auto simp: job_view_def)
qed

text \<open>Serving a claimed record: \<open>j\<close> is the job as it was claimed, \<open>j0\<close> as the store has it
  now, which may have been flagged for cancellation since.\<close>

lemma serve_spec:
  assumes "inv s" "runs_in S (view s) j0" "same_job j j0" "fits_job fits j" "job_view S j = Some (map_of r)"
  shows "case final_job S reg (norm_job norm j) race of
      Some j' \<Rightarrow> terminal (status j') \<and> (\<exists>s'. worker_serve S B reg r race s =
        ((if stops_loop S reg (norm_job norm j) race then Stopped CancelledError else Continue), s') \<and> inv s' \<and>
        waiting s' = waiting s \<and> view s' = (view s)(jid j0 := job_view S j'))
    | None \<Rightarrow> (\<exists>s'. worker_serve S B reg r race s = (Stopped CancelledError, s') \<and> inv s' \<and>
        waiting s' = waiting s @ [jid j0] \<and> view s' = (view s)(jid j0 := job_view S (j0\<lparr>status := QUEUED\<rparr>)))"
proof (cases "final_job S reg (norm_job norm j) race")
  case None
  with run_spec [OF assms(1,2) _ fits_norm_job [OF assms(4)], of reg race] same_job_norm [of j] assms(3)
  have "worker_process S B reg r race s = (Inl CancelledError, s)"
    by (simp add: worker_process_def read_back [OF assms(4,5)] same_job_def)
  with None runs_in_release [OF assms(1,2)] assms(3) show ?thesis
    by (auto simp: worker_serve_def record_id [OF assms(5)] same_job_def)
next
  case (Some j')
  with run_spec [OF assms(1,2) _ fits_norm_job [OF assms(4)], of reg race] same_job_norm [of j] assms(3) obtain s' where
    t: "terminal (status j')" and
    s': "worker_process S B reg r race s =
        ((if stops_loop S reg (norm_job norm j) race then Inl CancelledError else Inr ()), s')" "inv s'"
      "waiting s' = waiting s" "view s' = (view s)(jid j0 := job_view S j')"
    by (auto simp: worker_process_def read_back [OF assms(4,5)] same_job_def)
  have "b_release B (jid j0) s' = (Inr (), s')"
    using finished_release [OF s'(2) _ t] s'(4) final_job_written [OF fits_norm_job [OF assms(4)] Some] by simp
  with s' t Some assms(3) show ?thesis
    by (auto simp: worker_serve_def record_id [OF assms(5)] same_job_def)
qed

text \<open>One turn of the loop on a queued job: claim, then serve.\<close>

lemma iteration_spec:
  assumes "inv s" "waiting s = jid j # q" "view s (jid j) = job_view S j" "job_view S j \<noteq> None"
    "fits_job fits j" "\<not> terminal (status j)" "error j = None" "0 \<le> attempts j" "attempts j < max_attempts"
    "c = j\<lparr>status := RUNNING, attempts := attempts j + 1\<rparr>"
  shows "case final_job S reg (norm_job norm c) race of
      Some j' \<Rightarrow> terminal (status j') \<and> (\<exists>s'. worker_iteration S B reg race s =
        ((if stops_loop S reg (norm_job norm c) race then Stopped CancelledError else Continue), s') \<and> inv s' \<and>
        waiting s' = q \<and> view s' = (view s)(jid j := job_view S j'))
    | None \<Rightarrow> (\<exists>s'. worker_iteration S B reg race s = (Stopped CancelledError, s') \<and> inv s' \<and>
        waiting s' = q @ [jid j] \<and> view s' = (view s)(jid j := job_view S (c\<lparr>status := QUEUED\<rparr>)))"
proof -
  obtain m where m: "view s (jid j) = Some m" "job_view S j = Some m" using assms(3,4) by auto
  have open_j: "status j \<noteq> COMPLETED" using assms(6) by (auto simp: terminal_def)
  obtain r s1 where s1: "b_claim B s = (Inr (Some r), s1)" "inv s1" "view s1 = (view s)(jid j \<mapsto> map_of r)"
    "waiting s1 = q"
    "map_of r = m(''status'' \<mapsto> Str (status_value RUNNING), ''attempts'' \<mapsto> Str (str_of_int (attempts j + 1)))"
    using claim_some [OF assms(1,2) m(1)] job_view_fields [OF m(2)] assms(6,9) by blast
  have "job_view S (j\<lparr>status := RUNNING\<rparr>) = Some (m(''status'' \<mapsto> Str (status_value RUNNING)))"
    by (rule job_view_update(1) [OF m(2) open_j]) simp
  from job_view_update(2) [OF this, of "attempts j + 1"] s1(5)
  have c: "job_view S c = Some (map_of r)" by (simp add: assms(10))
  have "jid c = jid j" by (simp add: assms(10))
  moreover have "runs_in S (view s1) c"
    using c s1(3) assms(7,8) by (simp add: runs_in_def assms(10))
  moreover have "fits_job fits c" using assms(5) open_j by (simp add: fits_job_def assms(10))
  ultimately show ?thesis
    using serve_spec [OF s1(2) _ _ _ c, of c reg race] s1 same_job_refl
    by (auto simp: worker_iteration_def split: option.splits)
qed

lemma job_view_total: "fits_job fits j \<Longrightarrow> \<exists>m. job_view S j = Some m"
  using to_record_total [of j] by (auto simp: job_view_def)

text \<open>The round trip of a job through the whole system.\<close>

lemma submit_serve_result:
  assumes "inv s" "waiting s = []" "view s (jid j) = None"
    "j = Job_init fresh now (t_name t) ident as ks gid" "fits_job fits j"
    "map_of reg (t_name t) \<noteq> None" "fits v"
  shows "\<exists>h s1 s2 h' s3. submit S B t fresh now gid ident as ks s = (Inr h, s1) \<and>
    handle_result S B h s1 = (Pending, h, s1) \<and>
    worker_iteration S B reg (Ends (JobDone (Inr v))) s1 = (Continue, s2) \<and>
    handle_result S B h s2 = (Ready (Inr (norm v)), h', s3) \<and>
    view s3 = view s \<and> waiting s3 = [] \<and> inv s3"
proof -
  let ?q = "j\<lparr>status := QUEUED\<rparr>" and ?h = "JobHandle_init (jid j)"
  let ?c = "?q\<lparr>status := RUNNING, attempts := attempts ?q + 1\<rparr>"
  let ?d = "(norm_job norm ?c)\<lparr>result := v, status := COMPLETED\<rparr>"
  have j: "status j = CREATED" "attempts j = 0" "request_cancel j = False" "error j = None" "task_name j = t_name t"
    using assms(4) by (simp_all add: Job_init_def)
  obtain s1 where s1: "submit S B t fresh now gid ident as ks s = (Inr ?h, s1)" "inv s1"
    "waiting s1 = [jid j]" "view s1 = (view s)(jid j := job_view S ?q)"
    using submit_new [OF assms(1,3,5,4)] assms(2) by auto
  have q: "fits_job fits ?q" using assms(5) j by (simp add: fits_job_def)
  then obtain m where m: "job_view S ?q = Some m" using job_view_total by blast
  have "handle_result S B ?h s1 = (Pending, ?h, s1)"
    using result_waits [OF s1(2), of "jid j" m ?h] s1(4) m job_view_fields(4) [OF m]
    by (simp add: JobHandle_init_def terminal_def)
  moreover have fd: "final_job S reg (norm_job norm ?c) (Ends (JobDone (Inr v))) = Some ?d"
    using dumps_fits [OF assms(7)] assms(6) j
    by (auto simp: final_job_def settled_job_def body_outcome_def norm_job_def)
  moreover have "\<not> stops_loop S reg (norm_job norm ?c) (Ends (JobDone (Inr v)))"
    using fd by (simp add: stops_loop_def)
  ultimately obtain s2 where s2: "worker_iteration S B reg (Ends (JobDone (Inr v))) s1 = (Continue, s2)" "inv s2"
    "waiting s2 = []" "view s2 = (view s1)(jid j := job_view S ?d)"
    using iteration_spec [OF s1(2), of ?q "[]" ?c reg "Ends (JobDone (Inr v))"] s1(3,4) q m j
    by (auto simp: terminal_def max_attempts_def)
  have c: "fits_job fits ?c" using assms(5) by (simp add: fits_job_def)
  have d: "fits_job fits ?d" using fits_norm_job [OF c] assms(7) by (simp add: fits_job_def)
  then have "job_view S ?d \<noteq> None" using job_view_total by auto
  then obtain h' s3 where "handle_result S B ?h s2 = (Ready (job_outcome (jid j) (norm_job norm ?d)), h', s3)"
    "inv s3" "view s3 = (view s2)(jid j := None)" "waiting s3 = []"
    using result_finished [OF s2(2) d, of "jid j" ?h] s2(3,4) by (auto simp: JobHandle_init_def terminal_def)
  moreover have "job_outcome (jid j) (norm_job norm ?d) = Inr (norm v)"
    by (simp add: job_outcome_def norm_job_def)
  moreover have "(view s)(jid j := None) = view s" using assms(3) by auto
  ultimately show ?thesis
    using s1 s2 \<open>handle_result S B ?h s1 = (Pending, ?h, s1)\<close> by (intro exI conjI) (assumption, simp_all)
qed

end

section \<open>Draining a queue\<close>

text \<open>A race that neither interrupts the loop nor lets a cancellation out of the body.\<close>

definition calm_result :: "serializer \<Rightarrow> pyval res \<Rightarrow> bool" where
  "calm_result S r \<longleftrightarrow>
     (case r of Inl e \<Rightarrow> is_Exception e
      | Inr v \<Rightarrow> (case dumps S v of Inl e \<Rightarrow> is_Exception e | Inr _ \<Rightarrow> True))"

definition calm :: "serializer \<Rightarrow> race \<Rightarrow> bool" where
  "calm S race \<longleftrightarrow>
     (case race of
        Ends ending \<Rightarrow>
          (case ending of JobDone r \<Rightarrow> calm_result S r | WatcherDied e r \<Rightarrow> calm_result S r | CancelSeen u \<Rightarrow> True)
      | Interrupted \<Rightarrow> False
      | InterruptedAfter ending \<Rightarrow> False)"

lemma calm_final: "calm S race \<Longrightarrow> final_job S reg j race \<noteq> None \<and> \<not> stops_loop S reg j race"
  by (auto simp: calm_def calm_result_def final_job_def settled_job_def body_outcome_def stops_loop_def
      split: race.splits ending.splits sum.splits)

text \<open>A job that waits in the store.\<close>

definition waits_in :: "serializer \<Rightarrow> (pyval \<Rightarrow> bool) \<Rightarrow> (string \<Rightarrow> rec_view option) \<Rightarrow> string \<Rightarrow> bool" where
  "waits_in S fits v i \<longleftrightarrow>
     (\<exists>j. jid j = i \<and> v i = job_view S j \<and> fits_job fits j \<and> \<not> terminal (status j) \<and> error j = None \<and>
        0 \<le> attempts j \<and> attempts j < max_attempts)"

definition finished_in :: "(string \<Rightarrow> rec_view option) \<Rightarrow> string \<Rightarrow> bool" where
  "finished_in v i \<longleftrightarrow> (\<exists>m. v i = Some m \<and> terminal_in m)"

context client
begin

lemma iteration_finishes:
  assumes "inv s" "waiting s = i # q" "waits_in S fits (view s) i" "calm S race"
  shows "\<exists>s'. worker_iteration S B reg race s = (Continue, s') \<and> inv s' \<and> waiting s' = q \<and>
    finished_in (view s') i \<and> (\<forall>k. k \<noteq> i \<longrightarrow> view s' k = view s k)"
proof -
  obtain j where j: "jid j = i" "view s i = job_view S j" "fits_job fits j" "\<not> terminal (status j)"
    "error j = None" "0 \<le> attempts j" "attempts j < max_attempts"
    using assms(3) by (auto simp: waits_in_def)
  obtain m where "job_view S j = Some m" using job_view_total [OF j(3)] by blast
  then have jv: "job_view S j \<noteq> None" by simp
  let ?c = "j\<lparr>status := RUNNING, attempts := attempts j + 1\<rparr>"
  obtain j' where j': "final_job S reg (norm_job norm ?c) race = Some j'"
    "\<not> stops_loop S reg (norm_job norm ?c) race"
    using calm_final [OF assms(4)] by blast
  have "fits_job fits ?c" using j(3) by (simp add: fits_job_def)
  then have "job_view S j' \<noteq> None" using final_job_written [OF fits_norm_job j'(1)] by simp
  then obtain m' where m': "job_view S j' = Some m'" by blast
  obtain s' where s': "terminal (status j')" "worker_iteration S B reg race s = (Continue, s')" "inv s'"
    "waiting s' = q" "view s' = (view s)(i := job_view S j')"
    using iteration_spec [OF assms(1), of j q ?c reg race] assms(2) j jv j' by auto
  moreover have "finished_in (view s') i"
    using s'(1,5) m' job_view_fields(4) [OF m'] by (simp add: finished_in_def)
  ultimately show ?thesis by auto
qed

text \<open>A loop that runs as many calm turns as there are waiting jobs finishes them all.\<close>

lemma loop_drains:
  assumes "inv s" "waiting s = is @ q" "distinct is" "\<forall>i \<in> set is. waits_in S fits (view s) i"
    "length races = length is" "\<forall>race \<in> set races. calm S race"
  shows "\<exists>s'. worker_loop S B reg races s = (Continue, s') \<and> inv s' \<and> waiting s' = q \<and>
    (\<forall>i \<in> set is. finished_in (view s') i) \<and> (\<forall>k. k \<notin> set is \<longrightarrow> view s' k = view s k)"
  using assms
proof (induction "is" arbitrary: s races)
  case Nil
  then show ?case by simp
next
  case (Cons i "is")
  then obtain race races' where races: "races = race # races'" by (cases races) auto
  obtain s1 where s1: "worker_iteration S B reg race s = (Continue, s1)" "inv s1" "waiting s1 = is @ q"
    "finished_in (view s1) i" "\<forall>k. k \<noteq> i \<longrightarrow> view s1 k = view s k"
    using iteration_finishes [OF Cons.prems(1), of i "is @ q" race reg] Cons.prems by (auto simp: races)
  have w: "\<forall>k \<in> set is. waits_in S fits (view s1) k"
  proof
    fix k assume k: "k \<in> set is"
    then have "view s1 k = view s k" using s1(5) Cons.prems(3) by auto
    with Cons.prems(4) k show "waits_in S fits (view s1) k" by (auto simp: waits_in_def)
  qed
  obtain s' where s': "worker_loop S B reg races' s1 = (Continue, s')" "inv s'" "waiting s' = q"
    "\<forall>k \<in> set is. finished_in (view s') k" "\<forall>k. k \<notin> set is \<longrightarrow> view s' k = view s1 k"
    using Cons.IH [OF s1(2,3) _ w, of races'] Cons.prems by (auto simp: races)
  have "finished_in (view s') i" using s1(4) s'(5) Cons.prems(3) by (simp add: finished_in_def)
  with s' s1 show ?case by (auto simp: races)
qed

text \<open>A job cancelled while it waits never runs: whatever its body would have done, the turn that
  claims it stores it cancelled, and its handle raises, unless the loop is interrupted before the
  write; then the job waits again, still flagged.\<close>

lemma cancel_before_claim:
  assumes "inv s" "waiting s = jid j # q" "view s (jid j) = job_view S j" "fits_job fits j"
    "\<not> terminal (status j)" "error j = None" "0 \<le> attempts j" "attempts j < max_attempts"
    "h_job_id h = jid j" "h_job h = None"
  shows "\<exists>s1 s2. handle_cancel B h s = (Inr (), s1) \<and>
    worker_iteration S B reg race s1 =
      ((case race of Ends _ \<Rightarrow> Continue | _ \<Rightarrow> Stopped CancelledError), s2) \<and> inv s2 \<and>
    (if race = Interrupted
     then waiting s2 = q @ [jid j] \<and> view s2 = (view s)(jid j :=
       job_view S (j\<lparr>request_cancel := True, attempts := attempts j + 1, status := QUEUED\<rparr>))
     else \<exists>h' s3. handle_result S B h s2 =
         (Ready (Inl (JobCancelled (''job '' @ py_repr (jid j) @ '' was cancelled''))), h', s3) \<and>
       view s3 = (view s)(jid j := None) \<and> waiting s3 = q \<and> inv s3)"
proof -
  let ?f = "j\<lparr>request_cancel := True\<rparr>"
  let ?c = "?f\<lparr>status := RUNNING, attempts := attempts ?f + 1\<rparr>"
  let ?d = "(norm_job norm ?c)\<lparr>status := CANCELLED\<rparr>"
  have open_j: "status j \<noteq> COMPLETED" using assms(5) by (auto simp: terminal_def)
  obtain m where m: "job_view S j = Some m" using job_view_total [OF assms(4)] by blast
  have f: "job_view S ?f = Some (m(''request_cancel'' \<mapsto> Str ''1''))"
    using job_view_update(3) [OF m open_j, of True] str_of_int_0_1 by simp
  obtain s1 where s1: "b_request_cancel B (jid j) s = (Inr (), s1)" "inv s1" "waiting s1 = waiting s"
    "view s1 = (view s)(jid j := job_view S ?f)"
    using cancel_active [OF assms(1), of "jid j" m] assms(3,5) m f job_view_fields(4) [OF m] by auto
  then have c: "handle_cancel B h s = (Inr (), s1)" using assms(9) by (simp add: handle_cancel_def)
  have fits: "fits_job fits ?f" "fits_job fits ?c" using assms(4) open_j by (simp_all add: fits_job_def)
  note turn = iteration_spec [OF s1(2), of ?f q ?c reg race]
  show ?thesis
  proof (cases "race = Interrupted")
    case True
    then have "final_job S reg (norm_job norm ?c) race = None" by (simp add: final_job_def)
    with turn s1(3,4) assms(2,5-8) f fits obtain s2 where
      "worker_iteration S B reg race s1 = (Stopped CancelledError, s2)" "inv s2" "waiting s2 = q @ [jid j]"
      "view s2 = (view s1)(jid j := job_view S (?c\<lparr>status := QUEUED\<rparr>))" by auto
    with c s1(4) True show ?thesis by auto
  next
    case False
    have fin: "final_job S reg (norm_job norm ?c) race = Some ?d"
      "stops_loop S reg (norm_job norm ?c) race \<longleftrightarrow> (\<exists>ending. race = InterruptedAfter ending)"
      using False by (cases race; simp add: final_job_def settled_job_def stops_loop_def norm_job_def)+
    obtain s2 where s2: "worker_iteration S B reg race s1 =
        ((case race of Ends _ \<Rightarrow> Continue | _ \<Rightarrow> Stopped CancelledError), s2)" "inv s2" "waiting s2 = q"
      "view s2 = (view s1)(jid j := job_view S ?d)"
      using turn s1(3,4) assms(2,5-8) f fits fin False by (cases race) auto
    have d: "fits_job fits ?d" using fits_norm_job [OF fits(2)] by (simp add: fits_job_def)
    then obtain h' s3 where "handle_result S B h s2 = (Ready (job_outcome (jid j) (norm_job norm ?d)), h', s3)"
      "inv s3" "view s3 = (view s2)(jid j := None)" "waiting s3 = q"
      using result_finished [OF s2(2) d, of "jid j" h] s2(3,4) assms(9,10) job_view_total [OF d]
      by (auto simp: terminal_def)
    moreover have "job_outcome (jid j) (norm_job norm ?d) =
        Inl (JobCancelled (''job '' @ py_repr (jid j) @ '' was cancelled''))"
      by (simp add: job_outcome_def norm_job_def)
    ultimately show ?thesis using c s1(4) s2 False by auto
  qed
qed

text \<open>Upkeep always comes back and leaves the waiting jobs in place.\<close>

lemma upkeep_total:
  assumes "inv s"
  shows "\<exists>s' ids. worker_upkeep B s = Some (Continue, s') \<and> inv s' \<and> waiting s' = waiting s @ ids"
proof -
  obtain s1 where s1: "b_heartbeat B s = (Inr (), s1)" "inv s1" "waiting s1 = waiting s"
    using heartbeat_frame [OF assms] by blast
  obtain s' n ids where "b_reap B s1 = Some (Inr n, s')" "inv s'" "waiting s' = waiting s1 @ ids"
    using reap_requeues [OF s1(2)] by blast
  with s1 show ?thesis by (auto simp: worker_upkeep_def)
qed

text \<open>A record that cannot be read back is skipped: the loop goes on, and the job keeps the
  state the claim gave it.\<close>

lemma poison_skipped:
  assumes "b_claim B s = (Inr (Some r), s')" "from_record S r = Inl e" "is_Exception e"
  shows "worker_iteration S B reg race s = (Continue, s')"
  using assms by (simp add: worker_iteration_def worker_serve_def worker_process_def)

end

end
