(* ===== verification/Stores.thy ===== *)
theory Stores
  imports Memory_Backend Redis_Contract Serializers Worker
begin

text \<open>
  The client contract on the program's own stores: the in-memory backend, and the Redis backend
  over any server with the documented commands, each with the JSON serializer. Everything proved
  in the locale \<open>client\<close> holds for both.
\<close>

interpretation mem_client: client MemoryBackend mem_inv mem_view m_queue JSONSerializer json_norm json_fits
  by unfold_locales

locale redis_client = redis_backend R c + codec S norm fits
  for R :: "'s redis" and c :: rb and S :: serializer
    and norm :: "pyval \<Rightarrow> pyval" and fits :: "pyval \<Rightarrow> bool"

sublocale redis_client \<subseteq> client "RedisBackend R c" "rb_valid R" "rb_records R" "rb_waiting R" S norm fits
  by unfold_locales

context redis_client
begin

lemma meets_client: "client (RedisBackend R c) (rb_valid R) (rb_records R) (rb_waiting R) S norm fits"
  by unfold_locales

end

interpretation mini_client: redis_client mini_redis mini_config JSONSerializer json_norm json_fits
  by unfold_locales

text \<open>A small task, its arguments and a time, for worked examples.\<close>

definition demo_task :: task_obj where
  "demo_task = \<lparr>t_func = (\<lambda>as ks. Ready (Inr (PTuple as))), t_name = ''m.f'', t_max_retries = 0\<rparr>"

definition demo_now :: datetime where
  "demo_now = \<lparr>year = 2024, month = 2, day = 29, hour = 1, minute = 2, second = 3, microsecond = 45\<rparr>"

definition demo_job :: job where
  "demo_job = Job_init ''f0'' demo_now (t_name demo_task) None [PInt 7, PStr ''x''] [(''k'', PNone)] None"

lemma demo_job_fits: "fits_job json_fits demo_job"
  by (simp add: demo_job_def Job_init_def fits_job_def demo_now_def valid_datetime_def
      days_in_month_def is_leap_def is_dict_def)

definition demo_reg :: "task_obj pydict" where
  "demo_reg = [(t_name demo_task, demo_task)]"

text \<open>The in-memory store right after the demo job was submitted.\<close>

definition demo_queued :: mem where
  "demo_queued = snd (submit JSONSerializer MemoryBackend demo_task ''f0'' demo_now None None
     [PInt 7, PStr ''x''] [(''k'', PNone)] mem_init)"

lemma demo_job_id: "jid demo_job = ''f0''"
  by (simp add: demo_job_def Job_init_def)

lemma demo_queued_holds:
  "mem_inv demo_queued" "m_queue demo_queued = [''f0'']"
  "mem_view demo_queued ''f0'' = job_view JSONSerializer (demo_job\<lparr>status := QUEUED\<rparr>)"
proof -
  have "mem_view mem_init (jid demo_job) = None" by (simp add: mem_view_def mem_init_def)
  from mem_client.submit_new [OF mem_inv_init this demo_job_fits demo_job_def]
  show "mem_inv demo_queued" "m_queue demo_queued = [''f0'']"
    "mem_view demo_queued ''f0'' = job_view JSONSerializer (demo_job\<lparr>status := QUEUED\<rparr>)"
    by (auto simp: demo_queued_def demo_job_id mem_init_def)
qed

text \<open>The store after a worker that does not know the task served the demo job.\<close>

definition demo_finished :: mem where
  "demo_finished = snd (worker_iteration JSONSerializer MemoryBackend [] (Ends (CancelSeen True)) demo_queued)"

definition demo_failed :: job where
  "demo_failed = (norm_job json_norm (demo_job\<lparr>status := RUNNING, attempts := 1\<rparr>))
     \<lparr>error := Some (''no task is registered under the name '' @ py_repr ''m.f''), status := FAILED\<rparr>"

lemma demo_finished_holds:
  "mem_inv demo_finished" "mem_view demo_finished ''f0'' = job_view JSONSerializer demo_failed"
  "fits_job json_fits demo_failed" "mem_view demo_finished ''f0'' \<noteq> None"
proof -
  let ?j = "demo_job\<lparr>status := QUEUED\<rparr>"
  let ?c = "?j\<lparr>status := RUNNING, attempts := attempts ?j + 1\<rparr>"
  have f: "fits_job json_fits ?j" using demo_job_fits by (simp add: fits_job_def)
  have j: "jid ?j = ''f0''" "error ?j = None" "attempts ?j = 0" "\<not> request_cancel ?j" "task_name ?j = ''m.f''"
    by (simp_all add: demo_job_def Job_init_def demo_task_def)
  have c: "?c = demo_job\<lparr>status := RUNNING, attempts := 1\<rparr>" using j(3) by simp
  have fin: "final_job JSONSerializer [] (norm_job json_norm ?c) (Ends (CancelSeen True)) = Some demo_failed"
    "\<not> stops_loop JSONSerializer [] (norm_job json_norm ?c) (Ends (CancelSeen True))"
    using j(4,5) unfolding demo_failed_def c by (simp_all add: final_job_def settled_job_def stops_loop_def norm_job_def)
  have jv: "job_view JSONSerializer ?j \<noteq> None" using mem_client.job_view_total [OF f] by auto
  obtain s' where "worker_iteration JSONSerializer MemoryBackend [] (Ends (CancelSeen True)) demo_queued = (Continue, s')"
    "mem_inv s'" "mem_view s' = (mem_view demo_queued)(''f0'' := job_view JSONSerializer demo_failed)"
    using mem_client.iteration_spec [OF demo_queued_holds(1), of ?j "[]" ?c "[]" "Ends (CancelSeen True)"]
      demo_queued_holds(2,3) f j jv fin
    by (auto simp: terminal_def max_attempts_def)
  then show "mem_inv demo_finished" and v: "mem_view demo_finished ''f0'' = job_view JSONSerializer demo_failed"
    by (simp_all add: demo_finished_def)
  have "fits_job json_fits (norm_job json_norm (demo_job\<lparr>status := RUNNING, attempts := 1\<rparr>))"
    by (rule mem_client.fits_norm_job) (use demo_job_fits in \<open>simp add: fits_job_def\<close>)
  then show d: "fits_job json_fits demo_failed" by (simp add: demo_failed_def fits_job_def)
  show "mem_view demo_finished ''f0'' \<noteq> None" using mem_client.job_view_total [OF d] v by auto
qed

end
