(* ===== verification/Group_Properties.thy ===== *)
theory Group_Properties
  imports Job_Group Stores
begin

text \<open>
  What a scope of \<open>job_group.py\<close> promises and where it falls short, on the program's own stores
  and for every order in which its jobs end.
\<close>

section \<open>Properties of a scope\<close>

text \<open>(C14) The verdict of a \<open>cancel_siblings\<close> scope, for every order in which its jobs end: once all
  waiters are done and their callbacks have run, leaving the scope raises an exception group
  exactly when some job failed. The group holds every failure that is not a cancellation and
  nothing that did not happen; a cancellation is reported only if it was the first failure.\<close>

theorem siblings_scope_verdict:
  assumes "fresh_group g0" "group_event\<^sup>*\<^sup>* g0 g" "g_callbacks g = []" "all_done g"
  shows "fst (group_exit B None JoinOn g s) = (if \<exists>k e. failed_with g k e then group_error g else ExitNormal) \<and>
    (\<forall>k e. failed_with g k e \<longrightarrow> is_JobCancelled e \<or> e \<in> set (g_failures g)) \<and>
    (\<forall>e \<in> set (g_failures g). \<exists>k. failed_with g k e) \<and>
    (\<forall>e \<in> set (tl (g_failures g)). \<not> is_JobCancelled e)"
proof -
  note V = siblings_verdict [OF ok_run [OF assms(2) fresh_ok [OF assms(1)]] assms(3,4) run_handles [OF assms(2,1)]]
  have "is_JobCancelled e \<or> e \<in> set (g_failures g)" if "failed_with g k e" for k e
    using V(2) [OF that] by blast
  then show ?thesis using V(3,4) unfolding V(1) by blast
qed

definition demo_group :: group where
  "demo_group = group_enter 0 \<lparr>g_id = ''g'', g_on_error = CANCEL_SIBLINGS, g_deadline = None, g_deadline_at = None,
     g_handles = [], g_waiters = [], g_failures = [], g_entered = False, g_cancelling = False, g_fanout = None,
     g_fanned = False, g_callbacks = []\<rparr>"

text \<open>Two jobs; the first fails and its callback runs.\<close>

definition demo_failing :: group where
  "demo_failing = run_callback (waiter_done 0 (Inl (RuntimeError ''boom''))
     (group_register (JobHandle_init ''f1'') (group_register (JobHandle_init ''f0'') demo_group)))"

text \<open>Then the sibling ends, cancelled.\<close>

definition demo_over :: group where
  "demo_over = run_callback (waiter_done 1 (Inl (JobCancelled ''x'')) demo_failing)"

lemma demo_fresh: "fresh_group demo_group"
  by (simp add: demo_group_def fresh_group_def group_enter_def)

lemma demo_group_runs: "group_event\<^sup>*\<^sup>* demo_group demo_failing" "group_event\<^sup>*\<^sup>* demo_group demo_over"
proof -
  define g1 where "g1 = group_register (JobHandle_init ''f0'') demo_group"
  define g2 where "g2 = group_register (JobHandle_init ''f1'') g1"
  define g3 where "g3 = waiter_done 0 (Inl (RuntimeError ''boom'')) g2"
  define g5 where "g5 = waiter_done 1 (Inl (JobCancelled ''x'')) demo_failing"
  have f: "demo_failing = run_callback g3" by (simp add: demo_failing_def g1_def g2_def g3_def)
  have o: "demo_over = run_callback g5" by (simp add: demo_over_def g5_def)
  have 1: "group_event demo_group g1" unfolding g1_def
    by (rule ge_spawn) (simp_all add: demo_group_def group_enter_def)
  have 2: "group_event g1 g2" unfolding g2_def
    by (rule ge_spawn) (simp_all add: g1_def demo_group_def group_enter_def group_register_def)
  have 3: "group_event g2 g3" unfolding g3_def
    by (rule ge_done) (simp_all add: g1_def g2_def demo_group_def group_enter_def group_register_def)
  have 4: "group_event g3 demo_failing" unfolding f
    by (rule ge_call) (simp add: g1_def g2_def g3_def waiter_done_def demo_group_def group_enter_def group_register_def)
  have 5: "group_event demo_failing g5" unfolding g5_def by (rule ge_done) (code_simp, code_simp)
  have "g_callbacks g5 \<noteq> []" unfolding g5_def by code_simp
  then have 6: "group_event g5 demo_over" unfolding o by (rule ge_call)
  show r: "group_event\<^sup>*\<^sup>* demo_group demo_failing"
    using 1 2 3 4 by (meson converse_rtranclp_into_rtranclp rtranclp.rtrancl_refl)
  show "group_event\<^sup>*\<^sup>* demo_group demo_over"
    using r 5 6 by (meson rtranclp.rtrancl_into_rtrancl)
qed

theorem siblings_scope_verdict_witness:
  "fst (group_exit MemoryBackend None JoinOn demo_over mem_init) =
     ExitGroup ''one or more jobs in group g failed'' [RuntimeError ''boom'']"
proof -
  have "g_callbacks demo_over = []" "all_done demo_over" by (code_simp, code_simp)
  from siblings_scope_verdict [OF demo_fresh demo_group_runs(2) this, of MemoryBackend mem_init]
  have v: "fst (group_exit MemoryBackend None JoinOn demo_over mem_init) =
    (if \<exists>k e. failed_with demo_over k e then group_error demo_over else ExitNormal)" by blast
  have "failed_with demo_over 0 (RuntimeError ''boom'')" by code_simp
  moreover have "group_error demo_over = ExitGroup ''one or more jobs in group g failed'' [RuntimeError ''boom'']"
    by code_simp
  ultimately show ?thesis using v by auto
qed

text \<open>(C39) A job spawned into a \<open>cancel_siblings\<close> scope after a sibling has failed is out of the
  fan-out's reach: the fan-out is scheduled once, with the jobs that ran at that moment, and the
  join takes the flag it set as done, so it waits for the late job without ever cancelling it.\<close>

theorem late_spawn_is_not_cancelled:
  assumes "g_on_error g = CANCEL_SIBLINGS" "g_entered g" "g_cancelling g"
    "group_spawn S B t fresh now current as ks g s = (Inr h, current', g', s')"
  shows "waiting_id g' (h_job_id h) \<and> g_fanout g' = g_fanout g \<and>
    group_join B g' s'' = (Pending, g', s'')"
proof -
  from assms(4) have g': "g' = group_register h g"
    by (auto simp: group_spawn_def split: prod.splits sum.splits)
  have w: "g_waiters g' = g_waiters g @ [(h_job_id h, Waiting)]" "g_cancelling g'" "g_fanout g' = g_fanout g"
    "g_on_error g' = CANCEL_SIBLINGS"
    using assms(1-3) by (simp_all add: g' group_register_def Let_def)
  then have "\<not> all_done g'" by (simp add: all_done_def)
  with w show ?thesis
    by (auto simp: waiting_id_def group_join_def cancel_siblings_mode_def wait_first_exception_def)
qed

text \<open>A job spawned into a group before \<open>async with\<close> enters it has a handle but no waiter. If
  it is the only one, leaving a \<open>cancel_siblings\<close> scope raises \<open>ValueError\<close>, because the join
  waits on an empty set.\<close>

lemma spawn_before_enter_breaks_exit:
  assumes "JobGroup_init gid ''cancel_siblings'' deadline = Inr g"
    "group_spawn S B t fresh now current as ks g s = (Inr h, current', g', s')"
  shows "fst (group_exit B None JoinOn (group_enter clock0 g') s'') =
    ExitRaises (ValueError ''Set of Tasks/Futures is empty.'')"
proof -
  from assms(2) have g': "g' = group_register h g"
    by (auto simp: group_spawn_def split: prod.splits sum.splits)
  have "AList.update k v d \<noteq> []" for k v and d :: "job_handle pydict" by (cases d) auto
  with assms(1) have "g_handles g' \<noteq> []" "g_waiters g' = []" "g_on_error g' = CANCEL_SIBLINGS"
    by (auto simp: g' group_register_def JobGroup_init_def OnError_of_def)
  then show ?thesis
    by (simp add: group_exit_def group_enter_def group_join_def cancel_siblings_mode_def wait_first_exception_def
        split: prod.splits)
qed

text \<open>A backend error during teardown is not swallowed: if the batch cancel of a scope left by an
  exception fails, its error replaces the exception of the body.\<close>

lemma teardown_error_replaces_body_error:
  assumes "b_request_cancel_many B (map (\<lambda>(k, h). h_job_id h) (g_handles g)) s = (Inl lost, s')"
  shows "fst (group_exit B (Some e) how g s) = ExitRaises lost"
  using assms by (simp add: group_exit_def cancel_and_raise_def cancel_all_jobs_def)

lemma demo_submit_ok:
  "\<exists>h s'. submit JSONSerializer MemoryBackend demo_task ''f2'' demo_now gid None [] [] mem_init = (Inr h, s')"
proof -
  have "fits_job json_fits (Job_init ''f2'' demo_now (t_name demo_task) None [] [] gid)"
    by (simp add: Job_init_def fits_job_def demo_now_def valid_datetime_def days_in_month_def is_leap_def is_dict_def)
  from mem_client.submit_new [OF mem_inv_init _ this refl] show ?thesis
    by (auto simp: mem_view_def mem_init_def)
qed

lemma demo_spawn_ok:
  "\<exists>h g' s'. group_spawn JSONSerializer MemoryBackend demo_task ''f2'' demo_now None [] [] g mem_init = (Inr h, None, g', s')"
  using demo_submit_ok [of "if g_entered g then Some (g_id g) else None"]
  by (auto simp: group_spawn_def child_id_def)

theorem late_spawn_is_not_cancelled_witness:
  "\<exists>h g' s'. group_spawn JSONSerializer MemoryBackend demo_task ''f2'' demo_now None [] [] demo_failing mem_init =
      (Inr h, None, g', s') \<and> group_join MemoryBackend g' s' = (Pending, g', s')"
proof -
  have g: "g_on_error demo_failing = CANCEL_SIBLINGS" "g_entered demo_failing" "g_cancelling demo_failing"
    by (code_simp, code_simp, code_simp)
  obtain h g' s' where
    "group_spawn JSONSerializer MemoryBackend demo_task ''f2'' demo_now None [] [] demo_failing mem_init = (Inr h, None, g', s')"
    using demo_spawn_ok by blast
  with late_spawn_is_not_cancelled [OF g this] show ?thesis by blast
qed

definition demo_outside :: group where
  "demo_outside = \<lparr>g_id = ''g'', g_on_error = CANCEL_SIBLINGS, g_deadline = None, g_deadline_at = None,
     g_handles = [], g_waiters = [], g_failures = [], g_entered = False, g_cancelling = False, g_fanout = None,
     g_fanned = False, g_callbacks = []\<rparr>"

theorem spawn_before_enter_breaks_exit_witness:
  "\<exists>h g' s'. group_spawn JSONSerializer MemoryBackend demo_task ''f2'' demo_now None [] [] demo_outside mem_init =
      (Inr h, None, g', s') \<and>
    fst (group_exit MemoryBackend None JoinOn (group_enter 0 g') s') =
      ExitRaises (ValueError ''Set of Tasks/Futures is empty.'')"
proof -
  have i: "JobGroup_init ''g'' ''cancel_siblings'' None = Inr demo_outside"
    by (simp add: JobGroup_init_def OnError_of_def demo_outside_def)
  obtain h g' s' where
    "group_spawn JSONSerializer MemoryBackend demo_task ''f2'' demo_now None [] [] demo_outside mem_init = (Inr h, None, g', s')"
    using demo_spawn_ok by blast
  with spawn_before_enter_breaks_exit [OF i this] show ?thesis by blast
qed

text \<open>The fan-out of a failed child reaches every sibling: in any run of a \<open>cancel_siblings\<close> scope,
  once a failure has been seen, the batch request it scheduled flags every job of the scope that
  still runs, on every store that keeps the contract; a sibling that has already finished keeps
  its outcome.\<close>

lemma failure_cancels_running_siblings:
  assumes "backend_contract B valid view waiting" "valid s" "fresh_group g0" "group_event\<^sup>*\<^sup>* g0 g"
    "g_failures g \<noteq> []" "\<not> g_fanned g"
  shows "\<exists>g' s'. run_fanout B g s = (g', s') \<and> valid s' \<and> waiting s' = waiting s \<and> g_fanned g' \<and>
    (\<forall>i. waiting_id g i \<longrightarrow> view s' i = map_option flagged (view s i))"
proof -
  have ok: "group_ok g" by (rule ok_run [OF assms(4) fresh_ok [OF assms(3)]])
  then have "g_cancelling g" using group_okD(2) assms(5) by blast
  from backend_contract.fanout_flags [OF assms(1,2) ok this assms(6)] show ?thesis .
qed

text \<open>(C18) Whichever way a scope is left early (an exception of its body, its deadline, cancellation of
  the task that awaits it), every child that is still active is flagged for cancellation before
  the exception goes on, and no local waiter is left behind.\<close>

theorem early_exit_cancels_children:
  assumes "backend_contract B valid view waiting" "valid s"
    "(exc, how, e) \<in> {(Some x, how0, x), (None, JoinDeadline, TimeoutError), (None, JoinCancelled, CancelledError)}"
    "how = JoinDeadline \<longrightarrow> g_deadline_at g \<noteq> None" "g_handles g \<noteq> []"
  shows "\<exists>g' s'. group_exit B exc how g s = (ExitRaises e, g', s') \<and> valid s' \<and> waiting s' = waiting s \<and>
    all_done g' \<and> (\<forall>i \<in> handle_ids g. view s' i = map_option flagged (view s i))"
proof -
  have "group_exit B exc how g s = cancel_and_raise B e g s"
    using assms(3-5) by (auto simp: group_exit_def)
  with backend_contract.exit_cancels [OF assms(1,2), of e g] show ?thesis by simp
qed

theorem early_exit_cancels_children_witness:
  "\<exists>g' s'. group_exit MemoryBackend (Some (UserError ''body'')) JoinOn demo_failing demo_queued =
      (ExitRaises (UserError ''body''), g', s') \<and> all_done g'"
proof -
  have "g_handles demo_failing \<noteq> []" by code_simp
  with early_exit_cancels_children [OF memory.backend_contract_axioms demo_queued_holds(1),
      of "Some (UserError ''body'')" JoinOn "UserError ''body''" "UserError ''body''" JoinOn demo_failing]
  show ?thesis by auto
qed

text \<open>The other two modes wait for every child: \<open>ignore\<close> never raises for a failed child, and
  \<open>collect\<close> raises exactly when some child ended with an exception, with one entry per such
  child in the order of the spawns.\<close>

lemma ignore_and_collect_verdict:
  assumes "all_done g" "g_handles g \<noteq> []"
  shows "(g_on_error g = IGNORE \<longrightarrow> fst (group_exit B None JoinOn g s) = ExitNormal) \<and>
    (g_on_error g = COLLECT \<longrightarrow>
       (fst (group_exit B None JoinOn g s) = ExitNormal \<longleftrightarrow>
          (\<forall>(i, w) \<in> set (g_waiters g). \<exists>v. w = Finished (Inr v))) \<and>
       length (gather_errors g) = length (filter (\<lambda>(i, w). \<nexists>v. w = Finished (Inr v)) (g_waiters g)))"
proof -
  have one: "length (case w of Finished (Inl e) \<Rightarrow> [e] | Dropped \<Rightarrow> [CancelledError] | _ \<Rightarrow> []) =
      (if \<exists>v. w = Finished (Inr v) then 0 else 1)" if "w \<noteq> Waiting" for w
    using that by (cases w) (auto split: sum.splits)
  have "length (gather_errors g) = length (filter (\<lambda>(i, w). \<nexists>v. w = Finished (Inr v)) (g_waiters g))"
  proof -
    have "length (concat (map (\<lambda>(i, w). case w of Finished (Inl e) \<Rightarrow> [e] | Dropped \<Rightarrow> [CancelledError] | _ \<Rightarrow> []) ws)) =
        length (filter (\<lambda>(i, w). \<nexists>v. w = Finished (Inr v)) ws)"
      if "list_all (\<lambda>(i, w). w \<noteq> Waiting) ws" for ws :: "(string \<times> waiter) list"
      using that by (induction ws) (auto simp: one)
    with assms(1) show ?thesis by (simp add: gather_errors_def all_done_def)
  qed
  moreover from this have "gather_errors g = [] \<longleftrightarrow> (\<forall>(i, w) \<in> set (g_waiters g). \<exists>v. w = Finished (Inr v))"
    by (simp only: length_0_conv [symmetric]) (auto simp: filter_empty_conv)
  ultimately show ?thesis
    using assms by (auto simp: group_exit_def group_join_def ignore_mode_def collect_mode_def split: prod.splits)
qed

theorem ignore_and_collect_verdict_witness:
  "fst (group_exit MemoryBackend None JoinOn (demo_over\<lparr>g_on_error := IGNORE\<rparr>) mem_init) = ExitNormal"
proof -
  have "all_done (demo_over\<lparr>g_on_error := IGNORE\<rparr>)" "g_handles (demo_over\<lparr>g_on_error := IGNORE\<rparr>) \<noteq> []"
    by (code_simp, code_simp)
  from ignore_and_collect_verdict [OF this, of MemoryBackend mem_init] show ?thesis by simp
qed

end
