(* ===== verification/Pool.thy ===== *)
theory Pool
  imports Worker Complex_Main "HOL-Library.Multiset"
begin

text \<open>
  \<open>worker.py\<close>, the pool: the liveness check, entering, the concurrent worker loops and the
  upkeep task, draining and leaving. The loops share one store and one process; the event loop
  interleaves their steps in any order. Durations are exact rationals.
\<close>

section \<open>Formatting durations\<close>

text \<open>The \<open>:g\<close> format: six significant digits, trailing zeros dropped, scientific notation for
  exponents below -4 and from 6 on.\<close>

definition round_half_even :: "rat \<Rightarrow> int" where
  "round_half_even x =
     (let f = \<lfloor>x\<rfloor>; d = x - of_int f
      in if d < 1 / 2 then f else if 1 / 2 < d then f + 1 else if even f then f else f + 1)"

definition exponent10 :: "rat \<Rightarrow> int" where
  "exponent10 q =
     (if 1 \<le> q then int (length (str_of_nat (nat \<lfloor>q\<rfloor>))) - 1
      else - int (hd (filter (\<lambda>k. 1 \<le> q * 10 ^ k) [1..<Suc (length (str_of_nat (nat (snd (quotient_of q)))))])))"

definition strip_zeros :: "string \<Rightarrow> string" where
  "strip_zeros ds = rev (dropWhile (\<lambda>c. c = CHR ''0'') (rev ds))"

definition fraction :: "string \<Rightarrow> string" where
  "fraction ds = (let fs = strip_zeros ds in if fs = [] then [] else CHR ''.'' # fs)"

definition format_g_pos :: "rat \<Rightarrow> string" where
  "format_g_pos q =
     (let e0 = exponent10 q;
          m0 = round_half_even (if e0 \<le> 5 then q * 10 ^ nat (5 - e0) else q / 10 ^ nat (e0 - 5));
          (m, e) = (if m0 = 1000000 then (100000, e0 + 1) else (m0, e0));
          ds = str_of_int m
      in if 0 \<le> e \<and> e < 6 then take (nat e + 1) ds @ fraction (drop (nat e + 1) ds)
         else if - 4 \<le> e \<and> e < 0 then ''0.'' @ replicate (nat (- e - 1)) CHR ''0'' @ strip_zeros ds
         else take 1 ds @ fraction (drop 1 ds) @ ''e'' @ (if e < 0 then ''-'' else ''+'') @
           (if \<bar>e\<bar> < 10 then ''0'' else []) @ str_of_int \<bar>e\<bar>)"

definition format_g :: "rat \<Rightarrow> string" where
  "format_g q = (if q = 0 then ''0'' else if q < 0 then CHR ''-'' # format_g_pos (- q) else format_g_pos q)"

section \<open>The liveness check and the pool object\<close>

definition DEFAULT_HEARTBEAT_INTERVAL_SECONDS :: rat where "DEFAULT_HEARTBEAT_INTERVAL_SECONDS = 10"
definition MIN_BEATS_PER_TTL :: nat where "MIN_BEATS_PER_TTL = 3"

text \<open>\<open>worker_ttl\<close> is the backend's attribute of that name, \<open>None\<close> when it has none or it is not an
  int.\<close>

definition check_liveness :: "int option \<Rightarrow> rat \<Rightarrow> unit res" where
  "check_liveness worker_ttl heartbeat_interval =
     (case worker_ttl of
        None \<Rightarrow> Inr ()
      | Some ttl \<Rightarrow>
          if of_int ttl < heartbeat_interval * of_nat MIN_BEATS_PER_TTL
          then Inl (ConfigError (''heartbeat_interval of '' @ format_g heartbeat_interval @
            ''s is too long for this backend's worker_ttl of '' @ str_of_int ttl @
            ''s: every worker would be presumed dead between its own beats, and peers would reclaim jobs '' @
            ''that are still running. Use an interval of at most '' @
            format_g (of_int ttl / of_nat MIN_BEATS_PER_TTL) @
            ''s, or build the backend with a worker_ttl of at least '' @
            format_g (heartbeat_interval * of_nat MIN_BEATS_PER_TTL) @ ''s.''))
          else Inr ())"

text \<open>A worker loop: at the head of its \<open>while\<close>, awaiting a claim, processing a record, or over,
  with the exception that ended it if any.\<close>

datatype loop = Head | Claiming | Serving hrecord | Over "pyexc option"

record pool =
  p_concurrency :: int
  p_loops :: "loop list"
  p_running :: bool
  p_entered :: bool
  p_heartbeat_interval :: rat
  p_upkeep :: bool

definition Worker_init :: "int option \<Rightarrow> int \<Rightarrow> rat \<Rightarrow> pool res" where
  "Worker_init worker_ttl concurrency heartbeat_interval =
     rbind (check_liveness worker_ttl heartbeat_interval) (\<lambda>_.
       Inr \<lparr>p_concurrency = concurrency, p_loops = [], p_running = False, p_entered = False,
            p_heartbeat_interval = heartbeat_interval, p_upkeep = False\<rparr>)"

definition pool_enter :: "'s backend \<Rightarrow> pool \<Rightarrow> 's \<Rightarrow> unit res \<times> pool \<times> 's" where
  "pool_enter B p s =
     (if p_entered p
      then (Inl (RuntimeError ''this worker pool has already been used; call queue.worker() to create a fresh one''), p, s)
      else
        let p1 = p\<lparr>p_entered := True, p_running := True\<rparr>
        in case b_heartbeat B s of
             (Inl e, s') \<Rightarrow> (Inl e, p1, s')
           | (Inr _, s') \<Rightarrow>
               (Inr (), p1\<lparr>p_loops := p_loops p1 @ replicate (nat (p_concurrency p1)) Head, p_upkeep := True\<rparr>, s'))"

section \<open>The steps of one loop\<close>

definition loop_head :: "bool \<Rightarrow> loop \<Rightarrow> loop" where
  "loop_head running l = (case l of Head \<Rightarrow> if running then Claiming else Over None | _ \<Rightarrow> l)"

definition loop_claim :: "'s backend \<Rightarrow> loop \<Rightarrow> 's \<Rightarrow> loop \<times> 's" where
  "loop_claim B l s =
     (case l of
        Claiming \<Rightarrow>
          (case b_claim B s of
             (Inl e, s') \<Rightarrow> (if is_Exception e then Head else Over (Some e), s')
           | (Inr None, s') \<Rightarrow> (Head, s')
           | (Inr (Some r), s') \<Rightarrow> (Serving r, s'))
      | _ \<Rightarrow> (l, s))"

definition loop_serve ::
  "serializer \<Rightarrow> 's backend \<Rightarrow> task_obj pydict \<Rightarrow> race \<Rightarrow> loop \<Rightarrow> 's \<Rightarrow> loop \<times> 's" where
  "loop_serve S B reg race l s =
     (case l of
        Serving r \<Rightarrow>
          (case worker_serve S B reg r race s of
             (Continue, s') \<Rightarrow> (Head, s')
           | (Stopped e, s') \<Rightarrow> (Over (Some e), s'))
      | _ \<Rightarrow> (l, s))"

text \<open>The handler for an interrupted job hands the lease back, whatever comes of it.\<close>

definition loop_release :: "'s backend \<Rightarrow> hrecord \<Rightarrow> 's \<Rightarrow> 's" where
  "loop_release B r s = (case get_str r ''id'' of Inl _ \<Rightarrow> s | Inr i \<Rightarrow> snd (b_release B i s))"

text \<open>Cancelling the task of a loop. A record being processed is interrupted before its terminal
  write (\<open>None\<close>), or during that write after it has reached the store (\<open>Some race\<close>, how the job
  had ended).\<close>

definition loop_cancel ::
  "serializer \<Rightarrow> 's backend \<Rightarrow> task_obj pydict \<Rightarrow> race option \<Rightarrow> loop \<Rightarrow> 's \<Rightarrow> loop \<times> 's" where
  "loop_cancel S B reg reached l s =
     (case l of
        Over e \<Rightarrow> (l, s)
      | Serving r \<Rightarrow>
          let s1 = (case reached of None \<Rightarrow> s | Some race \<Rightarrow> snd (worker_process S B reg r race s))
          in (Over (Some CancelledError), loop_release B r s1)
      | _ \<Rightarrow> (Over (Some CancelledError), s))"

section \<open>Draining and leaving\<close>

text \<open>Cancel every task that is not done and gather them all.\<close>

fun cancel_loops ::
  "serializer \<Rightarrow> 's backend \<Rightarrow> task_obj pydict \<Rightarrow> (nat \<Rightarrow> race option) \<Rightarrow> loop list \<Rightarrow> 's \<Rightarrow> loop list \<times> 's" where
  "cancel_loops S B reg cuts [] s = ([], s)"
| "cancel_loops S B reg cuts (l # ls) s =
     (case loop_cancel S B reg (cuts 0) l s of (l', s1) \<Rightarrow>
        case cancel_loops S B reg (\<lambda>n. cuts (Suc n)) ls s1 of (ls', s2) \<Rightarrow> (l' # ls', s2))"

definition stop_upkeep :: "pool \<Rightarrow> pool" where
  "stop_upkeep p = p\<lparr>p_upkeep := False\<rparr>"

definition pool_deregister :: "'s backend \<Rightarrow> 's \<Rightarrow> unit res \<times> 's" where
  "pool_deregister B s =
     (case b_deregister B s of
        (Inl e, s') \<Rightarrow> (if is_Exception e then Inr () else Inl e, s')
      | (Inr _, s') \<Rightarrow> (Inr (), s'))"

definition pool_exit ::
  "serializer \<Rightarrow> 's backend \<Rightarrow> task_obj pydict \<Rightarrow> (nat \<Rightarrow> race option) \<Rightarrow> pool \<Rightarrow> 's \<Rightarrow> unit res \<times> pool \<times> 's" where
  "pool_exit S B reg cuts p s =
     (let p1 = p\<lparr>p_running := False\<rparr>
      in case cancel_loops S B reg cuts (p_loops p1) s of (ls, s1) \<Rightarrow>
           let p2 = stop_upkeep (p1\<lparr>p_loops := ls\<rparr>)
           in case pool_deregister B s1 of (r, s2) \<Rightarrow> (r, p2, s2))"

definition is_over :: "loop \<Rightarrow> bool" where
  "is_over l \<longleftrightarrow> (case l of Over _ \<Rightarrow> True | _ \<Rightarrow> False)"

text \<open>\<open>drain\<close>: \<open>lapsed\<close> says the timeout has passed; before that it waits while a loop is alive.\<close>

definition pool_drain ::
  "serializer \<Rightarrow> 's backend \<Rightarrow> task_obj pydict \<Rightarrow> bool \<Rightarrow> (nat \<Rightarrow> race option) \<Rightarrow> pool \<Rightarrow> 's
   \<Rightarrow> bool await \<times> pool \<times> 's" where
  "pool_drain S B reg lapsed cuts p s =
     (let p1 = p\<lparr>p_running := False\<rparr>
      in if p_loops p1 = [] then (Ready (Inr True), p1, s)
         else if list_all is_over (p_loops p1) then (Ready (Inr True), p1, s)
         else if \<not> lapsed then (Pending, p1, s)
         else case cancel_loops S B reg cuts (p_loops p1) s of (ls, s') \<Rightarrow>
                (Ready (Inr False), p1\<lparr>p_loops := ls\<rparr>, s'))"

section \<open>Runs of a pool\<close>

text \<open>The id a claimed record carries, and the deliveries it counts.\<close>

definition record_ids :: "hrecord \<Rightarrow> string list" where
  "record_ids r = (case get_str r ''id'' of Inl _ \<Rightarrow> [] | Inr i \<Rightarrow> [i])"

definition loop_ids :: "loop \<Rightarrow> string list" where
  "loop_ids l = (case l of Serving r \<Rightarrow> record_ids r | _ \<Rightarrow> [])"

definition in_flight :: "pool \<Rightarrow> string list" where
  "in_flight p = concat (map loop_ids (p_loops p))"

definition deliverable :: "hrecord \<Rightarrow> bool" where
  "deliverable r \<longleftrightarrow> (case get_int r ''attempts'' of Inl _ \<Rightarrow> False | Inr n \<Rightarrow> n < max_attempts)"

definition set_loop :: "nat \<Rightarrow> loop \<Rightarrow> pool \<Rightarrow> pool" where
  "set_loop k l p = p\<lparr>p_loops := (p_loops p)[k := l]\<rparr>"

text \<open>The event loop picks any loop that can go on; producers submit, handles cancel and the upkeep
  task beats in between. A turn of upkeep that reclaims a job of a dead peer is another
  process's affair; here it finds none.\<close>

inductive pool_step ::
  "serializer \<Rightarrow> 's backend \<Rightarrow> task_obj pydict \<Rightarrow> (pyval \<Rightarrow> bool) \<Rightarrow> pool \<times> 's \<Rightarrow> pool \<times> 's \<Rightarrow> bool"
  for S :: serializer and B :: "'s backend" and reg :: "task_obj pydict" and fits :: "pyval \<Rightarrow> bool" where
  ps_head: "pool_step S B reg fits (p, s) (set_loop k (loop_head (p_running p) Head) p, s)"
    if "k < length (p_loops p)" "p_loops p ! k = Head"
| ps_claim: "pool_step S B reg fits (p, s) (set_loop k l' p, s')"
    if "k < length (p_loops p)" "p_loops p ! k = Claiming" "loop_claim B Claiming s = (l', s')"
      "\<And>r. l' = Serving r \<Longrightarrow> deliverable r"
| ps_serve: "pool_step S B reg fits (p, s) (set_loop k l' p, s')"
    if "k < length (p_loops p)" "p_loops p ! k = Serving r" "loop_serve S B reg race (Serving r) s = (l', s')"
| ps_upkeep: "pool_step S B reg fits (p, s) (p, s'')"
    if "p_upkeep p" "b_heartbeat B s = (Inr (), s')" "b_reap B s' = Some (Inr 0, s'')"
| ps_submit: "pool_step S B reg fits (p, s) (p, s')"
    if "fits_job fits (Job_init fresh now (t_name t) ident as ks gid)"
      "submit S B t fresh now gid ident as ks s = (Inr h, s')"
| ps_cancel: "pool_step S B reg fits (p, s) (p, s')" if "handle_cancel B h s = (Inr (), s')"

text \<open>A record being processed: \<open>j\<close> as it was claimed, \<open>j0\<close> as the store has it now.\<close>

definition flies_in ::
  "serializer \<Rightarrow> (pyval \<Rightarrow> bool) \<Rightarrow> (string \<Rightarrow> rec_view option) \<Rightarrow> hrecord \<Rightarrow> bool" where
  "flies_in S fits v r \<longleftrightarrow>
     (\<exists>j j0. job_view S j = Some (map_of r) \<and> fits_job fits j \<and> same_job j j0 \<and> runs_in S v j0 \<and>
        fits_job fits j0 \<and> attempts j0 < max_attempts)"

text \<open>Every job is in one place: it waits once, or one loop has it.\<close>

definition pool_ok ::
  "serializer \<Rightarrow> (pyval \<Rightarrow> bool) \<Rightarrow> (string \<Rightarrow> rec_view option) \<Rightarrow> string list \<Rightarrow> loop list \<Rightarrow> bool" where
  "pool_ok S fits v w ls \<longleftrightarrow>
     distinct (concat (map loop_ids ls) @ w) \<and> (\<forall>i \<in> set w. waits_in S fits v i) \<and>
     (\<forall>r. Serving r \<in> set ls \<longrightarrow> flies_in S fits v r)"

lemma pool_okD:
  assumes "pool_ok S fits v w ls"
  shows "distinct (concat (map loop_ids ls))" "distinct w"
    "i \<in> set w \<Longrightarrow> i \<notin> set (concat (map loop_ids ls))"
    "i \<in> set w \<Longrightarrow> waits_in S fits v i" "Serving r \<in> set ls \<Longrightarrow> flies_in S fits v r"
  using assms by (auto simp: pool_ok_def)

lemma loop_ids_simps [simp]:
  "loop_ids Head = []" "loop_ids Claiming = []" "loop_ids (Over e) = []" "loop_ids (Serving r) = record_ids r"
  by (simp_all add: loop_ids_def)

text \<open>The ids of a list of loops with one loop replaced.\<close>

lemma loops_split:
  assumes "k < length ls"
  shows "mset (concat (map loop_ids ls)) = mset (loop_ids (ls ! k)) + mset (concat (map loop_ids (take k ls @ drop (Suc k) ls)))"
    "mset (concat (map loop_ids (ls[k := l]))) = mset (loop_ids l) + mset (concat (map loop_ids (take k ls @ drop (Suc k) ls)))"
    "set (ls[k := l]) = insert l (set (take k ls @ drop (Suc k) ls))"
    "set ls = insert (ls ! k) (set (take k ls @ drop (Suc k) ls))"
proof -
  have c: "mset (concat (map loop_ids xs)) + mset (concat (map loop_ids ys)) = mset (concat (map loop_ids (xs @ ys)))"
    for xs ys by simp
  show "mset (concat (map loop_ids ls)) = mset (loop_ids (ls ! k)) + mset (concat (map loop_ids (take k ls @ drop (Suc k) ls)))"
    by (subst id_take_nth_drop [OF assms]) simp
  show "mset (concat (map loop_ids (ls[k := l]))) = mset (loop_ids l) + mset (concat (map loop_ids (take k ls @ drop (Suc k) ls)))"
    by (subst upd_conv_take_nth_drop [OF assms]) simp
  show "set (ls[k := l]) = insert l (set (take k ls @ drop (Suc k) ls))"
    by (subst upd_conv_take_nth_drop [OF assms]) simp
  show "set ls = insert (ls ! k) (set (take k ls @ drop (Suc k) ls))"
    by (subst id_take_nth_drop [OF assms]) simp
qed

text \<open>The invariant reads the loops as a bag: one loop \<open>l\<close> and the others.\<close>

lemma pool_ok_at:
  assumes "k < length ls"
  shows "pool_ok S fits v w (ls[k := l]) \<longleftrightarrow> pool_ok S fits v w (l # take k ls @ drop (Suc k) ls)"
    "pool_ok S fits v w ls \<longleftrightarrow> pool_ok S fits v w (ls ! k # take k ls @ drop (Suc k) ls)"
proof -
  have d: "distinct (xs @ w) \<longleftrightarrow> distinct (ys @ w)" if "mset xs = mset ys" for xs ys :: "string list"
    using that by (metis mset_append mset_eq_imp_distinct_iff)
  show "pool_ok S fits v w (ls[k := l]) \<longleftrightarrow> pool_ok S fits v w (l # take k ls @ drop (Suc k) ls)"
    using d [OF loops_split(2) [OF assms, of l, folded mset_append]] loops_split(3) [OF assms, of l]
    unfolding pool_ok_def by (simp del: set_append)
  show "pool_ok S fits v w ls \<longleftrightarrow> pool_ok S fits v w (ls ! k # take k ls @ drop (Suc k) ls)"
    using d [OF loops_split(1) [OF assms, folded mset_append]] loops_split(4) [OF assms]
    unfolding pool_ok_def by (simp del: set_append)
qed

end
