(* ===== verification/Pool_Invariant.thy ===== *)
theory Pool_Invariant
  imports Pool
begin

text \<open>
  Every job a pool handles is in one place at every moment: it waits in the store, one loop of the
  pool has it, or it is finished. The invariant is kept by every step of the loops, producers,
  handles and upkeep, and by cancelling loops when the pool is drained or left. Proved once for
  every store that keeps the backend contract.
\<close>

section \<open>Where the jobs of a pool are\<close>

definition accounted :: "(string \<Rightarrow> rec_view option) \<Rightarrow> string list \<Rightarrow> loop list \<Rightarrow> string \<Rightarrow> bool" where
  "accounted v w ls i \<longleftrightarrow> i \<in> set w \<or> i \<in> set (concat (map loop_ids ls)) \<or> finished_in v i"

lemma accounted_at:
  assumes "k < length ls"
  shows "accounted v w (ls[k := l]) i \<longleftrightarrow> accounted v w (l # take k ls @ drop (Suc k) ls) i"
    "accounted v w ls i \<longleftrightarrow> accounted v w (ls ! k # take k ls @ drop (Suc k) ls) i"
proof -
  show "accounted v w (ls[k := l]) i \<longleftrightarrow> accounted v w (l # take k ls @ drop (Suc k) ls) i"
    using loops_split(3) [OF assms, of l] by (simp add: accounted_def)
  show "accounted v w ls i \<longleftrightarrow> accounted v w (ls ! k # take k ls @ drop (Suc k) ls) i"
    using loops_split(4) [OF assms] by (auto simp: accounted_def)
qed

lemma waits_in_frame: "waits_in S fits v i \<Longrightarrow> v' i = v i \<Longrightarrow> waits_in S fits v' i"
  by (simp add: waits_in_def)

lemma finished_in_frame: "v' i = v i \<Longrightarrow> finished_in v' i \<longleftrightarrow> finished_in v i"
  by (simp add: finished_in_def)

context client
begin

lemma flies_id:
  assumes "flies_in S fits v r"
  obtains j j0 where "record_ids r = [jid j0]" "jid j = jid j0" "job_view S j = Some (map_of r)" "fits_job fits j"
    "same_job j j0" "runs_in S v j0" "fits_job fits j0" "attempts j0 < max_attempts"
proof -
  obtain j j0 where j: "job_view S j = Some (map_of r)" "fits_job fits j" "same_job j j0" "runs_in S v j0"
    "fits_job fits j0" "attempts j0 < max_attempts" using assms by (auto simp: flies_in_def)
  then have "record_ids r = [jid j0]" "jid j = jid j0"
    using record_id [OF j(1)] by (simp_all add: record_ids_def same_job_def)
  with j that show ?thesis by blast
qed

lemma flies_in_frame:
  assumes "flies_in S fits v r" "\<And>i. i \<in> set (record_ids r) \<Longrightarrow> v' i = v i"
  shows "flies_in S fits v' r"
  using assms(1)
proof (rule flies_id)
  fix j j0 assume j: "record_ids r = [jid j0]" "job_view S j = Some (map_of r)" "fits_job fits j"
    "same_job j j0" "runs_in S v j0" "fits_job fits j0" "attempts j0 < max_attempts"
  then have "runs_in S v' j0" using assms(2) [of "jid j0"] by (simp add: runs_in_def)
  with j show ?thesis by (auto simp: flies_in_def)
qed

lemma flies_not_finished: "flies_in S fits v r \<Longrightarrow> i \<in> set (record_ids r) \<Longrightarrow> \<not> finished_in v i"
proof (erule flies_id)
  fix j j0 assume "i \<in> set (record_ids r)" "record_ids r = [jid j0]" "runs_in S v j0"
  then show ?thesis using job_view_fields(4) [of S j0] by (auto simp: runs_in_def finished_in_def terminal_def)
qed

text \<open>Records that nobody waits for or flies may change freely.\<close>

lemma pool_ok_frame:
  assumes "pool_ok S fits v w ls" "\<And>i. i \<in> set w \<union> set (concat (map loop_ids ls)) \<Longrightarrow> v' i = v i"
  shows "pool_ok S fits v' w ls"
proof -
  have "flies_in S fits v' r" if "Serving r \<in> set ls" for r
  proof (rule flies_in_frame [OF pool_okD(5) [OF assms(1) that]])
    fix i assume "i \<in> set (record_ids r)"
    then have "i \<in> set (concat (map loop_ids ls))" using that by force
    then show "v' i = v i" using assms(2) by blast
  qed
  moreover have "waits_in S fits v' i" if "i \<in> set w" for i
    using waits_in_frame pool_okD(4) [OF assms(1) that] assms(2) that by blast
  ultimately show ?thesis using assms(1) by (auto simp: pool_ok_def)
qed

lemma pool_ok_upd:
  assumes "pool_ok S fits v w ls" "i \<notin> set w" "i \<notin> set (concat (map loop_ids ls))"
  shows "pool_ok S fits (v(i := x)) w ls"
  by (rule pool_ok_frame [OF assms(1)]) (use assms(2,3) in auto)

lemma pool_ok_idle:
  assumes "loop_ids l = []" "\<And>r. l \<noteq> Serving r"
  shows "pool_ok S fits v w (l # ls) \<longleftrightarrow> pool_ok S fits v w ls" "accounted v w (l # ls) i \<longleftrightarrow> accounted v w ls i"
  using assms by (auto simp: pool_ok_def accounted_def)

lemmas idle_loops = pool_ok_idle [of Head, simplified] pool_ok_idle [of Claiming, simplified]
  pool_ok_idle [of "Over e" for e, simplified]

section \<open>One job leaves a loop\<close>

text \<open>A job that a loop had is finished, everything else as before.\<close>

lemma job_finished_ok:
  assumes "pool_ok S fits (view s) (waiting s) (Serving r # ls)" "record_ids r = [i]"
    "waiting s' = waiting s" "view s' = (view s)(i := v)" "finished_in (view s') i"
  shows "pool_ok S fits (view s') (waiting s') ls \<and>
    (\<forall>k. accounted (view s) (waiting s) (Serving r # ls) k \<longrightarrow> accounted (view s') (waiting s') ls k)"
proof -
  have "pool_ok S fits (view s) (waiting s) ls" "i \<notin> set (waiting s)" "i \<notin> set (concat (map loop_ids ls))"
    using assms(1,2) by (auto simp: pool_ok_def)
  from pool_ok_upd [OF this] have "pool_ok S fits (view s') (waiting s') ls" by (simp add: assms(3,4))
  moreover have "accounted (view s') (waiting s') ls k" if "accounted (view s) (waiting s) (Serving r # ls) k" for k
    using that assms(2-5) finished_in_frame [of "view s'" k "view s"] by (cases "k = i") (auto simp: accounted_def)
  ultimately show ?thesis by blast
qed

text \<open>A job that a loop had is back in the queue, everything else as before.\<close>

lemma job_requeued_ok:
  assumes "pool_ok S fits (view s) (waiting s) (Serving r # ls)" "record_ids r = [i]"
    "waiting s' = waiting s @ [i]" "view s' = (view s)(i := v)" "waits_in S fits (view s') i"
  shows "pool_ok S fits (view s') (waiting s') ls \<and>
    (\<forall>k. accounted (view s) (waiting s) (Serving r # ls) k \<longrightarrow> accounted (view s') (waiting s') ls k)"
proof -
  have p: "pool_ok S fits (view s) (waiting s) ls" "i \<notin> set (waiting s)" "i \<notin> set (concat (map loop_ids ls))"
    using assms(1,2) by (auto simp: pool_ok_def)
  from pool_ok_upd [OF this] have "pool_ok S fits (view s') (waiting s) ls" by (simp add: assms(4))
  then have "pool_ok S fits (view s') (waiting s') ls"
    using p(2,3) assms(3,5) by (auto simp: pool_ok_def)
  moreover have "accounted (view s') (waiting s') ls k" if "accounted (view s) (waiting s) (Serving r # ls) k" for k
    using that assms(2-4) finished_in_frame [of "view s'" k "view s"] by (cases "k = i") (auto simp: accounted_def)
  ultimately show ?thesis by blast
qed

lemma requeued_waits:
  assumes "runs_in S v j0" "fits_job fits j0" "attempts j0 < max_attempts"
    "v' (jid j0) = job_view S (j0\<lparr>status := QUEUED\<rparr>)"
  shows "waits_in S fits v' (jid j0)"
  using assms unfolding waits_in_def runs_in_def
  by (intro exI [of _ "j0\<lparr>status := QUEUED\<rparr>"]) (simp add: fits_job_def terminal_def)

lemma written_finished:
  assumes "fits_job fits j" "final_job S reg (norm_job norm j) race = Some j'" "terminal (status j')"
    "v i = job_view S j'"
  shows "finished_in v i"
  using final_job_written [OF fits_norm_job [OF assms(1)] assms(2)] assms(3,4) job_view_fields(4) [of S j']
  by (auto simp: finished_in_def)

lemma serve_ok:
  assumes "inv s" "pool_ok S fits (view s) (waiting s) (Serving r # ls)"
    "loop_serve S B reg race (Serving r) s = (l', s')"
  shows "inv s' \<and> pool_ok S fits (view s') (waiting s') (l' # ls) \<and>
    (\<forall>k. accounted (view s) (waiting s) (Serving r # ls) k \<longrightarrow> accounted (view s') (waiting s') (l' # ls) k)"
proof (rule flies_id [OF pool_okD(5) [OF assms(2), of r, simplified]])
  fix j j0 assume j: "record_ids r = [jid j0]" "job_view S j = Some (map_of r)" "fits_job fits j"
    "same_job j j0" "runs_in S (view s) j0" "fits_job fits j0" "attempts j0 < max_attempts"
  note sp = serve_spec [OF assms(1) j(5,4,3,2), of reg race]
  show ?thesis
  proof (cases "final_job S reg (norm_job norm j) race")
    case None
    with sp obtain s1 where s1: "worker_serve S B reg r race s = (Stopped CancelledError, s1)" "inv s1"
      "waiting s1 = waiting s @ [jid j0]" "view s1 = (view s)(jid j0 := job_view S (j0\<lparr>status := QUEUED\<rparr>))" by auto
    then have "l' = Over (Some CancelledError)" "s1 = s'" using assms(3) by (simp_all add: loop_serve_def)
    with job_requeued_ok [OF assms(2) j(1), of s1] s1 requeued_waits [OF j(5-7), of "view s1"]
    show ?thesis by (simp add: idle_loops)
  next
    case (Some j')
    with sp obtain c s1 where s1: "worker_serve S B reg r race s = (c, s1)" "inv s1" "terminal (status j')"
      "waiting s1 = waiting s" "view s1 = (view s)(jid j0 := job_view S j')" by auto
    then have l': "l' = Head \<or> (\<exists>e. l' = Over e)" "s1 = s'" using assms(3) by (auto simp: loop_serve_def split: control.splits)
    have "finished_in (view s1) (jid j0)" using written_finished [OF j(3) Some s1(3), of "view s1" "jid j0"] s1(5) by simp
    with job_finished_ok [OF assms(2) j(1), of s1] s1 l' show ?thesis by (auto simp: idle_loops)
  qed
qed

text \<open>Cancelling a loop: its job is finished or queued again.\<close>

lemma cancel_ok:
  assumes "inv s" "pool_ok S fits (view s) (waiting s) (l # ls)"
    "loop_cancel S B reg reached l s = (l', s')"
  shows "inv s' \<and> is_over l' \<and> pool_ok S fits (view s') (waiting s') ls \<and>
    (\<forall>k. accounted (view s) (waiting s) (l # ls) k \<longrightarrow> accounted (view s') (waiting s') ls k)"
proof (cases l)
  case (Serving r)
  note ok = assms(2) [unfolded Serving]
  show ?thesis
  proof (rule flies_id [OF pool_okD(5) [OF ok, of r, simplified]])
    fix j j0 assume j: "record_ids r = [jid j0]" "job_view S j = Some (map_of r)" "fits_job fits j"
      "same_job j j0" "runs_in S (view s) j0" "fits_job fits j0" "attempts j0 < max_attempts"
    have rid: "get_str r ''id'' = Inr (jid j0)" using record_id [OF j(2)] j(4) by (simp add: same_job_def)
    have l': "l' = Over (Some CancelledError)"
      and s': "s' = loop_release B r (case reached of None \<Rightarrow> s | Some race \<Rightarrow> snd (worker_process S B reg r race s))"
      using assms(3) by (auto simp: loop_cancel_def Serving Let_def)
    have requeue: ?thesis if "s' = loop_release B r s"
    proof -
      obtain s1 where s1: "b_release B (jid j0) s = (Inr (), s1)" "inv s1" "waiting s1 = waiting s @ [jid j0]"
        "view s1 = (view s)(jid j0 := job_view S (j0\<lparr>status := QUEUED\<rparr>))"
        using runs_in_release [OF assms(1) j(5)] by blast
      then have "s' = s1" using that rid by (simp add: loop_release_def)
      with job_requeued_ok [OF ok j(1), of s1] s1 requeued_waits [OF j(5-7), of "view s1"] l' show ?thesis
        by (simp add: Serving is_over_def)
    qed
    show ?thesis
    proof (cases reached)
      case None
      then show ?thesis using requeue s' by simp
    next
      case (Some race)
      have nj: "same_job (norm_job norm j) j0" using same_job_norm [of j] j(4) by (simp add: same_job_def)
      note run = run_spec [OF assms(1) j(5) nj fits_norm_job [OF j(3)], of reg race]
      have pr: "worker_process S B reg r race s = worker_run S B reg (norm_job norm j) race s"
        by (simp add: worker_process_def read_back [OF j(3,2)])
      show ?thesis
      proof (cases "final_job S reg (norm_job norm j) race")
        case None
        with run s' Some pr have "s' = loop_release B r s" by simp
        then show ?thesis by (rule requeue)
      next
        case (Some j')
        with run obtain c s1 where s1: "terminal (status j')" "worker_run S B reg (norm_job norm j) race s = (c, s1)"
          "inv s1" "waiting s1 = waiting s" "view s1 = (view s)(jid j0 := job_view S j')" by auto
        have "b_release B (jid j0) s1 = (Inr (), s1)"
          using finished_release [OF s1(3) _ s1(1)] s1(5) final_job_written [OF fits_norm_job [OF j(3)] Some] by simp
        then have "s' = s1" using s' \<open>reached = Some race\<close> pr s1(2) rid by (simp add: loop_release_def)
        moreover have "finished_in (view s1) (jid j0)"
          using written_finished [OF j(3) Some s1(1), of "view s1" "jid j0"] s1(5) by simp
        ultimately show ?thesis
          using job_finished_ok [OF ok j(1), of s1] s1 l' by (simp add: Serving is_over_def)
      qed
    qed
  qed
qed (use assms in \<open>auto simp: loop_cancel_def is_over_def idle_loops\<close>)

lemma cancel_loops_ok:
  assumes "inv s" "pool_ok S fits (view s) (waiting s) ls" "cancel_loops S B reg cuts ls s = (ls', s')"
  shows "inv s' \<and> list_all is_over ls' \<and> length ls' = length ls \<and> pool_ok S fits (view s') (waiting s') [] \<and>
    (\<forall>k. accounted (view s) (waiting s) ls k \<longrightarrow> accounted (view s') (waiting s') [] k)"
  using assms
proof (induction ls arbitrary: s cuts ls')
  case Nil
  then show ?case by auto
next
  case (Cons l ls)
  obtain l' s1 where l': "loop_cancel S B reg (cuts 0) l s = (l', s1)" by force
  obtain ls1 where ls1: "cancel_loops S B reg (\<lambda>n. cuts (Suc n)) ls s1 = (ls1, s')" "ls' = l' # ls1"
    using Cons.prems(3) l' by (auto split: prod.splits)
  note one = cancel_ok [OF Cons.prems(1,2) l']
  then have "inv s1" "pool_ok S fits (view s1) (waiting s1) ls" by blast+
  from Cons.IH [OF this ls1(1)] one ls1(2) show ?case by auto
qed

text \<open>Claiming moves the head of the queue into the loop.\<close>

lemma claim_ok:
  assumes "inv s" "pool_ok S fits (view s) (waiting s) (Claiming # ls)" "loop_claim B Claiming s = (l', s')"
    "\<And>r. l' = Serving r \<Longrightarrow> deliverable r"
  shows "inv s' \<and> pool_ok S fits (view s') (waiting s') (l' # ls) \<and>
    (\<forall>k. accounted (view s) (waiting s) (Claiming # ls) k \<longrightarrow> accounted (view s') (waiting s') (l' # ls) k)"
proof (cases "waiting s")
  case Nil
  with claim_none [OF assms(1)] assms(1-3) show ?thesis by (auto simp: loop_claim_def idle_loops)
next
  case (Cons i q)
  have "waits_in S fits (view s) i" using pool_okD(4) [OF assms(2), of i] Cons by simp
  then obtain j where j: "jid j = i" "view s i = job_view S j" "fits_job fits j" "\<not> terminal (status j)"
    "error j = None" "0 \<le> attempts j" "attempts j < max_attempts" by (auto simp: waits_in_def)
  obtain m where m: "job_view S j = Some m" using job_view_total [OF j(3)] by blast
  let ?c = "j\<lparr>status := RUNNING, attempts := attempts j + 1\<rparr>"
  have open_j: "status j \<noteq> COMPLETED" using j(4) by (auto simp: terminal_def)
  obtain r s1 where s1: "b_claim B s = (Inr (Some r), s1)" "inv s1" "view s1 = (view s)(i \<mapsto> map_of r)" "waiting s1 = q"
    "map_of r = m(''status'' \<mapsto> Str (status_value RUNNING), ''attempts'' \<mapsto> Str (str_of_int (attempts j + 1)))"
    using claim_some [OF assms(1) Cons _ _ _ j(7), of m] j(2,4) m job_view_fields [OF m] by auto
  have l': "l' = Serving r" "s' = s1" using assms(3) s1(1) by (simp_all add: loop_claim_def)
  have "job_view S (j\<lparr>status := RUNNING\<rparr>) = Some (m(''status'' \<mapsto> Str (status_value RUNNING)))"
    by (rule job_view_update(1) [OF m open_j]) simp
  from job_view_update(2) [OF this, of "attempts j + 1"] s1(5)
  have c: "job_view S ?c = Some (map_of r)" by simp
  have "get_int r ''attempts'' = Inr (attempts j + 1)"
    using s1(5) by (simp add: get_int_def get_opt_def field_str_def)
  with assms(4) [OF l'(1)] have "attempts ?c < max_attempts" by (simp add: deliverable_def)
  moreover have fc: "fits_job fits ?c" using j(3) open_j by (simp add: fits_job_def)
  moreover have "runs_in S (view s1) ?c" using c s1(3) j(1,5,6) by (simp add: runs_in_def)
  ultimately have fl: "flies_in S fits (view s1) r" using c same_job_refl unfolding flies_in_def by blast
  have rid: "record_ids r = [i]" using record_id [OF c] j(1) by (simp add: record_ids_def)
  have p: "pool_ok S fits (view s) q ls" "i \<notin> set q" "i \<notin> set (concat (map loop_ids ls))"
    using assms(2) Cons by (auto simp: pool_ok_def)
  have "pool_ok S fits (view s1) q ls" using pool_ok_upd [OF p] s1(3) by simp
  then have "pool_ok S fits (view s1) q (Serving r # ls)" using fl rid p(2,3) by (auto simp: pool_ok_def)
  moreover have "accounted (view s1) q (Serving r # ls) k" if "accounted (view s) (waiting s) (Claiming # ls) k" for k
    using that rid Cons s1(3) finished_in_frame [of "view s1" k "view s"] by (cases "k = i") (auto simp: accounted_def)
  ultimately show ?thesis using l' s1(2,4) by auto
qed

section \<open>Producers, handles and upkeep\<close>

lemma submit_ok:
  assumes "inv s" "pool_ok S fits (view s) (waiting s) ls" "fits_job fits (Job_init fresh now (t_name t) ident as ks gid)"
    "submit S B t fresh now gid ident as ks s = (Inr h, s')"
  shows "inv s' \<and> pool_ok S fits (view s') (waiting s') ls \<and>
    (\<forall>k. accounted (view s) (waiting s) ls k \<longrightarrow> accounted (view s') (waiting s') ls k)"
proof -
  define j where "j = Job_init fresh now (t_name t) ident as ks gid"
  have f: "fits_job fits j" using assms(3) by (simp add: j_def)
  show ?thesis
  proof (cases "view s (jid j)")
    case (Some m)
    then have "s' = s" using submit_known [OF assms(1) _ f j_def] assms(4) by simp
    with assms show ?thesis by simp
  next
    case None
    obtain s1 where "submit S B t fresh now gid ident as ks s = (Inr (JobHandle_init (jid j)), s1)" "inv s1"
      "waiting s1 = waiting s @ [jid j]" "view s1 = (view s)(jid j := job_view S (j\<lparr>status := QUEUED\<rparr>))"
      using submit_new [OF assms(1) None f j_def] by blast
    then have s': "inv s'" "waiting s' = waiting s @ [jid j]" "view s' = (view s)(jid j := job_view S (j\<lparr>status := QUEUED\<rparr>))"
      using assms(4) by simp_all
    have v: "view s k \<noteq> None" if "k \<in> set (waiting s) \<or> k \<in> set (concat (map loop_ids ls))" for k
    proof -
      have "view s k \<noteq> None" if "waits_in S fits (view s) k"
        using that job_view_total by (fastforce simp: waits_in_def)
      moreover have "view s k \<noteq> None" if "flies_in S fits (view s) r" "k \<in> set (record_ids r)" for r
        using that(1) by (rule flies_id) (use that(2) in \<open>auto simp: runs_in_def\<close>)
      ultimately show ?thesis
        using that pool_okD(4,5) [OF assms(2)] by (auto simp: loop_ids_def split: loop.splits)
    qed
    then have new: "jid j \<notin> set (waiting s)" "jid j \<notin> set (concat (map loop_ids ls))" using None by blast+
    have "pool_ok S fits (view s') (waiting s) ls" using pool_ok_upd [OF assms(2) new] s'(3) by simp
    moreover have "waits_in S fits (view s') (jid j)"
      using s'(3) f unfolding waits_in_def
      by (intro exI [of _ "j\<lparr>status := QUEUED\<rparr>"])
        (simp add: fits_job_def terminal_def j_def Job_init_def max_attempts_def)
    ultimately have "pool_ok S fits (view s') (waiting s') ls"
      using new s'(2) by (auto simp: pool_ok_def)
    moreover have "accounted (view s') (waiting s') ls k" if "accounted (view s) (waiting s) ls k" for k
      using that s'(2,3) finished_in_frame [of "view s'" k "view s"] by (cases "k = jid j") (auto simp: accounted_def)
    ultimately show ?thesis using s'(1) by blast
  qed
qed

lemma flag_view:
  assumes "fits_job fits j" "\<not> terminal (status j)" "v i = job_view S j"
  shows "map_option flagged (v i) = job_view S (j\<lparr>request_cancel := True\<rparr>)"
proof -
  obtain m where m: "job_view S j = Some m" using job_view_total [OF assms(1)] by blast
  have "job_view S (j\<lparr>request_cancel := True\<rparr>) = Some (m(''request_cancel'' \<mapsto> Str ''1''))"
    using job_view_update(3) [OF m, of True] assms(2) str_of_int_0_1 by (auto simp: terminal_def)
  then show ?thesis using assms(2,3) m job_view_fields(4) [OF m] by (simp add: flagged_def)
qed

lemma request_cancel_ok:
  assumes "inv s" "pool_ok S fits (view s) (waiting s) ls" "handle_cancel B h s = (Inr (), s')"
  shows "inv s' \<and> pool_ok S fits (view s') (waiting s') ls \<and>
    (\<forall>k. accounted (view s) (waiting s) ls k \<longrightarrow> accounted (view s') (waiting s') ls k)"
proof -
  let ?i = "h_job_id h"
  obtain s1 where "b_request_cancel B ?i s = (Inr (), s1)" "inv s1" "waiting s1 = waiting s"
    "view s1 = (\<lambda>k. if k = ?i then map_option flagged (view s ?i) else view s k)"
    using request_cancel_total [OF assms(1)] .
  then have s': "inv s'" "waiting s' = waiting s"
    "\<And>k. view s' k = (if k = ?i then map_option flagged (view s ?i) else view s k)"
    using assms(3) by (auto simp: handle_cancel_def)
  have w: "waits_in S fits (view s') k" if "waits_in S fits (view s) k" for k
  proof -
    obtain j where j: "jid j = k" "view s k = job_view S j" "fits_job fits j" "\<not> terminal (status j)"
      "error j = None" "0 \<le> attempts j" "attempts j < max_attempts" using \<open>waits_in S fits (view s) k\<close> by (auto simp: waits_in_def)
    let ?j = "if k = ?i then j\<lparr>request_cancel := True\<rparr> else j"
    have "view s' k = job_view S ?j" using s'(3) flag_view [OF j(3,4), of "view s" k] j(2) by auto
    then show ?thesis using j unfolding waits_in_def by (intro exI [of _ ?j]) (simp add: fits_job_def)
  qed
  have fl: "flies_in S fits (view s') r" if "flies_in S fits (view s) r" for r
    using that
  proof (rule flies_id)
    fix j j0 assume j: "record_ids r = [jid j0]" "job_view S j = Some (map_of r)" "fits_job fits j"
      "same_job j j0" "runs_in S (view s) j0" "fits_job fits j0" "attempts j0 < max_attempts"
    let ?j = "if jid j0 = ?i then j0\<lparr>request_cancel := True\<rparr> else j0"
    have v: "view s (jid j0) = job_view S j0" "\<not> terminal (status j0)" using j(5) by (auto simp: runs_in_def terminal_def)
    have "view s' (jid j0) = job_view S ?j" using s'(3) flag_view [OF j(6) v(2), of "view s" "jid j0"] v(1) by auto
    moreover have "fits_job fits ?j" using j(6) by (simp add: fits_job_def)
    moreover from this have "job_view S ?j \<noteq> None" using job_view_total by auto
    ultimately have "runs_in S (view s') ?j" using j(5) by (auto simp: runs_in_def)
    with j \<open>fits_job fits ?j\<close> show ?thesis
      unfolding flies_in_def by (intro exI [of _ j] exI [of _ ?j]) (simp add: same_job_def)
  qed
  have "finished_in (view s') k" if "finished_in (view s) k" for k
    using that s'(3) by (auto simp: finished_in_def flagged_def)
  then show ?thesis using assms(2) s'(1,2) w fl by (auto simp: pool_ok_def accounted_def)
qed

lemma upkeep_ok:
  assumes "inv s" "b_heartbeat B s = (Inr (), s1)" "b_reap B s1 = Some (Inr 0, s')"
  shows "inv s' \<and> view s' = view s \<and> waiting s' = waiting s"
proof -
  have s1: "inv s1" "view s1 = view s" "waiting s1 = waiting s"
    using heartbeat_frame [OF assms(1)] assms(2) by auto
  with reap_requeues [OF s1(1)] assms(3) show ?thesis by fastforce
qed

section \<open>Every run\<close>

lemma step_ok:
  assumes "pool_step S B reg fits x y" "inv (snd x)" "pool_ok S fits (view (snd x)) (waiting (snd x)) (p_loops (fst x))"
  shows "inv (snd y) \<and> pool_ok S fits (view (snd y)) (waiting (snd y)) (p_loops (fst y)) \<and>
    (\<forall>k. accounted (view (snd x)) (waiting (snd x)) (p_loops (fst x)) k \<longrightarrow>
       accounted (view (snd y)) (waiting (snd y)) (p_loops (fst y)) k)"
  using assms
proof cases
  case (ps_head k p s)
  then show ?thesis using assms(2,3)
    by (simp add: set_loop_def loop_head_def pool_ok_at [OF ps_head(3)] accounted_at [OF ps_head(3)] idle_loops)
next
  case (ps_claim k p s l' s')
  have "pool_ok S fits (view s) (waiting s) (Claiming # take k (p_loops p) @ drop (Suc k) (p_loops p))"
    using assms(3) ps_claim by (simp add: pool_ok_at(2) [OF ps_claim(3)])
  from claim_ok [OF _ this ps_claim(5,6)] assms(2) ps_claim show ?thesis
    by (simp add: set_loop_def pool_ok_at(1) [OF ps_claim(3)] accounted_at [OF ps_claim(3)])
next
  case (ps_serve k p r race s l' s')
  have "pool_ok S fits (view s) (waiting s) (Serving r # take k (p_loops p) @ drop (Suc k) (p_loops p))"
    using assms(3) ps_serve by (simp add: pool_ok_at(2) [OF ps_serve(3)])
  from serve_ok [OF _ this ps_serve(5)] assms(2) ps_serve show ?thesis
    by (simp add: set_loop_def pool_ok_at(1) [OF ps_serve(3)] accounted_at [OF ps_serve(3)])
next
  case (ps_upkeep p s s' s'')
  then show ?thesis using upkeep_ok [of s s' s''] assms(2,3) by auto
next
  case (ps_submit fresh now t ident xs ks gid s h s' p)
  from submit_ok [OF _ _ ps_submit(3,4)] assms(2,3) ps_submit(1,2) show ?thesis by simp
next
  case (ps_cancel h s s' p)
  from request_cancel_ok [OF _ _ ps_cancel(3)] assms(2,3) ps_cancel(1,2) show ?thesis by simp
qed

lemma run_ok:
  assumes "(pool_step S B reg fits)\<^sup>*\<^sup>* x y" "inv (snd x)"
    "pool_ok S fits (view (snd x)) (waiting (snd x)) (p_loops (fst x))"
  shows "inv (snd y) \<and> pool_ok S fits (view (snd y)) (waiting (snd y)) (p_loops (fst y)) \<and>
    (\<forall>k. accounted (view (snd x)) (waiting (snd x)) (p_loops (fst x)) k \<longrightarrow>
       accounted (view (snd y)) (waiting (snd y)) (p_loops (fst y)) k)"
  using assms by (induction rule: rtranclp_induct) (use step_ok in \<open>auto 4 3\<close>)

text \<open>Entering a pool changes nothing in the store but its liveness, and starts the loops.\<close>

lemma enter_ok:
  assumes "inv s" "\<not> p_entered p" "p_loops p = []"
  shows "\<exists>p' s'. pool_enter B p s = (Inr (), p', s') \<and> inv s' \<and> view s' = view s \<and> waiting s' = waiting s \<and>
    p_loops p' = replicate (nat (p_concurrency p)) Head \<and> p_running p' \<and> p_upkeep p'"
  using heartbeat_frame [OF assms(1)] assms(2,3) by (auto simp: pool_enter_def)

lemma exit_ok:
  assumes "inv s" "pool_ok S fits (view s) (waiting s) (p_loops p)"
  shows "\<exists>p' s'. pool_exit S B reg cuts p s = (Inr (), p', s') \<and> inv s' \<and> list_all is_over (p_loops p') \<and>
    \<not> p_running p' \<and> \<not> p_upkeep p' \<and> pool_ok S fits (view s') (waiting s') [] \<and>
    (\<forall>k. accounted (view s) (waiting s) (p_loops p) k \<longrightarrow> accounted (view s') (waiting s') [] k)"
proof -
  obtain ls s1 where c: "cancel_loops S B reg cuts (p_loops p) s = (ls, s1)" by force
  note ok = cancel_loops_ok [OF assms c]
  then obtain s' where "b_deregister B s1 = (Inr (), s')" "inv s'" "view s' = view s1" "waiting s' = waiting s1"
    using deregister_frame by blast
  with ok c show ?thesis by (auto simp: pool_exit_def pool_deregister_def stop_upkeep_def)
qed

end

end
