(* ===== verification/Lease_Protocol.thy ===== *)
theory Lease_Protocol
  imports Redis_Contract
begin

text \<open>
  Many processes against one Redis. Every atomic block of \<open>redis_backend.py\<close> is one step of
  \<open>cluster_step\<close>, on the server's own state and through the backend's own methods, and any
  interleaving of them is a run. A worker takes a lease only while it is registered (the pool
  awaits a heartbeat before its loops start) and acts only on ids it still leases; a crash is a
  worker that takes no further step.
  The invariant \<open>lease_ok\<close> says where every job is. It is proved on the lease state and
  carried to the server by simulation.
\<close>

section \<open>Where a job can be\<close>

definition active_job :: "lstate \<Rightarrow> string \<Rightarrow> bool" where
  "active_job l i \<longleftrightarrow> (case l_rec l i of None \<Rightarrow> False | Some m \<Rightarrow> \<not> terminal_in m)"

definition placed :: "lstate \<Rightarrow> string \<Rightarrow> bool" where
  "placed l i \<longleftrightarrow> i \<in> set (l_queue l) \<or> (\<exists>w. i \<in> set (l_leases l w))"

text \<open>
  An id waits or is leased exactly when its job is active; it is in one place and once; a
  worker with leases is registered, so the reaper will find it; only finished records expire.
\<close>

definition lease_ok :: "lstate \<Rightarrow> bool" where
  "lease_ok l \<longleftrightarrow>
     (\<forall>i. placed l i \<longleftrightarrow> active_job l i) \<and>
     distinct (l_queue l) \<and> (\<forall>w. distinct (l_leases l w)) \<and>
     (\<forall>w. set (l_queue l) \<inter> set (l_leases l w) = {}) \<and>
     (\<forall>w u. w \<noteq> u \<longrightarrow> set (l_leases l w) \<inter> set (l_leases l u) = {}) \<and>
     (\<forall>w. l_leases l w \<noteq> [] \<longrightarrow> l_beats l w \<noteq> None) \<and>
     (\<forall>i. l_ttl l i \<noteq> None \<longrightarrow> l_rec l i \<noteq> None \<and> \<not> active_job l i)"

definition l_tick :: "int \<Rightarrow> lstate \<Rightarrow> lstate" where
  "l_tick t l = l\<lparr>l_now := t,
     l_rec := (\<lambda>i. case l_ttl l i of Some d \<Rightarrow> if d \<le> t then None else l_rec l i | None \<Rightarrow> l_rec l i),
     l_ttl := (\<lambda>i. case l_ttl l i of Some d \<Rightarrow> if d \<le> t then None else Some d | None \<Rightarrow> None)\<rparr>"

inductive lstep :: "lstate \<Rightarrow> lstate \<Rightarrow> bool" where
  enqueue: "lstep l (l_enqueue i m l)"
| lease: "lstep l (l_lease w l)" if "l_beats l w \<noteq> None"
| rewrite: "lstep l (l_put i m' l)" if "l_rec l i = Some m" "\<not> terminal_in m" "\<not> terminal_in m'"
| finish: "lstep l (l_finish w i m n l)" if "i \<in> set (l_leases l w)" "terminal_in m"
| release: "lstep l (l_release w i l)" if "i \<in> set (l_leases l w)"
| give_back: "lstep l (l_push i (l_drop_lease w i l))" if "i \<in> set (l_leases l w)"
| collect: "lstep l (l_free i l)" if "l_rec l i = Some m" "terminal_in m"
| beat: "lstep l (l_beat w l)"
| deregister: "lstep l (l_deregister w l)"
| reap: "lstep l (fold l_reap_worker ws l)" if "distinct ws"
| tick: "lstep l (l_tick t l)" if "l_now l \<le> t"

lemma lease_okD:
  assumes "lease_ok l"
  shows "placed l i \<longleftrightarrow> active_job l i" "distinct (l_queue l)" "distinct (l_leases l w)"
    "i \<in> set (l_queue l) \<Longrightarrow> i \<notin> set (l_leases l w)"
    "i \<in> set (l_leases l w) \<Longrightarrow> i \<in> set (l_leases l u) \<Longrightarrow> w = u"
    "l_leases l w \<noteq> [] \<Longrightarrow> l_beats l w \<noteq> None"
    "l_ttl l i \<noteq> None \<Longrightarrow> l_rec l i \<noteq> None \<and> \<not> active_job l i"
  using assms unfolding lease_ok_def by blast+

lemma lease_okI:
  assumes "\<And>i. placed l i \<longleftrightarrow> active_job l i" "distinct (l_queue l)" "\<And>w. distinct (l_leases l w)"
    "\<And>i w. i \<in> set (l_queue l) \<Longrightarrow> i \<notin> set (l_leases l w)"
    "\<And>i w u. i \<in> set (l_leases l w) \<Longrightarrow> i \<in> set (l_leases l u) \<Longrightarrow> w = u"
    "\<And>w. l_leases l w \<noteq> [] \<Longrightarrow> l_beats l w \<noteq> None"
    "\<And>i. l_ttl l i \<noteq> None \<Longrightarrow> l_rec l i \<noteq> None \<and> \<not> active_job l i"
  shows "lease_ok l"
  using assms unfolding lease_ok_def by blast

lemma active_job_iff: "active_job l i \<longleftrightarrow> (\<exists>m. l_rec l i = Some m \<and> \<not> terminal_in m)"
  by (auto simp: active_job_def split: option.splits)

lemma placedI: "i \<in> set (l_queue l) \<Longrightarrow> placed l i" "i \<in> set (l_leases l w) \<Longrightarrow> placed l i"
  by (auto simp: placed_def)

lemma leased_active: "lease_ok l \<Longrightarrow> i \<in> set (l_leases l w) \<Longrightarrow> active_job l i"
  using lease_okD(1) placedI(2) by blast

section \<open>Every step keeps every job in one place\<close>

lemma terminal_in_set_status [simp]: "terminal_in (set_status st m) \<longleftrightarrow> terminal st"
  by (auto simp: terminal_in_def)

lemma terminal_simps [simp]: "\<not> terminal QUEUED" "\<not> terminal RUNNING" "\<not> terminal CREATED"
  "terminal COMPLETED" "terminal FAILED" "terminal CANCELLED"
  by (simp_all add: terminal_def)

lemma ok_put:
  assumes "lease_ok l" "active_job l i" "\<not> terminal_in m'"
  shows "lease_ok (l_put i m' l)"
proof -
  note D = lease_okD [OF assms(1)]
  have act: "active_job (l_put i m' l) j \<longleftrightarrow> active_job l j" for j
    using assms(2,3) by (simp add: active_job_def l_put_def)
  have "l_rec (l_put i m' l) j = None \<longleftrightarrow> l_rec l j = None" for j
    using assms(2) by (auto simp: active_job_iff l_put_def)
  with D act show ?thesis
    by (intro lease_okI) (auto simp: l_put_def placed_def)
qed

lemma ok_drop:
  assumes "lease_ok l" "i \<in> set (l_leases l w)"
  shows "set (l_leases (l_drop_lease w i l) u) = set (l_leases l u) - {i}"
proof -
  note D = lease_okD [OF assms(1)]
  show ?thesis using D(3,5) assms(2) by (auto simp: l_drop_lease_def)
qed

lemma ok_enqueue:
  assumes "lease_ok l"
  shows "lease_ok (l_enqueue i m l)"
proof (cases "l_rec l i = None")
  case True
  note D = lease_okD [OF assms]
  have i: "i \<notin> set (l_queue l)" "\<And>w. i \<notin> set (l_leases l w)"
    using D(1) [of i] True by (auto simp: placed_def active_job_def)
  have ttl: "l_ttl l i = None" using D(7) [of i] True by (cases "l_ttl l i") auto
  have "active_job (l_enqueue i m l) j \<longleftrightarrow> j = i \<or> active_job l j" for j
    using True by (simp add: l_enqueue_def active_job_def)
  moreover have "placed (l_enqueue i m l) j \<longleftrightarrow> j = i \<or> placed l j" for j
    using True by (auto simp: l_enqueue_def placed_def)
  ultimately show ?thesis
    using D i ttl True by (intro lease_okI) (auto simp: l_enqueue_def split: if_split_asm)
qed (use assms in \<open>simp add: l_enqueue_def\<close>)

lemma ok_lease:
  assumes "lease_ok l" "l_beats l w \<noteq> None"
  shows "lease_ok (l_lease w l)"
proof (cases "l_queue l")
  case (Cons i q)
  note D = lease_okD [OF assms(1)]
  have "placed (l_lease w l) j \<longleftrightarrow> placed l j" for j using Cons by (auto simp: l_lease_def placed_def)
  moreover have "active_job (l_lease w l) j \<longleftrightarrow> active_job l j" for j
    by (simp add: l_lease_def active_job_def Cons)
  moreover have i: "i \<notin> set (l_leases l u)" "i \<notin> set q" for u using D(2) D(4) [of i] Cons by auto
  moreover have "j \<notin> set (l_leases l u)" if "j \<in> set q" for j u using D(4) [of j u] Cons that by auto
  ultimately show ?thesis
    using D(1,2,3,5,6,7) Cons assms(2) by (intro lease_okI) (auto simp: l_lease_def split: if_split_asm)
qed (use assms in \<open>simp add: l_lease_def\<close>)

lemma ok_finish:
  assumes "lease_ok l" "i \<in> set (l_leases l w)" "terminal_in m"
  shows "lease_ok (l_finish w i m n l)"
proof -
  note D = lease_okD [OF assms(1)]
  from leased_active [OF assms(1,2)] obtain m0 where m0: "l_rec l i = Some m0"
    by (auto simp: active_job_iff)
  let ?l = "l_finish w i m n l"
  have t: "terminal_in (m0 ++ m)"
    using assms(3) by (auto simp: terminal_in_def status_in_def)
  have act: "active_job ?l j \<longleftrightarrow> j \<noteq> i \<and> active_job l j" for j
    using t by (simp add: l_finish_def m0 l_expire_def l_drop_lease_def l_put_def active_job_def)
  have leases: "set (l_leases ?l u) = set (l_leases l u) - {i}" for u
    using ok_drop [OF assms(1,2)] by (simp add: l_finish_def m0 l_expire_def l_drop_lease_def l_put_def)
  have rest: "l_queue ?l = l_queue l" "l_beats ?l = l_beats l" "\<And>u. distinct (l_leases ?l u)"
    "\<And>j. l_ttl ?l j = (if j = i then Some (l_now l + n) else l_ttl l j)"
    "\<And>j. l_rec ?l j = (if j = i then Some (m0 ++ m) else l_rec l j)"
    using D(3) by (auto simp: l_finish_def m0 l_expire_def l_drop_lease_def l_put_def)
  have q: "i \<notin> set (l_queue l)" using D(4) assms(2) by blast
  have e: "l_leases ?l u \<noteq> [] \<Longrightarrow> l_leases l u \<noteq> []" for u
    using leases [of u] by (metis Diff_empty insert_Diff_if empty_Diff set_empty)
  show ?thesis
  proof (rule lease_okI)
    show "placed ?l j \<longleftrightarrow> active_job ?l j" for j
      using D(1) [of j] q by (auto simp: act placed_def leases rest)
  qed (use D q in \<open>auto simp: act leases rest dest: e split: if_split_asm\<close>)
qed

lemma ok_give_back:
  assumes "lease_ok l" "i \<in> set (l_leases l w)"
  shows "lease_ok (l_push i (l_drop_lease w i l))"
proof -
  note D = lease_okD [OF assms(1)]
  let ?l = "l_push i (l_drop_lease w i l)"
  have act: "active_job ?l j \<longleftrightarrow> active_job l j" for j
    by (simp add: l_push_def l_drop_lease_def active_job_def)
  have leases: "set (l_leases ?l u) = set (l_leases l u) - {i}" for u
    using ok_drop [OF assms(1,2)] by (simp add: l_push_def)
  have rest: "l_queue ?l = l_queue l @ [i]" "l_beats ?l = l_beats l" "\<And>u. distinct (l_leases ?l u)"
    "l_ttl ?l = l_ttl l" "l_rec ?l = l_rec l"
    using D(3) by (auto simp: l_push_def l_drop_lease_def)
  have q: "i \<notin> set (l_queue l)" using D(4) assms(2) by blast
  have e: "l_leases ?l u \<noteq> [] \<Longrightarrow> l_leases l u \<noteq> []" for u
    using leases [of u] by (metis empty_Diff set_empty)
  show ?thesis
  proof (rule lease_okI)
    show "placed ?l j \<longleftrightarrow> active_job ?l j" for j
      using D(1) [of j] leased_active [OF assms] assms(2) by (auto simp: act placed_def leases rest)
  qed (use D q in \<open>auto simp: act leases rest dest: e\<close>)
qed

lemma ok_release:
  assumes "lease_ok l" "i \<in> set (l_leases l w)"
  shows "lease_ok (l_release w i l)"
proof -
  from leased_active [OF assms] obtain m where m: "l_rec l i = Some m" by (auto simp: active_job_iff)
  have "lease_ok (l_put i (set_status QUEUED m) l)"
    by (rule ok_put [OF assms(1) leased_active [OF assms]]) simp
  then have "lease_ok (l_push i (l_drop_lease w i (l_put i (set_status QUEUED m) l)))"
    by (rule ok_give_back) (use assms(2) in \<open>simp add: l_put_def\<close>)
  with m assms(1) show ?thesis by (simp add: l_release_def)
qed

lemma ok_free:
  assumes "lease_ok l" "l_rec l i = Some m" "terminal_in m"
  shows "lease_ok (l_free i l)"
proof -
  note D = lease_okD [OF assms(1)]
  have "active_job (l_free i l) j \<longleftrightarrow> active_job l j" for j
    using assms(2,3) by (simp add: l_free_def active_job_def)
  moreover have "placed (l_free i l) j \<longleftrightarrow> placed l j" for j by (simp add: l_free_def placed_def)
  ultimately show ?thesis using D by (intro lease_okI) (auto simp: l_free_def split: if_split_asm)
qed

lemma ok_frame:
  assumes "lease_ok l" "l_rec l' = l_rec l" "l_queue l' = l_queue l" "l_leases l' = l_leases l"
    "l_ttl l' = l_ttl l" "\<And>w. l_leases l w \<noteq> [] \<Longrightarrow> l_beats l' w \<noteq> None"
  shows "lease_ok l'"
proof -
  note D = lease_okD [OF assms(1)]
  have "active_job l' j \<longleftrightarrow> active_job l j" "placed l' j \<longleftrightarrow> placed l j" for j
    by (simp_all add: active_job_def placed_def assms(2-4))
  with D assms show ?thesis by (intro lease_okI) auto
qed

lemma ok_beat: "lease_ok l \<Longrightarrow> lease_ok (l_beat w l)"
  using lease_okD(6) [of l] by (intro ok_frame [of l "l_beat w l"]) (auto simp: l_beat_def)

lemma ok_deregister: "lease_ok l \<Longrightarrow> lease_ok (l_deregister w l)"
  using lease_okD(6) [of l]
  by (cases "l_leases l w = []"; intro ok_frame [of l "l_deregister w l"]) (auto simp: l_deregister_def)

lemma ok_tick:
  assumes "lease_ok l"
  shows "lease_ok (l_tick t l)"
proof -
  note D = lease_okD [OF assms]
  have "active_job (l_tick t l) j \<longleftrightarrow> active_job l j" for j
    using D(7) [of j] by (auto simp: l_tick_def active_job_def split: option.splits)
  moreover have "placed (l_tick t l) j \<longleftrightarrow> placed l j" for j by (simp add: l_tick_def placed_def)
  ultimately show ?thesis
    using D by (intro lease_okI) (auto simp: l_tick_def split: option.splits if_split_asm)
qed

lemma ok_reap_worker:
  assumes "lease_ok l"
  shows "lease_ok (l_reap_worker w l)"
proof -
  note D = lease_okD [OF assms]
  have known: "known_ids l (l_leases l w) = l_leases l w"
    using leased_active [OF assms, of _ w] by (force simp: known_ids_def active_job_iff intro: filter_True)
  have act: "active_job (l_reap_worker w l) j \<longleftrightarrow> active_job l j" for j
    by (auto simp: active_job_def requeued_def split: option.splits)
  moreover have "placed (l_reap_worker w l) j \<longleftrightarrow> placed l j" for j
    by (auto simp: placed_def known split: if_split_asm)
  moreover have "l_rec (l_reap_worker w l) j = None \<longleftrightarrow> l_rec l j = None" for j by simp
  ultimately show ?thesis
    using D by (intro lease_okI) (auto simp: known simp del: l_reap_worker_simps(6) split: if_split_asm)
qed

lemma ok_step: "lstep l l' \<Longrightarrow> lease_ok l \<Longrightarrow> lease_ok l'"
proof (induction rule: lstep.induct)
  case (rewrite l i m m')
  then show ?case by (intro ok_put) (auto simp: active_job_iff)
next
  case (reap ws l)
  then show ?case by (induction ws arbitrary: l) (auto intro: ok_reap_worker)
qed (auto intro: ok_enqueue ok_lease ok_finish ok_release ok_give_back ok_free ok_beat ok_deregister ok_tick)

section \<open>Steps of a cluster\<close>

definition registered :: "'s redis \<Rightarrow> rb \<Rightarrow> 's \<Rightarrow> bool" where
  "registered R c s \<longleftrightarrow> map_of (zset_at (r_view R s) WORKERS) (instance_id c) \<noteq> None"

definition holds_lease :: "'s redis \<Rightarrow> rb \<Rightarrow> string \<Rightarrow> 's \<Rightarrow> bool" where
  "holds_lease R c i s \<longleftrightarrow> i \<in> set (list_at (r_view R s) (processing_key (instance_id c)))"

text \<open>
  \<open>c\<close> is the backend object of the process that takes the step. A round trip whose reply is
  lost is the same step, one whose request is lost is no step; \<open>claim\<close> is its three round
  trips, so other processes act between them. Time passing is a step of the server.
\<close>

inductive cluster_step :: "'s redis \<Rightarrow> 's \<Rightarrow> 's \<Rightarrow> bool" for R where
  cs_enqueue: "cluster_step R s (snd (rb_enqueue R c i r s))" if "is_dict r" "storable (map_of r)"
| cs_heartbeat: "cluster_step R s (snd (rb_heartbeat R c s))"
| cs_lease: "cluster_step R s (snd (rb_lease R c s))" if "registered R c s"
| cs_mark: "cluster_step R s (snd (rb_mark R i s))" if "holds_lease R c i s"
| cs_return: "cluster_step R s (snd (rb_return R c i s))" if "holds_lease R c i s"
| cs_discard: "cluster_step R s (rb_discard R c i s)" if "holds_lease R c i s" "fst (rb_mark R i s) = Inr None"
| cs_save: "cluster_step R s (snd (rb_save R c i r True s))"
    if "holds_lease R c i s" "is_dict r" "storable (map_of r)" "terminal_in (map_of r)" "0 < result_ttl c"
| cs_release: "cluster_step R s (snd (rb_release R c i s))" if "holds_lease R c i s"
| cs_fetch: "cluster_step R s (snd (rb_fetch R i s))" if "rb_is_terminal R i s = Inr True"
| cs_cancel: "cluster_step R s (snd (rb_request_cancel R i s))"
| cs_deregister: "cluster_step R s (snd (rb_deregister R c s))"
| cs_reap: "cluster_step R s s'" if "rb_reap R c s = Some (x, s')"
| cs_time: "cluster_step R s s'" if "clock (r_view R s) \<le> t" "r_view R s' = advance t (r_view R s)"

text \<open>A run that starts on an empty keyspace.\<close>

definition cluster_run :: "'s redis \<Rightarrow> 's \<Rightarrow> bool" where
  "cluster_run R s \<longleftrightarrow> (\<exists>s0. keys (r_view R s0) = Map.empty \<and> (cluster_step R)\<^sup>*\<^sup>* s0 s)"

section \<open>Simulation\<close>

lemma lease_abs_advance:
  assumes "rb_inv v"
  shows "lease_abs (advance t v) = l_tick t (lease_abs v)"
proof -
  note D = rb_invD [OF assms]
  have "rb_view (advance t v) i = (if expired_key t v (job_key i) then None else rb_view v i)" for i
    by (simp add: rb_view_def)
  then have "rb_view (advance t v) =
      (\<lambda>i. case ttl_at v (job_key i) of Some d \<Rightarrow> if d \<le> t then None else rb_view v i | None \<Rightarrow> rb_view v i)"
    by (auto simp: fun_eq_iff expired_key_def split: option.splits)
  moreover have "\<not> expired_key t v QUEUE" "\<not> expired_key t v WORKERS" "\<And>w. \<not> expired_key t v (processing_key w)"
    using D(6-8) by (simp_all add: expired_key_def)
  ultimately show ?thesis
    by (auto simp: lease_abs_def l_tick_def fun_eq_iff expired_key_def split: option.splits)
qed

lemma rb_inv_advance:
  assumes "rb_inv v"
  shows "rb_inv (advance t v)"
proof -
  note D = rb_invD [OF assms]
  have "stored_ok (advance t v) i" for i using D(5) [of i] by (simp add: stored_ok_def)
  with D show ?thesis by (intro rb_invI) simp_all
qed

context redis_server
begin

lemma mark_overflow:
  assumes "sim R s l" "l_rec l i = Some m" "m ''attempts'' = Some (Str (str_of_int n))" "\<not> n < max_attempts"
  shows "sim R (snd (rb_mark R i s)) (l_put i (set_status RUNNING m) l)"
proof -
  let ?m = "set_status RUNNING m" and ?s = "r_HSET R (job_key i) [(''status'', status_value RUNNING)] s"
  have s: "sim R ?s (l_put i ?m l)" by (rule sim_HSET_status [OF assms(1,2)])
  have m: "l_rec (l_put i ?m l) i = Some ?m" by (simp add: l_put_def)
  have "r_HGET R (job_key i) ''attempts'' ?s = Some (str_of_int n)"
    using sim_HGET [OF s m, of "''attempts''"] assms(3) by simp
  then have at: "map_of (hash_at (r_view R ?s) (job_key i)) ''attempts'' = Some (str_of_int n)"
    using sim_inv [OF s] by (simp add: r_HGET)
  have no: "\<nexists>k. str_of_int n = str_of_int k \<and> in64 k \<and> in64 (k + 1)"
    using assms(4) by (auto simp: in64_def max_attempts_def)
  obtain e where "r_HINCRBY R (job_key i) ''attempts'' 1 ?s = Inl e"
    using r_HINCRBY_fail [OF _ at no] sim_inv [OF s] by auto
  with s assms(2) sim_EXISTS [OF assms(1), of i] show ?thesis
    by (simp add: rb_mark_def claim_script_def)
qed

lemma mark_step:
  assumes "sim R s l" "lease_ok l" "i \<in> set (l_leases l w)"
  shows "\<exists>l'. lstep l l' \<and> sim R (snd (rb_mark R i s)) l'"
proof -
  from leased_active [OF assms(2,3)] obtain m where m: "l_rec l i = Some m" "\<not> terminal_in m"
    by (auto simp: active_job_iff)
  obtain n where n: "m ''attempts'' = Some (Str (str_of_int n))"
    using sim_storable [OF assms(1) m(1)] by (auto simp: storable_def)
  show ?thesis
  proof (cases "n < max_attempts")
    case True
    then obtain s' where s': "snd (rb_mark R i s) = s'" "sim R s' (l_mark i (n + 1) l)"
      using mark_refines [OF assms(1) m(1) n] by auto
    have "l_mark i (n + 1) l = l_put i ((set_status RUNNING m)(''attempts'' \<mapsto> Str (str_of_int (n + 1)))) l"
      by (simp add: l_mark_def l_put_def m)
    moreover have "lstep l (l_put i ((set_status RUNNING m)(''attempts'' \<mapsto> Str (str_of_int (n + 1)))) l)"
      by (rule lstep.rewrite [OF m]) simp
    ultimately show ?thesis using s' by auto
  next
    case False
    moreover have "lstep l (l_put i (set_status RUNNING m) l)" by (rule lstep.rewrite [OF m]) simp
    ultimately show ?thesis using mark_overflow [OF assms(1) m(1) n] by blast
  qed
qed

lemma fetch_refines: "sim R s l \<Longrightarrow> sim R (snd (rb_fetch R i s)) (l_free i l)"
  by (simp add: rb_fetch_def Let_def sim_DEL)

lemma terminal_read:
  assumes "sim R s l" "rb_is_terminal R i s = Inr True"
  obtains m where "l_rec l i = Some m" "terminal_in m"
proof (cases "l_rec l i")
  case None
  then have "r_HGET R (job_key i) ''status'' s = None"
    using sim_HGETALL(1) [OF assms(1), of i] sim_inv [OF assms(1)] by (simp add: r_HGET r_HGETALL)
  with assms(2) show ?thesis by (simp add: rb_is_terminal_def)
next
  case (Some m)
  with is_terminal_refines [OF assms(1)] assms(2) that show ?thesis by simp
qed

lemma cancel_step:
  assumes "sim R s l"
  shows "\<exists>l'. lstep\<^sup>=\<^sup>= l l' \<and> sim R (snd (rb_request_cancel R i s)) l'"
proof -
  have s: "sim R (snd (rb_request_cancel R i s)) (l_cancel i l)"
    using cancel_script_refines [OF assms] by (simp add: rb_request_cancel_def split: prod.splits) (metis sndI)
  show ?thesis
  proof (cases "active_job l i")
    case True
    then obtain m where m: "l_rec l i = Some m" "\<not> terminal_in m" by (auto simp: active_job_iff)
    have "lstep l (l_cancel i l)"
      using lstep.rewrite [OF m, of "flagged m"] m by (simp add: l_cancel_def flagged_def)
    with s show ?thesis by blast
  next
    case False
    then have "l_cancel i l = l"
      by (auto simp: active_job_def l_cancel_def flagged_def l_put_def fun_upd_idem split: option.splits)
    with s show ?thesis by auto
  qed
qed

lemma step_simI:
  "lstep l l' \<Longrightarrow> \<exists>s'. f = (x, s') \<and> sim R s' l' \<and> P s' \<Longrightarrow> \<exists>l'. lstep\<^sup>=\<^sup>= l l' \<and> sim R (snd f) l'"
  by auto

lemma cluster_step_simulates:
  assumes "cluster_step R s s'" "sim R s l" "lease_ok l"
  shows "\<exists>l'. lstep\<^sup>=\<^sup>= l l' \<and> sim R s' l'"
  using assms
proof (induction rule: cluster_step.induct)
  case (cs_enqueue r s c i)
  show ?case
    by (rule step_simI [OF lstep.enqueue, where P = "\<lambda>_. True"])
      (use enqueue_refines [OF cs_enqueue(3,1,2)] in simp)
next
  case (cs_heartbeat s c)
  show ?case
    by (rule step_simI [OF lstep.beat, where P = "\<lambda>_. True"])
      (use heartbeat_refines [OF cs_heartbeat(1)] in simp)
next
  case (cs_lease c s)
  then have "lstep l (l_lease (instance_id c) l)"
    by (intro lstep.lease) (simp add: registered_def sim_reads(4) [OF cs_lease(2)])
  then show ?case using lease_refines [OF cs_lease(2), of c] by (rule step_simI)
next
  case (cs_mark c i s)
  then have "i \<in> set (l_leases l (instance_id c))"
    by (simp add: holds_lease_def sim_reads(3) [OF cs_mark(2)])
  from mark_step [OF cs_mark(2,3) this] show ?case by blast
next
  case (cs_return c i s)
  then have "lstep l (l_push i (l_drop_lease (instance_id c) i l))"
    by (intro lstep.give_back) (simp add: holds_lease_def sim_reads(3) [OF cs_return(2)])
  then show ?case using return_refines [OF cs_return(2)] by blast
next
  case (cs_discard c i s)
  then have i: "i \<in> set (l_leases l (instance_id c))"
    by (simp add: holds_lease_def sim_reads(3) [OF cs_discard(3)])
  from leased_active [OF cs_discard(4) i] obtain m where m: "l_rec l i = Some m" by (auto simp: active_job_iff)
  have "fst (rb_mark R i s) \<noteq> Inr None"
    using m sim_EXISTS [OF cs_discard(3), of i]
    by (auto simp: rb_mark_def claim_script_def Let_def split: sum.splits prod.splits)
  with cs_discard(2) show ?case by simp
next
  case (cs_save c i s r)
  then have i: "i \<in> set (l_leases l (instance_id c))"
    by (simp add: holds_lease_def sim_reads(3) [OF cs_save(6)])
  from leased_active [OF cs_save(7) i] obtain m where m: "l_rec l i = Some m" by (auto simp: active_job_iff)
  have "lstep l (l_finish (instance_id c) i (map_of r) (result_ttl c) l)"
    using i cs_save(4) by (rule lstep.finish)
  then show ?case
    by (rule step_simI [where P = "\<lambda>_. True"]) (use finish_refines [OF cs_save(6) m cs_save(2,3,5)] in simp)
next
  case (cs_release c i s)
  then have i: "i \<in> set (l_leases l (instance_id c))"
    by (simp add: holds_lease_def sim_reads(3) [OF cs_release(2)])
  from leased_active [OF cs_release(3) i] obtain m where m: "l_rec l i = Some m" by (auto simp: active_job_iff)
  show ?case using lstep.release [OF i] release_refines [OF cs_release(2) m, of c] by (rule step_simI)
next
  case (cs_fetch i s)
  obtain m where "l_rec l i = Some m" "terminal_in m" using cs_fetch(2,1) by (rule terminal_read)
  then have "lstep l (l_free i l)" by (rule lstep.collect)
  with fetch_refines [OF cs_fetch(2)] show ?case by blast
next
  case (cs_cancel s i)
  show ?case using cs_cancel(1) by (rule cancel_step)
next
  case (cs_deregister s c)
  show ?case
    by (rule step_simI [OF lstep.deregister, where P = "\<lambda>_. True"])
      (use deregister_refines [OF cs_deregister(1)] in simp)
next
  case (cs_reap c s x s')
  then obtain ws where "distinct ws" "sim R s' (fold l_reap_worker ws l)"
    using reap_refines [OF cs_reap(2), of c] by auto
  then show ?case using lstep.reap by blast
next
  case (cs_time s t s')
  then have "lstep l (l_tick t l)" by (intro lstep.tick) (simp add: sim_reads(5))
  moreover have "sim R s' (l_tick t l)"
    using cs_time(2,3) by (simp add: sim_def rb_inv_advance lease_abs_advance)
  ultimately show ?case by blast
qed

text \<open>The invariant of every run: the keyspace is typed and every job is in one place.\<close>

lemma cluster_invariant:
  assumes "(cluster_step R)\<^sup>*\<^sup>* s0 s" "keys (r_view R s0) = Map.empty"
  shows "sim R s (lease_abs (r_view R s)) \<and> lease_ok (lease_abs (r_view R s))"
  using assms(1)
proof (induction rule: rtranclp_induct)
  case base
  have e: "hash_at (r_view R s0) k = []" "list_at (r_view R s0) k = []" "zset_at (r_view R s0) k = []"
    "holds_hash (r_view R s0) k" "holds_list (r_view R s0) k" "holds_zset (r_view R s0) k"
    "ttl_at (r_view R s0) k = None" for k
    using assms(2) ttl_absent [of s0 k]
    by (simp_all add: hash_at_def list_at_def zset_at_def holds_hash_def holds_list_def holds_zset_def)
  then have "rb_inv (r_view R s0)" by (intro rb_invI) (simp_all add: stored_ok_def)
  moreover have "lease_ok (lease_abs (r_view R s0))"
    using e by (intro lease_okI) (simp_all add: placed_def active_job_def rb_view_def)
  ultimately show ?case by (simp add: sim_def)
next
  case (step s s')
  then obtain l' where l': "lstep\<^sup>=\<^sup>= (lease_abs (r_view R s)) l'" "sim R s' l'"
    using cluster_step_simulates by blast
  then have "lease_ok l'" using step.IH ok_step by auto
  with l'(2) show ?case using sim_abs by (metis rb_valid_sim sim_observed)
qed

lemma cluster_run_sim:
  assumes "cluster_run R s"
  shows "sim R s (lease_abs (r_view R s))" "lease_ok (lease_abs (r_view R s))"
  using assms cluster_invariant by (auto simp: cluster_run_def)

lemma reap_effect:
  assumes "sim R s l" "lease_ok l"
  shows "\<exists>ids s'. rb_reap R c s = Some (Inr (int (length ids)), s') \<and> rb_valid R s' \<and>
    (let l' = lease_abs (r_view R s') in
       l_queue l' = l_queue l @ ids \<and> distinct ids \<and>
       set ids = {i. \<exists>w. l_expired (worker_ttl c) l w \<and> i \<in> set (l_leases l w)} \<and>
       l_leases l' = (\<lambda>w. if l_expired (worker_ttl c) l w then [] else l_leases l w) \<and>
       l_beats l' = (\<lambda>w. if l_expired (worker_ttl c) l w then None else l_beats l w) \<and>
       l_rec l' = (\<lambda>i. if i \<in> set ids then map_option requeued (l_rec l i) else l_rec l i))"
proof -
  obtain ws s' where s': "rb_reap R c s = Some (Inr (int (length (known_ids l (reaped_ids l ws)))), s')"
    "distinct ws" "set ws = {w. l_expired (worker_ttl c) l w}" "sim R s' (fold l_reap_worker ws l)"
    using reap_refines [OF assms(1)] by blast
  note D = lease_okD [OF assms(2)]
  have ids: "set (reaped_ids l ws) = {i. \<exists>w. l_expired (worker_ttl c) l w \<and> i \<in> set (l_leases l w)}"
    using s'(3) by (auto simp: reaped_ids_def)
  have "\<forall>i \<in> set (reaped_ids l ws). l_rec l i \<noteq> None"
    using leased_active [OF assms(2)] by (auto simp: ids active_job_iff)
  then have known: "known_ids l (reaped_ids l ws) = reaped_ids l ws"
    unfolding known_ids_def by (intro filter_True) blast
  have "distinct (reaped_ids l ws)"
    using s'(2) D(3,5) by (induction ws) (auto simp: reaped_ids_def)
  with s' ids known sim_abs [OF s'(4)] sim_inv [OF s'(4)] fold_reap_workers [OF s'(2), of l] show ?thesis
    by (intro exI [of _ "reaped_ids l ws"] exI [of _ s']) (simp add: rb_valid_def)
qed

lemma mark_reopens:
  assumes "sim R s l" "l_rec l i = Some m" "m ''attempts'' = Some (Str (str_of_int n))" "n < max_attempts"
    "\<not> placed l i"
  shows "active_job (lease_abs (r_view R (snd (rb_mark R i s)))) i \<and>
    \<not> placed (lease_abs (r_view R (snd (rb_mark R i s)))) i"
proof -
  obtain s' where s': "snd (rb_mark R i s) = s'" "sim R s' (l_mark i (n + 1) l)"
    using mark_refines [OF assms(1-4)] by auto
  then show ?thesis
    using sim_abs [OF s'(2)] assms(2,5) by (simp add: active_job_def placed_def l_mark_def)
qed

end

section \<open>Properties of every run\<close>

definition demo_record :: hrecord where
  "demo_record = [(''id'', Str ''a''), (''task_name'', Str ''m.f''), (''status'', Str ''created''),
     (''attempts'', Str ''0''), (''request_cancel'', Str ''0''), (''payload'', Bytes ''x'')]"

definition mini_empty :: rstate where
  "mini_empty = \<lparr>keys = Map.empty, ttl_at = Map.empty, clock = 100, sent = []\<rparr>"

text \<open>One job submitted and leased by a registered worker.\<close>

definition mini_leased :: rstate where
  "mini_leased = snd (rb_lease mini_redis mini_config (snd (rb_heartbeat mini_redis mini_config
     (snd (rb_enqueue mini_redis mini_config ''a'' demo_record mini_empty)))))"

lemma demo_record_ok: "is_dict demo_record" "storable (map_of demo_record)"
  using str_of_int_0_1
  by (auto simp: demo_record_def is_dict_def storable_def typed_field_def blob_field_def status_in_def
      status_value.simps of_bool_def intro: exI [of _ CREATED] exI [of _ False] exI [of _ "0::int"])


lemma mini_empty_keys: "keys (r_view mini_redis mini_empty) = Map.empty"
  by (simp add: mini_redis_def tidy_def mini_empty_def)

lemma mini_leased_run: "cluster_run mini_redis mini_leased"
proof -
  let ?s1 = "snd (rb_enqueue mini_redis mini_config ''a'' demo_record mini_empty)"
  let ?s2 = "snd (rb_heartbeat mini_redis mini_config ?s1)"
  have 1: "cluster_step mini_redis mini_empty ?s1" using demo_record_ok by (rule cs_enqueue)
  have 2: "cluster_step mini_redis ?s1 ?s2" by (rule cs_heartbeat)
  have "registered mini_redis mini_config ?s2"
  proof -
    have "sim mini_redis ?s1 (lease_abs (r_view mini_redis ?s1))"
      using mini.cluster_invariant [OF r_into_rtranclp [of "cluster_step mini_redis", OF 1] mini_empty_keys] by blast
    from mini.heartbeat_refines [OF this, of mini_config] obtain s' where
      "rb_heartbeat mini_redis mini_config ?s1 = (Inr (), s')"
      "sim mini_redis s' (l_beat (instance_id mini_config) (lease_abs (r_view mini_redis ?s1)))"
      by blast
    then show ?thesis by (simp add: registered_def sim_reads(4) l_beat_def)
  qed
  then have 3: "cluster_step mini_redis ?s2 mini_leased" unfolding mini_leased_def by (rule cs_lease)
  have "(cluster_step mini_redis)\<^sup>*\<^sup>* mini_empty mini_leased"
    using 1 2 3 by (meson converse_rtranclp_into_rtranclp rtranclp.rtrancl_refl)
  then show ?thesis unfolding cluster_run_def using mini_empty_keys by blast
qed


text \<open>The same worker thirty seconds later, without a beat.\<close>

definition mini_dead :: rstate where
  "mini_dead = advance 130 (tidy mini_leased)"

lemma mini_dead_run: "cluster_run mini_redis mini_dead"
proof -
  have "r_view mini_redis mini_dead = advance 130 (r_view mini_redis mini_leased)"
    by (simp add: mini_redis_def mini_dead_def)
  moreover have "clock (r_view mini_redis mini_leased) \<le> 130" by code_simp
  ultimately have "cluster_step mini_redis mini_leased mini_dead" by (intro cs_time)
  with mini_leased_run show ?thesis
    unfolding cluster_run_def by (meson rtranclp.rtrancl_into_rtrancl)
qed



text \<open>(C36) What the fence of \<open>cluster_step\<close> excludes: the claim script marks whatever record
  exists, finished or not. If a worker runs it after its lease is gone and the job was finished
  by another (a process stalled for longer than the TTL between the two round trips of
  \<open>claim\<close>), the finished job becomes active again and is neither queued nor leased: no
  worker and no reaper will ever find it.\<close>

theorem stale_claim_strands_job:
  assumes "redis_server R" "cluster_run R s"
    "l_rec (lease_abs (r_view R s)) i = Some m" "terminal_in m"
    "m ''attempts'' = Some (Str (str_of_int n))" "n < max_attempts"
  shows "active_job (lease_abs (r_view R (snd (rb_mark R i s)))) i \<and>
    \<not> placed (lease_abs (r_view R (snd (rb_mark R i s)))) i"
proof -
  note run = redis_server.cluster_run_sim [OF assms(1,2)]
  have "\<not> placed (lease_abs (r_view R s)) i"
    using lease_okD(1) [OF run(2)] assms(3,4) by (simp add: active_job_def)
  then show ?thesis using redis_server.mark_reopens [OF assms(1) run(1) assms(3,5,6)] by blast
qed

definition demo_done :: hrecord where
  "demo_done = [(''status'', Str ''completed''), (''attempts'', Str ''1''), (''request_cancel'', Str ''0'')]"

lemma demo_done_ok: "storable (map_of demo_done)" "terminal_in (map_of demo_done)"
  using str_of_int_0_1
  by (auto simp: demo_done_def storable_def typed_field_def blob_field_def status_in_def terminal_in_def
      status_value.simps of_bool_def intro!: exI [of _ COMPLETED] exI [of _ False] exI [of _ "1::int"])

definition mini_done :: rstate where
  "mini_done = snd (rb_save mini_redis mini_config ''a'' demo_done True mini_leased)"

lemma mini_done_run: "cluster_run mini_redis mini_done"
proof -
  note demo_done_ok
  moreover have "holds_lease mini_redis mini_config ''a'' mini_leased" by code_simp
  ultimately have "cluster_step mini_redis mini_leased mini_done"
    unfolding mini_done_def
    by (intro cs_save) (simp_all add: demo_done_def is_dict_def mini_config_def DEFAULT_RESULT_TTL_SECONDS_def)
  with mini_leased_run show ?thesis
    unfolding cluster_run_def by (meson rtranclp.rtrancl_into_rtrancl)
qed

theorem stale_claim_strands_job_witness:
  "\<exists>i. active_job (lease_abs (r_view mini_redis (snd (rb_mark mini_redis i mini_done)))) i \<and>
     \<not> placed (lease_abs (r_view mini_redis (snd (rb_mark mini_redis i mini_done)))) i"
proof -
  obtain m where m: "l_rec (lease_abs (r_view mini_redis mini_done)) ''a'' = Some m"
    "m ''status'' = Some (Str ''completed'')" "m ''attempts'' = Some (Str ''1'')"
  proof -
    have "(case l_rec (lease_abs (r_view mini_redis mini_done)) ''a'' of None \<Rightarrow> False
       | Some m \<Rightarrow> m ''status'' = Some (Str ''completed'') \<and> m ''attempts'' = Some (Str ''1''))"
      by code_simp
    with that show ?thesis by (auto split: option.splits)
  qed
  have "terminal_in m" using m(2) by (auto simp: terminal_in_def status_in_def status_value.simps intro: exI [of _ COMPLETED])
  then have "active_job (lease_abs (r_view mini_redis (snd (rb_mark mini_redis ''a'' mini_done)))) ''a'' \<and>
     \<not> placed (lease_abs (r_view mini_redis (snd (rb_mark mini_redis ''a'' mini_done)))) ''a''"
    using stale_claim_strands_job [OF mini.redis_server_axioms mini_done_run m(1), of 1] m(3)
    by (simp add: max_attempts_def)
  then show ?thesis by blast
qed

end
