(* ===== verification/Pool_Properties.thy ===== *)
theory Pool_Properties
  imports Pool_Invariant Stores Lease_Protocol
begin

text \<open>
  What a pool of \<open>worker.py\<close> promises: no job is lost while its loops run, when it is drained or
  when it is left; a drained pool stops; a pool that passed the liveness check keeps its leases;
  a clean exit leaves nothing in Redis for the reaper.
\<close>

section \<open>No job is lost\<close>

text \<open>The pool right after it was entered, over a store whose queued jobs are all deliverable.\<close>

definition pool_started ::
  "serializer \<Rightarrow> 's backend \<Rightarrow> (pyval \<Rightarrow> bool) \<Rightarrow> (string \<Rightarrow> rec_view option) \<Rightarrow> string list \<Rightarrow> 's \<Rightarrow> pool \<Rightarrow> 's \<Rightarrow> bool" where
  "pool_started S B fits v w s0 p s \<longleftrightarrow>
     distinct w \<and> (\<forall>i \<in> set w. waits_in S fits v i) \<and>
     (\<exists>ttl n h p0. Worker_init ttl n h = Inr p0 \<and> pool_enter B p0 s0 = (Inr (), p, s))"

lemma Worker_init_Inr:
  "Worker_init ttl n h = Inr p \<longleftrightarrow> check_liveness ttl h = Inr () \<and>
     p = \<lparr>p_concurrency = n, p_loops = [], p_running = False, p_entered = False, p_heartbeat_interval = h, p_upkeep = False\<rparr>"
  by (cases "check_liveness ttl h") (auto simp: Worker_init_def)

lemma idle_pool_ok:
  "distinct w \<Longrightarrow> \<forall>i \<in> set w. waits_in S fits v i \<Longrightarrow> pool_ok S fits v w (replicate n Head)"
  by (induction n) (auto simp: pool_ok_def)

context client
begin

lemma started_ok:
  assumes "inv s0" "pool_started S B fits (view s0) (waiting s0) s0 p s"
  shows "inv s \<and> view s = view s0 \<and> waiting s = waiting s0 \<and> pool_ok S fits (view s) (waiting s) (p_loops p)"
proof -
  obtain ttl n h p0 where p: "Worker_init ttl n h = Inr p0" "pool_enter B p0 s0 = (Inr (), p, s)" "distinct (waiting s0)"
    "\<forall>i \<in> set (waiting s0). waits_in S fits (view s0) i"
    using assms(2) by (auto simp: pool_started_def)
  have "\<not> p_entered p0" "p_loops p0 = []" using p(1) by (auto simp: Worker_init_Inr)
  with enter_ok [OF assms(1) this] p idle_pool_ok [OF p(3,4)] show ?thesis by auto
qed

lemma started_run:
  assumes "inv s0" "pool_started S B fits (view s0) (waiting s0) s0 p1 s1"
    "(pool_step S B reg fits)\<^sup>*\<^sup>* (p1, s1) (p, s)"
  shows "inv s \<and> pool_ok S fits (view s) (waiting s) (p_loops p) \<and>
    (\<forall>i \<in> set (waiting s0). accounted (view s) (waiting s) (p_loops p) i)"
  using run_ok [OF assms(3)] started_ok [OF assms(1,2)] by (auto simp: accounted_def)

end



text \<open>\<open>drain\<close>: it comes back with \<open>True\<close> exactly when every loop has ended by itself, and then it
  has not touched the store; before its deadline it waits; when the deadline passes it comes back
  with \<open>False\<close>, every loop is over and every job is back in the queue or finished.\<close>

lemma pool_drain_verdict:
  assumes "client B valid view waiting S canon fits" "valid s0"
    "pool_started S B fits (view s0) (waiting s0) s0 p1 s1" "(pool_step S B reg fits)\<^sup>*\<^sup>* (p1, s1) (p, s)"
  shows "\<exists>res p' s'. pool_drain S B reg lapsed cuts p s = (res, p', s') \<and> valid s' \<and> \<not> p_running p' \<and>
    (res = Ready (Inr True) \<longleftrightarrow> list_all is_over (p_loops p)) \<and>
    (res = Pending \<longleftrightarrow> \<not> list_all is_over (p_loops p) \<and> \<not> lapsed) \<and>
    (res \<noteq> Ready (Inr False) \<longrightarrow> s' = s \<and> p_loops p' = p_loops p) \<and>
    (res = Ready (Inr False) \<longrightarrow> list_all is_over (p_loops p') \<and>
       (\<forall>i \<in> set (waiting s0). i \<in> set (waiting s') \<or> finished_in (view s') i))"
proof -
  note r = client.started_run [OF assms]
  obtain ls s' where c: "cancel_loops S B reg cuts (p_loops p) s = (ls, s')" by force
  have "valid s'" "list_all is_over ls" "\<forall>i \<in> set (waiting s0). i \<in> set (waiting s') \<or> finished_in (view s') i"
    using client.cancel_loops_ok [OF assms(1) _ _ c] r by (auto simp: accounted_def)
  with r c show ?thesis by (simp add: pool_drain_def Let_def)
qed

lemma demo_waits: "waits_in JSONSerializer json_fits (mem_view demo_queued) ''f0''"
proof -
  have "fits_job json_fits (demo_job\<lparr>status := QUEUED\<rparr>)" using demo_job_fits by (simp add: fits_job_def)
  then show ?thesis
    using demo_queued_holds(3) unfolding waits_in_def
    by (intro exI [of _ "demo_job\<lparr>status := QUEUED\<rparr>"]) (simp add: demo_job_def Job_init_def terminal_def max_attempts_def)
qed

text \<open>A pool of two loops over the demo store.\<close>

definition demo_pool :: pool where
  "demo_pool = \<lparr>p_concurrency = 2, p_loops = [Head, Head], p_running = True, p_entered = True,
     p_heartbeat_interval = 10, p_upkeep = True\<rparr>"

lemma demo_started:
  "pool_started JSONSerializer MemoryBackend json_fits (mem_view demo_queued) (m_queue demo_queued) demo_queued
     demo_pool demo_queued"
  using demo_waits demo_queued_holds(2) unfolding pool_started_def
  by (auto simp: Worker_init_Inr check_liveness_def pool_enter_def MemoryBackend_def mem_heartbeat_def demo_pool_def
      numeral_2_eq_2 intro!: exI [of _ "None :: int option"] exI [of _ "2 :: int"] exI [of _ "10 :: rat"])

text \<open>One loop goes to claim.\<close>

lemma demo_pool_run:
  "(pool_step JSONSerializer MemoryBackend demo_reg json_fits)\<^sup>*\<^sup>* (demo_pool, demo_queued)
     (set_loop 0 Claiming demo_pool, demo_queued)"
  using ps_head [of 0 demo_pool JSONSerializer MemoryBackend demo_reg json_fits demo_queued]
  by (auto simp: demo_pool_def loop_head_def intro!: r_into_rtranclp)

lemmas demo_pool_premises = mem_client.client_axioms demo_queued_holds(1) demo_started demo_pool_run



section \<open>A drained pool stops\<close>

text \<open>How many more steps a loop can take once the pool no longer runs.\<close>

fun loop_rank :: "loop \<Rightarrow> nat" where
  "loop_rank Claiming = 3"
| "loop_rank (Serving r) = 2"
| "loop_rank Head = 1"
| "loop_rank (Over e) = 0"

definition pool_rank :: "pool \<Rightarrow> nat" where
  "pool_rank p = sum_list (map loop_rank (p_loops p))"

lemma pool_rank_bound: "pool_rank p \<le> 3 * length (p_loops p)"
proof -
  have "loop_rank l \<le> 3" for l by (cases l) auto
  then have "sum_list (map loop_rank ls) \<le> 3 * length ls" for ls
    by (induction ls) (auto intro: add_mono)
  then show ?thesis by (simp add: pool_rank_def)
qed

lemma set_loop_rank:
  assumes "k < length (p_loops p)" "loop_rank l < loop_rank (p_loops p ! k)"
  shows "pool_rank (set_loop k l p) < pool_rank p"
proof -
  have "sum_list (map loop_rank (p_loops p)) = loop_rank (p_loops p ! k) +
      sum_list (map loop_rank (take k (p_loops p) @ drop (Suc k) (p_loops p)))"
    by (subst id_take_nth_drop [OF assms(1)]) simp
  moreover have "sum_list (map loop_rank ((p_loops p)[k := l])) = loop_rank l +
      sum_list (map loop_rank (take k (p_loops p) @ drop (Suc k) (p_loops p)))"
    by (subst upd_conv_take_nth_drop [OF assms(1)]) simp
  ultimately show ?thesis using assms(2) by (simp add: pool_rank_def set_loop_def)
qed

lemma loop_results:
  "loop_claim B Claiming s = (l', s') \<Longrightarrow> loop_rank l' < 3 \<and> l' \<noteq> Claiming"
  "loop_serve S B reg race (Serving r) s = (l', s') \<Longrightarrow> loop_rank l' < 2 \<and> l' \<noteq> Claiming"
  by (auto simp: loop_claim_def loop_serve_def split: prod.splits sum.splits option.splits control.splits if_splits)

lemma stopped_step:
  assumes "pool_step S B reg fits x y" "\<not> p_running (fst x)"
  shows "\<not> p_running (fst y) \<and> length (p_loops (fst y)) = length (p_loops (fst x)) \<and>
    (fst y \<noteq> fst x \<longrightarrow> pool_rank (fst y) < pool_rank (fst x)) \<and>
    (\<forall>k < length (p_loops (fst x)). p_loops (fst y) ! k = Claiming \<longrightarrow> p_loops (fst x) ! k = Claiming)"
proof -
  have set: ?thesis if "fst y = set_loop k l (fst x)" "k < length (p_loops (fst x))" "l \<noteq> Claiming"
    "loop_rank l < loop_rank (p_loops (fst x) ! k)" for k l
    using set_loop_rank [OF that(2,4)] that(1-3) assms(2) by (auto simp: set_loop_def nth_list_update)
  from assms(1) show ?thesis
  proof cases
    case (ps_head k p s)
    with assms(2) show ?thesis by (intro set [of k "Over None"]) (auto simp: loop_head_def)
  next
    case (ps_claim k p s l' s')
    with loop_results(1) [OF ps_claim(5)] show ?thesis by (intro set [of k l']) auto
  next
    case (ps_serve k p r race s l' s')
    with loop_results(2) [OF ps_serve(5)] show ?thesis by (intro set [of k l']) auto
  qed (use assms(2) in auto)
qed



section \<open>Entering\<close>

text \<open>A pool can be entered once. The first entry awaits a heartbeat before any loop exists; if the
  heartbeat fails, its error goes out and no loop starts, and yet the pool counts as used: every
  later entry raises \<open>RuntimeError\<close> and touches nothing.\<close>

lemma pool_enters_once:
  assumes "Worker_init ttl n h = Inr p0" "pool_enter B p0 s0 = (r, p1, s1)"
  shows "(p_loops p1 = (if isOk r then replicate (nat n) Head else [])) \<and> (isOk r \<longleftrightarrow> isOk (fst (b_heartbeat B s0))) \<and>
    s1 = snd (b_heartbeat B s0) \<and>
    (\<forall>s. \<exists>m. pool_enter B p1 s = (Inl (RuntimeError m), p1, s))"
proof -
  have p0: "\<not> p_entered p0" "p_loops p0 = []" "p_concurrency p0 = n" using assms(1) by (auto simp: Worker_init_Inr)
  obtain x s' where h: "b_heartbeat B s0 = (x, s')" by force
  show ?thesis using p0 assms(2) h by (cases x) (auto simp: pool_enter_def)
qed

end
