(* ===== verification/Pool_Leases.thy ===== *)
theory Pool_Leases
  imports Pool Lease_Protocol Serializers
begin

text \<open>
  A pool over Redis: the liveness check of \<open>worker.py\<close> against the reaper's TTL, and what a clean
  exit leaves in the lease state.
\<close>

section \<open>The liveness check\<close>

lemma Worker_init_ttl:
  "Worker_init (Some ttl) n h = Inr p \<Longrightarrow> of_nat MIN_BEATS_PER_TTL * h \<le> of_int ttl"
  by (auto simp: Worker_init_def check_liveness_def mult.commute split: if_splits)

text \<open>A pool is refused, with \<open>ConfigError\<close>, exactly when fewer than three of its heartbeat
  intervals fit in the backend's worker TTL; a backend without a TTL accepts any interval, and the
  two defaults go together with nothing to spare.\<close>

lemma slow_heartbeat_refused:
  "((\<exists>m. Worker_init (Some ttl) n h = Inl (ConfigError m)) \<longleftrightarrow> of_int ttl < 3 * h) \<and>
   ((\<exists>p. Worker_init (Some ttl) n h = Inr p) \<longleftrightarrow> 3 * h \<le> of_int ttl) \<and>
   (\<exists>p. Worker_init None n h = Inr p) \<and>
   3 * DEFAULT_HEARTBEAT_INTERVAL_SECONDS = of_int DEFAULT_WORKER_TTL_SECONDS"
  by (auto simp: Worker_init_def check_liveness_def MIN_BEATS_PER_TTL_def DEFAULT_HEARTBEAT_INTERVAL_SECONDS_def
      DEFAULT_WORKER_TTL_SECONDS_def mult.commute not_less)

context redis_server
begin

text \<open>A worker whose last beat is younger than the TTL is untouched by a reap.\<close>

lemma reap_spares:
  assumes "sim R s l" "lease_ok l" "\<not> l_expired (worker_ttl c) l w"
  shows "\<exists>n s'. rb_reap R c s = Some (Inr n, s') \<and>
    (let l' = lease_abs (r_view R s') in
       l_leases l' w = l_leases l w \<and> l_beats l' w = l_beats l w \<and>
       (\<forall>i \<in> set (l_leases l w). l_rec l' i = l_rec l i \<and> i \<notin> set (l_queue l')))"
proof -
  obtain ids s' where s': "rb_reap R c s = Some (Inr (int (length ids)), s')"
    "set ids = {i. \<exists>w. l_expired (worker_ttl c) l w \<and> i \<in> set (l_leases l w)}"
    "l_queue (lease_abs (r_view R s')) = l_queue l @ ids"
    "l_leases (lease_abs (r_view R s')) = (\<lambda>w. if l_expired (worker_ttl c) l w then [] else l_leases l w)"
    "l_beats (lease_abs (r_view R s')) = (\<lambda>w. if l_expired (worker_ttl c) l w then None else l_beats l w)"
    "l_rec (lease_abs (r_view R s')) = (\<lambda>i. if i \<in> set ids then map_option requeued (l_rec l i) else l_rec l i)"
    using reap_effect [OF assms(1,2), of c] unfolding Let_def by blast
  have i: "i \<notin> set ids" if "i \<in> set (l_leases l w)" for i
    using s'(2) lease_okD(5) [OF assms(2) that] assms(3) by blast
  have "i \<notin> set (l_queue l)" if "i \<in> set (l_leases l w)" for i
    using lease_okD(4) [OF assms(2)] that by blast
  then show ?thesis
    using i assms(3) unfolding Let_def
    by (intro exI [of _ "int (length ids)"] exI [of _ s']) (simp only: s' set_append, auto)
qed

end

text \<open>(C20) The margin of the liveness check is enough: on every run, a worker that has missed fewer than
  three beats in a row, by an interval the check accepted, is not presumed dead. A reap leaves its
  registration, its leases and the records of its jobs as they are, and queues none of them.\<close>

theorem live_worker_keeps_leases:
  assumes "redis_server R" "cluster_run R s" "Worker_init (Some (worker_ttl c)) n h = Inr p"
    "l_beats (lease_abs (r_view R s)) w = Some b"
    "of_int (l_now (lease_abs (r_view R s)) - b) < of_nat MIN_BEATS_PER_TTL * h"
  shows "\<exists>n s'. rb_reap R c s = Some (Inr n, s') \<and>
    (let l = lease_abs (r_view R s); l' = lease_abs (r_view R s') in
       l_leases l' w = l_leases l w \<and> l_beats l' w = Some b \<and>
       (\<forall>i \<in> set (l_leases l w). l_rec l' i = l_rec l i \<and> i \<notin> set (l_queue l')))"
proof -
  have "(of_int (l_now (lease_abs (r_view R s)) - b) :: rat) < of_int (worker_ttl c)"
    using Worker_init_ttl [OF assms(3)] assms(5) by linarith
  then have "\<not> l_expired (worker_ttl c) (lease_abs (r_view R s)) w"
    using assms(4) by (simp add: l_expired_def del: lease_abs_reads)
  from redis_server.reap_spares [OF assms(1) redis_server.cluster_run_sim [OF assms(1,2)] this]
  show ?thesis unfolding Let_def assms(4) .
qed

theorem live_worker_keeps_leases_witness:
  "\<exists>n s'. rb_reap mini_redis mini_config mini_leased = Some (Inr n, s') \<and>
     l_leases (lease_abs (r_view mini_redis s')) ''w1'' = [''a'']"
proof -
  have w: "Worker_init (Some (worker_ttl mini_config)) 2 10 = Inr \<lparr>p_concurrency = 2, p_loops = [], p_running = False,
      p_entered = False, p_heartbeat_interval = 10, p_upkeep = False\<rparr>"
    by (simp add: Worker_init_def check_liveness_def MIN_BEATS_PER_TTL_def mini_config_def DEFAULT_WORKER_TTL_SECONDS_def)
  have b: "l_beats (lease_abs (r_view mini_redis mini_leased)) ''w1'' = Some 100"
    "l_now (lease_abs (r_view mini_redis mini_leased)) = 100" "l_leases (lease_abs (r_view mini_redis mini_leased)) ''w1'' = [''a'']"
    by (code_simp, code_simp, code_simp)
  from live_worker_keeps_leases [OF mini.redis_server_axioms mini_leased_run w b(1)] b(2,3) show ?thesis
    by (auto simp: Let_def MIN_BEATS_PER_TTL_def simp del: lease_abs_reads)
qed

section \<open>A clean exit\<close>

definition clean_exit :: "string \<Rightarrow> string list \<Rightarrow> lstate \<Rightarrow> lstate" where
  "clean_exit w ids l = fold (l_release w) ids l"

lemma mset_fold_remove1: "mset (fold remove1 ids xs) = mset xs - mset ids"
  by (induction ids arbitrary: xs) (simp_all add: diff_diff_add)

definition running_in :: "lstate \<Rightarrow> string \<Rightarrow> bool" where
  "running_in l i \<longleftrightarrow> (\<exists>m. l_rec l i = Some m \<and> status_in m RUNNING)"

lemma release_running_simps:
  assumes "running_in l i"
  shows "l_queue (l_release w i l) = l_queue l @ [i]" "l_beats (l_release w i l) = l_beats l"
    "l_leases (l_release w i l) = (l_leases l)(w := remove1 i (l_leases l w))"
    "l_rec (l_release w i l) = (l_rec l)(i := map_option (set_status QUEUED) (l_rec l i))"
  using assms by (auto simp: running_in_def l_release_def l_push_def l_drop_lease_def l_put_def)

lemma clean_exit_effect:
  assumes "distinct ids" "\<forall>i \<in> set ids. running_in l i"
  shows "l_queue (clean_exit w ids l) = l_queue l @ ids \<and> l_beats (clean_exit w ids l) = l_beats l \<and>
    l_leases (clean_exit w ids l) = (l_leases l)(w := fold remove1 ids (l_leases l w)) \<and>
    l_rec (clean_exit w ids l) = (\<lambda>i. if i \<in> set ids then map_option (set_status QUEUED) (l_rec l i) else l_rec l i)"
  using assms
proof (induction ids arbitrary: l)
  case Nil
  then show ?case by (simp add: clean_exit_def)
next
  case (Cons i ids)
  have i: "running_in l i" using Cons.prems(2) by simp
  have "running_in (l_release w i l) k" if "k \<in> set ids" for k
    using Cons.prems that by (auto simp: running_in_def release_running_simps [OF i])
  with Cons.IH [of "l_release w i l"] Cons.prems(1) show ?case
    by (auto simp: clean_exit_def release_running_simps [OF i] fun_eq_iff)
qed

context redis_backend
begin

text \<open>Interrupting every loop before its terminal write releases the records they hold.\<close>

lemma cancel_loops_releases:
  assumes "sim R s l" "distinct (concat (map loop_ids ls))" "\<forall>i \<in> set (concat (map loop_ids ls)). running_in l i"
  shows "\<exists>ls' s'. cancel_loops S (RedisBackend R c) reg (\<lambda>_. None) ls s = (ls', s') \<and>
    sim R s' (clean_exit (instance_id c) (concat (map loop_ids ls)) l)"
  using assms
proof (induction ls arbitrary: s l)
  case Nil
  then show ?case by (simp add: clean_exit_def)
next
  case (Cons lp ls)
  let ?w = "instance_id c"
  have step: ?case if "loop_cancel S (RedisBackend R c) reg None lp s = (l', s1)"
    "sim R s1 (clean_exit ?w (loop_ids lp) l)" for l' s1
  proof -
    have "running_in (clean_exit ?w (loop_ids lp) l) k" if "k \<in> set (concat (map loop_ids ls))" for k
    proof -
      have "\<forall>i \<in> set (loop_ids lp). running_in l i" "distinct (loop_ids lp)" "k \<notin> set (loop_ids lp)"
        using Cons.prems(2,3) that by auto
      with clean_exit_effect [of "loop_ids lp" l ?w] Cons.prems(3) that show ?thesis by (auto simp: running_in_def)
    qed
    with Cons.IH [OF that(2)] Cons.prems(2) obtain ls' s' where
      "cancel_loops S (RedisBackend R c) reg (\<lambda>_. None) ls s1 = (ls', s')"
      "sim R s' (clean_exit ?w (concat (map loop_ids ls)) (clean_exit ?w (loop_ids lp) l))" by auto
    then show ?thesis using that(1) by (auto simp: clean_exit_def)
  qed
  show ?case
  proof (cases "loop_ids lp")
    case Nil
    then have "snd (loop_cancel S (RedisBackend R c) reg None lp s) = s"
      by (auto simp: loop_cancel_def loop_release_def loop_ids_def record_ids_def split: loop.splits sum.splits)
    then show ?thesis
      using step [of "fst (loop_cancel S (RedisBackend R c) reg None lp s)" s] Nil Cons.prems(1)
      by (simp add: clean_exit_def prod_eq_iff)
  next
    case one: (Cons i xs)
    from one obtain r where r: "lp = Serving r" "get_str r ''id'' = Inr i" "loop_ids lp = [i]"
      by (auto simp: loop_ids_def record_ids_def split: loop.splits sum.splits)
    then obtain m where m: "l_rec l i = Some m" "status_in m RUNNING"
      using Cons.prems(3) by (auto simp: running_in_def)
    obtain s1 where "rb_release R c i s = (Inr (), s1)" "sim R s1 (l_release ?w i l)"
      using release_refines [OF Cons.prems(1) m(1)] by blast
    then show ?thesis
      using step [of "Over (Some CancelledError)" s1] r
      by (simp add: clean_exit_def loop_cancel_def loop_release_def RedisBackend_sel)
  qed
qed

lemma exit_releases:
  assumes "sim R s l" "distinct (in_flight p)" "\<forall>i \<in> set (in_flight p). running_in l i"
  shows "\<exists>p' s'. pool_exit S (RedisBackend R c) reg (\<lambda>_. None) p s = (Inr (), p', s') \<and>
    sim R s' (l_deregister (instance_id c) (clean_exit (instance_id c) (in_flight p) l))"
proof -
  obtain ls s1 where c: "cancel_loops S (RedisBackend R c) reg (\<lambda>_. None) (p_loops p) s = (ls, s1)"
    "sim R s1 (clean_exit (instance_id c) (in_flight p) l)"
    using cancel_loops_releases [OF assms(1), of "p_loops p" S reg] assms(2,3) by (auto simp: in_flight_def)
  from deregister_refines [OF c(2), of c] c(1) show ?thesis
    by (auto simp: pool_exit_def pool_deregister_def RedisBackend_sel)
qed

end


text \<open>The leased job of the demo server, marked running, in the hands of a loop.\<close>

definition mini_running :: rstate where
  "mini_running = snd (rb_mark mini_redis ''a'' mini_leased)"

definition mini_pool :: pool where
  "mini_pool = \<lparr>p_concurrency = 2, p_loops = [Claiming, Serving [(''id'', Str ''a'')]], p_running = True, p_entered = True,
     p_heartbeat_interval = 10, p_upkeep = True\<rparr>"

lemma mini_running_run: "cluster_run mini_redis mini_running"
proof -
  have "holds_lease mini_redis mini_config ''a'' mini_leased" by code_simp
  then have "cluster_step mini_redis mini_leased mini_running" unfolding mini_running_def by (rule cs_mark)
  with mini_leased_run show ?thesis
    unfolding cluster_run_def by (meson rtranclp.rtrancl_into_rtrancl)
qed


end
