(* ===== verification/Lease_Faults.thy ===== *)
theory Lease_Faults
  imports Pool_Leases
begin

text \<open>
  Where the lease protocol of \<open>redis_backend.py\<close> can be left: a worker that acts on a lease it no
  longer holds, and a reply that is lost while a lease is taken. \<open>Lease_Protocol\<close> shows what holds
  as long as workers act only on leases they hold; here is what the code does when they do not.
\<close>

section \<open>A stale release\<close>

context redis_server
begin

lemma stale_release_effect:
  assumes "sim R s l" "l_rec l i = Some m" "status_in m RUNNING" "i \<in> set (l_leases l u)" "u \<noteq> instance_id c"
  shows "\<exists>s'. rb_release R c i s = (Inr (), s') \<and> i \<in> set (l_queue (lease_abs (r_view R s'))) \<and>
    i \<in> set (l_leases (lease_abs (r_view R s')) u)"
proof -
  obtain s' where s': "rb_release R c i s = (Inr (), s')" "sim R s' (l_release (instance_id c) i l)"
    using release_refines [OF assms(1,2)] by blast
  have run: "running_in l i" using assms(2,3) by (auto simp: running_in_def)
  show ?thesis
    using s'(1) assms(4,5)
    by (intro exI [of _ s']) (simp add: sim_abs [OF s'(2)] release_running_simps [OF run] del: lease_abs_reads)
qed

text \<open>A terminal save by a worker that is not the holder of the lease: the record is finished, the
  holder's lease stays.\<close>

lemma stale_save_effect:
  assumes "sim R s l" "l_rec l i = Some m" "i \<in> set (l_leases l u)" "u \<noteq> instance_id c"
    "is_dict r" "storable (map_of r)" "terminal_in (map_of r)" "0 < result_ttl c"
  shows "\<exists>s' l'. rb_save R c i r True s = (Inr (), s') \<and> sim R s' l' \<and> l_rec l' i = Some (m ++ map_of r) \<and>
    terminal_in (m ++ map_of r) \<and> i \<in> set (l_leases l' u) \<and> l_beats l' = l_beats l \<and> l_now l' = l_now l"
proof -
  obtain s' where s': "rb_save R c i r True s = (Inr (), s')" "sim R s' (l_finish (instance_id c) i (map_of r) (result_ttl c) l)"
    using finish_refines [OF assms(1,2,5,6,8)] by blast
  moreover have "terminal_in (m ++ map_of r)" using assms(7) by (auto simp: terminal_in_def status_in_def map_add_def)
  ultimately show ?thesis using assms(2-4)
    by (intro exI [of _ s'] exI [of _ "l_finish (instance_id c) i (map_of r) (result_ttl c) l"])
      (simp add: l_finish_def l_expire_def l_drop_lease_def l_put_def)
qed

lemma terminal_cases: "terminal st \<Longrightarrow> (st = COMPLETED \<Longrightarrow> P) \<Longrightarrow> (st = FAILED \<Longrightarrow> P) \<Longrightarrow> (st = CANCELLED \<Longrightarrow> P) \<Longrightarrow> P"
  by (cases st) (simp_all add: terminal_def)

text \<open>A reap queues whatever the expired workers hold, finished or not, and leaves a finished record
  as it is.\<close>

lemma reap_requeues_any:
  assumes "sim R s l" "l_rec l i = Some m" "terminal_in m" "i \<in> set (l_leases l u)" "l_expired (worker_ttl c) l u"
  shows "\<exists>n t l'. rb_reap R c s = Some (Inr n, t) \<and> sim R t l' \<and> i \<in> set (l_queue l') \<and> l_rec l' i = Some m"
proof -
  obtain ws s' where s': "rb_reap R c s = Some (Inr (int (length (known_ids l (reaped_ids l ws)))), s')"
    "distinct ws" "set ws = {w. l_expired (worker_ttl c) l w}" "sim R s' (fold l_reap_worker ws l)"
    using reap_refines [OF assms(1)] by blast
  have "u \<in> set ws" using s'(3) assms(5) by simp
  then have "i \<in> set (reaped_ids l ws)" using assms(4) by (auto simp: reaped_ids_def)
  then have "i \<in> set (known_ids l (reaped_ids l ws))" using assms(2) by (simp add: known_ids_def)
  moreover have "requeued m = m" using assms(3) by (auto simp: requeued_def terminal_in_def status_in_def status_value.simps elim: terminal_cases)
  ultimately show ?thesis using s'(1,4) fold_reap_workers(4,5) [OF s'(2), of l] assms(2)
    by (intro exI [of _ "int (length (known_ids l (reaped_ids l ws)))"] exI [of _ s'] exI [of _ "fold l_reap_worker ws l"]) simp
qed

text \<open>The reply of \<open>BLMOVE\<close> is lost: the lease is taken and the call raises.\<close>

lemma lost_reply_effect:
  assumes "sim R s l" "l_queue l = i # q"
  shows "\<exists>s'. rb_claim_faulty LostReply f1 f2 R c s = (Inl (ConnectionError ''connection lost''), s') \<and>
    sim R s' (l_lease (instance_id c) l)"
proof -
  obtain s' where "snd (rb_lease R c s) = s'" "sim R s' (l_lease (instance_id c) l)"
    using lease_refines [OF assms(1), of c] assms(2) by force
  then show ?thesis by (auto simp: rb_claim_faulty_def round_trip_def)
qed

end

text \<open>(C35) The release script does not look at who holds the lease. A worker whose lease was reclaimed,
  releasing the job on its way out while a peer runs the new delivery, puts the id back in the
  queue although it is still leased: the job is in two places and a third worker will run it at the
  same time.\<close>

theorem stale_release_duplicates_job:
  assumes "redis_server R" "cluster_run R s" "l_rec (lease_abs (r_view R s)) i = Some m" "status_in m RUNNING"
    "i \<in> set (l_leases (lease_abs (r_view R s)) u)" "u \<noteq> instance_id c"
  shows "\<exists>s'. rb_release R c i s = (Inr (), s') \<and> i \<in> set (l_queue (lease_abs (r_view R s'))) \<and>
    i \<in> set (l_leases (lease_abs (r_view R s')) u) \<and> \<not> lease_ok (lease_abs (r_view R s'))"
proof -
  obtain s' where s': "rb_release R c i s = (Inr (), s')" "i \<in> set (l_queue (lease_abs (r_view R s')))"
    "i \<in> set (l_leases (lease_abs (r_view R s')) u)"
    using redis_server.stale_release_effect [OF assms(1) redis_server.cluster_run_sim(1) [OF assms(1,2)] assms(3-6)] by blast
  then have "\<not> lease_ok (lease_abs (r_view R s'))" using lease_okD(4) by blast
  with s' show ?thesis by blast
qed

theorem stale_release_duplicates_job_witness:
  "\<exists>s'. rb_release mini_redis (mini_config\<lparr>instance_id := ''w0''\<rparr>) ''a'' mini_running = (Inr (), s') \<and>
     \<not> lease_ok (lease_abs (r_view mini_redis s'))"
proof -
  have "(case l_rec (lease_abs (r_view mini_redis mini_running)) ''a'' of None \<Rightarrow> False | Some m \<Rightarrow> status_in m RUNNING)"
    by code_simp
  then obtain m where m: "l_rec (lease_abs (r_view mini_redis mini_running)) ''a'' = Some m" "status_in m RUNNING"
    by (auto split: option.splits)
  have l: "''a'' \<in> set (l_leases (lease_abs (r_view mini_redis mini_running)) ''w1'')" by code_simp
  have u: "''w1'' \<noteq> instance_id (mini_config\<lparr>instance_id := ''w0''\<rparr>)" by simp
  from stale_release_duplicates_job [OF mini.redis_server_axioms mini_running_run m l u] show ?thesis by blast
qed

text \<open>(C34) The save script does not look at who holds the lease either. A worker whose lease was reclaimed
  and that finishes the job while a peer runs the new delivery writes its outcome: the job is
  finished and still leased. If that peer is dead, the next reap puts the finished job back in the
  queue, and the claim that then gets it makes it active again: a job whose outcome was already
  available runs once more.\<close>

theorem stale_save_reruns_finished_job:
  assumes "redis_server R" "cluster_run R s" "l_rec (lease_abs (r_view R s)) i = Some m"
    "i \<in> set (l_leases (lease_abs (r_view R s)) u)" "u \<noteq> instance_id c" "l_expired (worker_ttl c') (lease_abs (r_view R s)) u"
    "is_dict r" "storable (map_of r)" "terminal_in (map_of r)" "0 < result_ttl c"
    "map_of r ''attempts'' = Some (Str (str_of_int k))" "k < max_attempts"
  shows "\<exists>s' n t. rb_save R c i r True s = (Inr (), s') \<and> \<not> active_job (lease_abs (r_view R s')) i \<and>
    i \<in> set (l_leases (lease_abs (r_view R s')) u) \<and> rb_reap R c' s' = Some (Inr n, t) \<and>
    i \<in> set (l_queue (lease_abs (r_view R t))) \<and> \<not> active_job (lease_abs (r_view R t)) i \<and>
    active_job (lease_abs (r_view R (snd (rb_mark R i t)))) i"
proof -
  note srv = redis_server.stale_save_effect redis_server.reap_requeues_any
  obtain s' l' where s': "rb_save R c i r True s = (Inr (), s')" "sim R s' l'" "l_rec l' i = Some (m ++ map_of r)"
    "terminal_in (m ++ map_of r)" "i \<in> set (l_leases l' u)" "l_beats l' = l_beats (lease_abs (r_view R s))"
    "l_now l' = l_now (lease_abs (r_view R s))"
    using srv(1) [OF assms(1) redis_server.cluster_run_sim(1) [OF assms(1,2)] assms(3-5,7-10)] by blast
  have "l_expired (worker_ttl c') l' u" using assms(6) s'(6,7) by (simp add: l_expired_def del: lease_abs_reads split: option.splits)
  from srv(2) [OF assms(1) s'(2-5) this] obtain n t lt where
    t: "rb_reap R c' s' = Some (Inr n, t)" "sim R t lt" "i \<in> set (l_queue lt)" "l_rec lt i = Some (m ++ map_of r)" by blast
  have "(m ++ map_of r) ''attempts'' = Some (Str (str_of_int k))" using assms(11) by (simp add: map_add_def)
  from redis_server.mark_refines [OF assms(1) t(2,4) this assms(12)] obtain r' t' where
    "rb_mark R i t = (Inr (Some r'), t')" and t': "sim R t' (l_mark i (k + 1) lt)" by blast
  then have "active_job (lease_abs (r_view R (snd (rb_mark R i t)))) i"
    using sim_abs [OF t'] t(4) by (simp add: active_job_def l_mark_def del: status_value.simps)
  then show ?thesis
    using s' t sim_abs [OF s'(2)] sim_abs [OF t(2)]
    by (intro exI [of _ s'] exI [of _ n] exI [of _ t]) (simp add: active_job_def del: lease_abs_reads)
qed

theorem stale_save_reruns_finished_job_witness:
  "\<exists>s' n t. rb_save mini_redis (mini_config\<lparr>instance_id := ''w0''\<rparr>) ''a'' demo_done True mini_dead = (Inr (), s') \<and>
     rb_reap mini_redis mini_config s' = Some (Inr n, t) \<and>
     \<not> active_job (lease_abs (r_view mini_redis t)) ''a'' \<and>
     active_job (lease_abs (r_view mini_redis (snd (rb_mark mini_redis ''a'' t)))) ''a''"
proof -
  have "l_rec (lease_abs (r_view mini_redis mini_dead)) ''a'' \<noteq> None" by code_simp
  then obtain m where m: "l_rec (lease_abs (r_view mini_redis mini_dead)) ''a'' = Some m" by auto
  have l: "''a'' \<in> set (l_leases (lease_abs (r_view mini_redis mini_dead)) ''w1'')"
    "l_expired (worker_ttl mini_config) (lease_abs (r_view mini_redis mini_dead)) ''w1''"
    by (code_simp, code_simp)
  have u: "''w1'' \<noteq> instance_id (mini_config\<lparr>instance_id := ''w0''\<rparr>)" by simp
  show ?thesis
    using stale_save_reruns_finished_job [OF mini.redis_server_axioms mini_dead_run m l(1) u l(2), of demo_done 1]
      demo_done_ok
    by (auto simp: demo_done_def is_dict_def mini_config_def DEFAULT_RESULT_TTL_SECONDS_def max_attempts_def)
qed

text \<open>(C37) If the reply of \<open>BLMOVE\<close> is lost, the claim raises and the job stays leased to a worker that
  does not know it: it has left the queue with its record untouched, deregistering is refused
  because of the lease, and reaps leave it alone as long as the worker keeps beating. Once the worker's
  last beat is older than the TTL, a reap queues the job again.\<close>

theorem lost_claim_reply_parks_job:
  assumes "redis_server R" "cluster_run R s" "l_queue (lease_abs (r_view R s)) = i # q"
    "l_beats (lease_abs (r_view R s)) (instance_id c) = Some b"
  shows "\<exists>s' l'. rb_claim_faulty LostReply f1 f2 R c s = (Inl (ConnectionError ''connection lost''), s') \<and>
    l' = lease_abs (r_view R s') \<and> l_queue l' = q \<and> i \<in> set (l_leases l' (instance_id c)) \<and>
    l_rec l' = l_rec (lease_abs (r_view R s)) \<and> l_deregister (instance_id c) l' = l' \<and>
    (\<exists>n t. rb_reap R c s' = Some (Inr n, t) \<and>
       (if l_expired (worker_ttl c) l' (instance_id c) then i \<in> set (l_queue (lease_abs (r_view R t)))
        else i \<notin> set (l_queue (lease_abs (r_view R t))) \<and> i \<in> set (l_leases (lease_abs (r_view R t)) (instance_id c))))"
proof -
  let ?l = "lease_abs (r_view R s)" and ?w = "instance_id c"
  note S = redis_server.cluster_run_sim [OF assms(1,2)]
  obtain s' where s': "rb_claim_faulty LostReply f1 f2 R c s = (Inl (ConnectionError ''connection lost''), s')"
    "sim R s' (l_lease ?w ?l)"
    using redis_server.lost_reply_effect [OF assms(1) S(1) assms(3)] by blast
  define l' where "l' = l_lease ?w ?l"
  have l': "l_queue l' = q" "l_leases l' ?w = l_leases ?l ?w @ [i]" "l_rec l' = l_rec ?l" "sim R s' l'"
    using s'(2) assms(3) by (simp_all add: l'_def l_lease_def)
  have ok: "lease_ok l'" unfolding l'_def using ok_lease [OF S(2)] assms(4) by (simp del: lease_abs_reads)
  have in_l: "i \<in> set (l_leases l' ?w)" using l'(2) by simp
  have reap: "\<exists>n t. rb_reap R c s' = Some (Inr n, t) \<and>
       (if l_expired (worker_ttl c) l' ?w then i \<in> set (l_queue (lease_abs (r_view R t)))
        else i \<notin> set (l_queue (lease_abs (r_view R t))) \<and> i \<in> set (l_leases (lease_abs (r_view R t)) ?w))"
  proof (cases "l_expired (worker_ttl c) l' ?w")
    case True
    obtain ids t where t: "rb_reap R c s' = Some (Inr (int (length ids)), t)" "l_queue (lease_abs (r_view R t)) = l_queue l' @ ids"
      "set ids = {i. \<exists>w. l_expired (worker_ttl c) l' w \<and> i \<in> set (l_leases l' w)}"
      using redis_server.reap_effect [OF assms(1) l'(4) ok, of c] unfolding Let_def by blast
    then have "i \<in> set (l_queue (lease_abs (r_view R t)))" using True in_l unfolding t(2) set_append t(3) by blast
    with t(1) True show ?thesis by (intro exI conjI) (assumption, simp del: lease_abs_reads)
  next
    case False
    from redis_server.reap_spares [OF assms(1) l'(4) ok False] in_l obtain n t where
      "rb_reap R c s' = Some (Inr n, t)" "l_leases (lease_abs (r_view R t)) ?w = l_leases l' ?w"
      "i \<notin> set (l_queue (lease_abs (r_view R t)))" unfolding Let_def by blast
    with False in_l show ?thesis by (intro exI conjI) (assumption, simp del: lease_abs_reads)
  qed
  have "l_deregister ?w l' = l'" using l'(2) by (simp add: l_deregister_def)
  with s'(1) l' in_l reap show ?thesis
    by (intro exI [of _ s'] exI [of _ l']) (simp add: sim_abs [OF l'(4)] del: lease_abs_reads)
qed

text \<open>A registered worker and a queued job.\<close>

definition mini_waiting :: rstate where
  "mini_waiting = snd (rb_heartbeat mini_redis mini_config (snd (rb_enqueue mini_redis mini_config ''a'' demo_record mini_empty)))"

theorem lost_claim_reply_parks_job_witness:
  "\<exists>s'. rb_claim_faulty LostReply NoFault NoFault mini_redis mini_config mini_waiting =
      (Inl (ConnectionError ''connection lost''), s') \<and> ''a'' \<in> set (l_leases (lease_abs (r_view mini_redis s')) ''w1'')"
proof -
  define s1 where "s1 = snd (rb_enqueue mini_redis mini_config ''a'' demo_record mini_empty)"
  have 1: "cluster_step mini_redis mini_empty s1" unfolding s1_def using demo_record_ok by (rule cs_enqueue)
  have 2: "cluster_step mini_redis s1 mini_waiting" unfolding mini_waiting_def s1_def by (rule cs_heartbeat)
  have run: "cluster_run mini_redis mini_waiting"
    unfolding cluster_run_def using mini_empty_keys 1 2 by (meson converse_rtranclp_into_rtranclp rtranclp.rtrancl_refl)
  have q: "l_queue (lease_abs (r_view mini_redis mini_waiting)) = [''a'']"
    "l_beats (lease_abs (r_view mini_redis mini_waiting)) (instance_id mini_config) = Some 100" by (code_simp, code_simp)
  have w: "instance_id mini_config = ''w1''" by (simp add: mini_config_def)
  from lost_claim_reply_parks_job [OF mini.redis_server_axioms run q, of NoFault NoFault] show ?thesis
    unfolding w by blast
qed

end
