(* ===== verification/Store_Spec.thy ===== *)
theory Store_Spec
  imports Stores Lease_Protocol
begin

text \<open>
  The store as one abstract machine: a lookup of records and a queue of ids, with one
  deterministic transition and one observation per client operation. Every backend that keeps
  the contract implements it, so the two backends of the program cannot be told apart by a
  client, whatever sequence of operations it makes.
\<close>

section \<open>The abstract store\<close>

datatype store_op =
    OpEnqueue string hrecord
  | OpClaim
  | OpGet string
  | OpSave string hrecord
  | OpRelease string
  | OpTake string
  | OpCancel string
  | OpCancelMany "string list"

datatype observation =
    ObsDone "unit res"
  | ObsClaimed "rec_view option res"
  | ObsRecord "rec_view res"
  | ObsAwait "rec_view await"

type_synonym astore = "(string \<Rightarrow> rec_view option) \<times> string list"

definition attempts_of :: "rec_view \<Rightarrow> int" where
  "attempts_of m =
     (case m ''attempts'' of Some (Str s) \<Rightarrow> (case py_int s of Inr n \<Rightarrow> n | Inl _ \<Rightarrow> 0) | _ \<Rightarrow> 0)"

fun spec_op :: "store_op \<Rightarrow> astore \<Rightarrow> observation \<times> astore" where
  "spec_op (OpEnqueue i r) (v, w) =
     (ObsDone (Inr ()),
      if v i \<noteq> None then (v, w)
      else (v(i \<mapsto> (map_of r)(''status'' \<mapsto> Str (status_value QUEUED))), w @ [i]))"
| "spec_op OpClaim (v, w) =
     (case w of
        [] \<Rightarrow> (ObsClaimed (Inr None), (v, w))
      | i # q \<Rightarrow>
          let m = (the (v i))(''status'' \<mapsto> Str (status_value RUNNING),
                ''attempts'' \<mapsto> Str (str_of_int (attempts_of (the (v i)) + 1)))
          in (ObsClaimed (Inr (Some m)), (v(i \<mapsto> m), q)))"
| "spec_op (OpGet i) (v, w) =
     (ObsRecord (case v i of None \<Rightarrow> Inl (not_found i) | Some m \<Rightarrow> Inr m), (v, w))"
| "spec_op (OpSave i r) (v, w) =
     (case v i of
        None \<Rightarrow> (ObsDone (Inl (not_found i)), (v, w))
      | Some m \<Rightarrow> (ObsDone (Inr ()), (v(i \<mapsto> map_of r), w)))"
| "spec_op (OpRelease i) (v, w) =
     (case v i of
        None \<Rightarrow> (ObsDone (Inl (not_found i)), (v, w))
      | Some m \<Rightarrow>
          (ObsDone (Inr ()),
           if status_in m RUNNING then (v(i \<mapsto> m(''status'' \<mapsto> Str (status_value QUEUED))), w @ [i]) else (v, w)))"
| "spec_op (OpTake i) (v, w) =
     (case v i of
        None \<Rightarrow> (ObsAwait (Ready (Inl (not_found i))), (v, w))
      | Some m \<Rightarrow>
          if terminal_in m then (ObsAwait (Ready (Inr m)), (v(i := None), w)) else (ObsAwait Pending, (v, w)))"
| "spec_op (OpCancel i) (v, w) =
     (ObsDone (Inr ()), (v(i := map_option flagged (v i)), w))"
| "spec_op (OpCancelMany is) (v, w) =
     (ObsDone (Inr ()), ((\<lambda>i. if i \<in> set is then map_option flagged (v i) else v i), w))"

text \<open>What the client side guarantees: it enqueues records of new jobs, and saves a finished job's
  whole record; the head of the queue is a job that can be delivered.\<close>

fun legal_op :: "store_op \<Rightarrow> astore \<Rightarrow> bool" where
  "legal_op (OpEnqueue i r) (v, w) \<longleftrightarrow>
     v i \<noteq> None \<or> is_dict r \<and> storable (map_of r) \<and> map_of r ''request_cancel'' = Some (Str ''0'')"
| "legal_op OpClaim (v, w) \<longleftrightarrow>
     (case w of [] \<Rightarrow> True
      | i # q \<Rightarrow> (case v i of None \<Rightarrow> False | Some m \<Rightarrow> \<not> terminal_in m \<and> attempts_of m < max_attempts))"
| "legal_op (OpSave i r) (v, w) \<longleftrightarrow>
     (case v i of None \<Rightarrow> True
      | Some m \<Rightarrow> is_dict r \<and> storable (map_of r) \<and> terminal_in (map_of r) \<and> dom m \<subseteq> dom (map_of r))"
| "legal_op _ _ \<longleftrightarrow> True"

section \<open>Running operations on a backend\<close>

definition res_view :: "hrecord res \<Rightarrow> rec_view res" where
  "res_view x = rbind x (\<lambda>r. Inr (map_of r))"

fun run_op :: "'s backend \<Rightarrow> store_op \<Rightarrow> 's \<Rightarrow> observation \<times> 's" where
  "run_op B (OpEnqueue i r) s = (case b_enqueue B i r s of (x, s') \<Rightarrow> (ObsDone x, s'))"
| "run_op B OpClaim s = (case b_claim B s of (x, s') \<Rightarrow> (ObsClaimed (rbind x (\<lambda>r. Inr (map_option map_of r))), s'))"
| "run_op B (OpGet i) s = (ObsRecord (res_view (b_get_job B i s)), s)"
| "run_op B (OpSave i r) s = (case b_save B i r True s of (x, s') \<Rightarrow> (ObsDone x, s'))"
| "run_op B (OpRelease i) s = (case b_release B i s of (x, s') \<Rightarrow> (ObsDone x, s'))"
| "run_op B (OpTake i) s =
     (case b_take_result B i s of
        (Pending, s') \<Rightarrow> (ObsAwait Pending, s')
      | (Ready x, s') \<Rightarrow> (ObsAwait (Ready (res_view x)), s'))"
| "run_op B (OpCancel i) s = (case b_request_cancel B i s of (x, s') \<Rightarrow> (ObsDone x, s'))"
| "run_op B (OpCancelMany is) s = (case b_request_cancel_many B is s of (x, s') \<Rightarrow> (ObsDone x, s'))"

fun run_ops :: "'s backend \<Rightarrow> store_op list \<Rightarrow> 's \<Rightarrow> observation list \<times> 's" where
  "run_ops B [] s = ([], s)"
| "run_ops B (op # ops) s =
     (case run_op B op s of (x, s1) \<Rightarrow> case run_ops B ops s1 of (xs, s2) \<Rightarrow> (x # xs, s2))"

fun spec_ops :: "store_op list \<Rightarrow> astore \<Rightarrow> observation list \<times> astore" where
  "spec_ops [] a = ([], a)"
| "spec_ops (op # ops) a =
     (case spec_op op a of (x, a1) \<Rightarrow> case spec_ops ops a1 of (xs, a2) \<Rightarrow> (x # xs, a2))"

fun legal_ops :: "store_op list \<Rightarrow> astore \<Rightarrow> bool" where
  "legal_ops [] a \<longleftrightarrow> True"
| "legal_ops (op # ops) a \<longleftrightarrow> legal_op op a \<and> legal_ops ops (snd (spec_op op a))"

lemma attempts_of_Str: "m ''attempts'' = Some (Str (str_of_int n)) \<Longrightarrow> attempts_of m = n"
  by (simp add: attempts_of_def)

context backend_contract
begin

lemma save_exact:
  assumes "inv s" "view s i = Some m" "is_dict r" "storable (map_of r)" "terminal_in (map_of r)" "dom m \<subseteq> dom (map_of r)"
  shows "\<exists>s'. b_save B i r True s = (Inr (), s') \<and> inv s' \<and> view s' = (view s)(i \<mapsto> map_of r) \<and> waiting s' = waiting s"
proof -
  obtain s' m' where s': "b_save B i r True s = (Inr (), s')" "inv s'" "view s' = (view s)(i \<mapsto> m')"
    "map_of r \<subseteq>\<^sub>m m'" "m' \<subseteq>\<^sub>m m ++ map_of r" "waiting s' = waiting s"
    using save_known [OF assms(1-5)] by blast
  have "m' k = map_of r k" for k
  proof (cases "map_of r k")
    case None
    then have "m k = None" using assms(6) by (metis domIff subsetD)
    with None s'(5) show ?thesis by (metis domIff map_add_None map_le_def)
  next
    case (Some x)
    then show ?thesis using s'(4) by (auto simp: map_le_def dom_def)
  qed
  then have "m' = map_of r" by blast
  with s' show ?thesis by simp
qed

lemma op_refines:
  assumes "inv s" "legal_op op (view s, waiting s)"
  shows "\<exists>s'. run_op B op s = (fst (spec_op op (view s, waiting s)), s') \<and> inv s' \<and>
    (view s', waiting s') = snd (spec_op op (view s, waiting s))"
proof (cases op)
  case (OpEnqueue i r)
  then show ?thesis
    using enqueue_known [OF assms(1), of i r] enqueue_new [OF assms(1), of i r] assms by (cases "view s i") auto
next
  case OpClaim
  show ?thesis
  proof (cases "waiting s")
    case Nil
    then show ?thesis using claim_none [OF assms(1)] assms(1) OpClaim by simp
  next
    case (Cons i q)
    then obtain m where m: "view s i = Some m" "\<not> terminal_in m" "attempts_of m < max_attempts"
      using assms(2) OpClaim by (auto split: option.splits)
    obtain n where n: "m ''attempts'' = Some (Str (str_of_int n))" using view_storable [OF assms(1) m(1)] by (auto simp: storable_def)
    then have "n < max_attempts" using m(3) attempts_of_Str [of m n] by simp
    from claim_some [OF assms(1) Cons m(1,2) n this] Cons OpClaim m(1) attempts_of_Str [of m n] n show ?thesis by (auto simp: Let_def)
  qed
next
  case (OpGet i)
  then show ?thesis
    using get_job_known [OF assms(1), of i] get_job_unknown [OF assms(1), of i] assms(1)
    by (cases "view s i") (auto simp: res_view_def)
next
  case (OpSave i r)
  then show ?thesis
    using save_unknown [OF assms(1), of i r] save_exact [OF assms(1), of i _ r] assms
    by (cases "view s i") auto
next
  case (OpRelease i)
  then show ?thesis
    using release_unknown [OF assms(1), of i] release_other [OF assms(1), of i] release_running [OF assms(1), of i] assms(1)
    by (cases "view s i") auto
next
  case (OpTake i)
  then show ?thesis
    using take_unknown [OF assms(1), of i] take_waits [OF assms(1), of i] take_terminal [OF assms(1), of i] assms(1)
    by (cases "view s i"; cases "terminal_in (the (view s i))") (auto simp: res_view_def)
next
  case (OpCancel i)
  obtain s' where "b_request_cancel B i s = (Inr (), s')" "inv s'" "waiting s' = waiting s"
    "view s' = (\<lambda>j. if j = i then map_option flagged (view s i) else view s j)"
    using request_cancel_total [OF assms(1)] .
  then show ?thesis using OpCancel by (auto simp: fun_eq_iff)
next
  case (OpCancelMany "is")
  then show ?thesis using request_cancel_many_flags [OF assms(1), of "is"] by auto
qed

lemma ops_refine:
  assumes "inv s" "legal_ops ops (view s, waiting s)"
  shows "\<exists>s'. run_ops B ops s = (fst (spec_ops ops (view s, waiting s)), s') \<and> inv s' \<and>
    (view s', waiting s') = snd (spec_ops ops (view s, waiting s))"
  using assms
proof (induction ops arbitrary: s)
  case Nil
  then show ?case by simp
next
  case (Cons op ops)
  obtain s1 where s1: "run_op B op s = (fst (spec_op op (view s, waiting s)), s1)" "inv s1"
    "(view s1, waiting s1) = snd (spec_op op (view s, waiting s))"
    using op_refines [OF Cons.prems(1), of op] Cons.prems(2) by auto
  from Cons.IH [OF s1(2)] Cons.prems(2) s1(3) obtain s' where
    "run_ops B ops s1 = (fst (spec_ops ops (view s1, waiting s1)), s')" "inv s'"
    "(view s', waiting s') = snd (spec_ops ops (view s1, waiting s1))" by auto
  with s1 show ?case by (auto simp: case_prod_unfold prod_eq_iff)
qed

end

section \<open>Properties\<close>

text \<open>(C2) The two backends are equivalent: from empty stores, every sequence of enqueues, claims, reads,
  final saves, releases, result takes and cancel requests gives the same observations on
  \<open>MemoryBackend\<close> and on \<open>RedisBackend\<close> over any server, in the same order and down to the fields
  of every record and the text of every error, and leaves the same records and the same queue.
  Both are the runs of the abstract store.\<close>

theorem backends_are_equivalent:
  assumes "redis_server R" "RedisBackend_init fresh rttl wttl = Inr c" "keys (r_view R s0) = Map.empty"
    "legal_ops ops (Map.empty, [])"
  shows "\<exists>m s. run_ops MemoryBackend ops mem_init = (fst (spec_ops ops (Map.empty, [])), m) \<and>
    run_ops (RedisBackend R c) ops s0 = (fst (spec_ops ops (Map.empty, [])), s) \<and>
    mem_view m = rb_records R s \<and> m_queue m = rb_waiting R s \<and>
    (mem_view m, m_queue m) = snd (spec_ops ops (Map.empty, []))"
proof -
  have "0 < result_ttl c" using assms(2) by (auto simp: RedisBackend_init_def split: if_splits)
  then have rb: "redis_backend R c" using assms(1) by (simp add: redis_backend_def redis_backend_axioms_def)
  have "cluster_run R s0" using assms(3) unfolding cluster_run_def by blast
  then have "sim R s0 (lease_abs (r_view R s0))" by (rule redis_server.cluster_run_sim(1) [OF assms(1)])
  then have v: "rb_valid R s0" by (simp only: rb_valid_sim)
  have e: "rb_records R s0 = Map.empty" "rb_waiting R s0 = []"
    using assms(3) by (simp_all add: rb_records_def rb_waiting_def lease_abs_def rb_view_def hash_at_def list_at_def fun_eq_iff)
  have m: "mem_view mem_init = Map.empty" "m_queue mem_init = []" by (simp_all add: mem_view_def mem_init_def fun_eq_iff)
  obtain m where "run_ops MemoryBackend ops mem_init = (fst (spec_ops ops (Map.empty, [])), m)"
    "(mem_view m, m_queue m) = snd (spec_ops ops (Map.empty, []))"
    using memory.ops_refine [OF mem_inv_init, of ops] assms(4) m by auto
  moreover obtain s where "run_ops (RedisBackend R c) ops s0 = (fst (spec_ops ops (Map.empty, [])), s)"
    "(rb_records R s, rb_waiting R s) = snd (spec_ops ops (Map.empty, []))"
    using backend_contract.ops_refine [OF redis_backend.meets_contract [OF rb] v, of ops] assms(4) e by auto
  ultimately show ?thesis by (metis prod.inject)
qed

definition demo_fresh :: hrecord where
  "demo_fresh = [(''status'', Str ''created''), (''attempts'', Str ''0''), (''request_cancel'', Str ''0'')]"

definition demo_ops :: "store_op list" where
  "demo_ops = [OpEnqueue ''a'' demo_fresh, OpClaim, OpCancel ''a'', OpSave ''a'' demo_done, OpTake ''a'', OpGet ''a'']"

lemma demo_ops_legal: "legal_ops demo_ops (Map.empty, [])"
proof -
  have d: "is_dict demo_fresh" "is_dict demo_done" "map_of demo_fresh ''request_cancel'' = Some (Str ''0'')"
    by (simp_all add: demo_done_def demo_fresh_def is_dict_def)
  have f: "storable (map_of demo_fresh)"
    using str_of_int_0_1
    by (auto simp: demo_fresh_def storable_def typed_field_def blob_field_def status_in_def
        status_value.simps of_bool_def intro!: exI [of _ CREATED] exI [of _ False] exI [of _ "0::int"])
  have t: "storable (map_of demo_done)" "terminal_in (map_of demo_done)"
    using str_of_int_0_1
    by (auto simp: demo_done_def storable_def typed_field_def blob_field_def status_in_def terminal_in_def
        status_value.simps of_bool_def intro!: exI [of _ COMPLETED] exI [of _ False] exI [of _ "1::int"])
  define q where "q = (map_of demo_fresh)(''status'' \<mapsto> Str (status_value QUEUED))"
  have q: "\<not> terminal_in q" "attempts_of q < max_attempts"
    using attempts_of_Str [of q 0] str_of_int_0_1 by (simp_all add: q_def demo_fresh_def max_attempts_def)
  define c where "c = q(''status'' \<mapsto> Str (status_value RUNNING), ''attempts'' \<mapsto> Str (str_of_int (attempts_of q + 1)))"
  have c: "\<not> terminal_in c" by (simp add: c_def)
  have sub: "''request_cancel'' \<in> dom (map_of demo_done)" "''attempts'' \<in> dom (map_of demo_done)"
    "''status'' \<in> dom (map_of demo_done)" "dom (map_of demo_fresh) \<subseteq> dom (map_of demo_done)"
    by (auto simp: demo_done_def demo_fresh_def)
  have "attempts_of ((map_of demo_fresh)(''status'' \<mapsto> Str ''queued'')) < max_attempts"
    using q(2) by (simp add: q_def status_value.simps)
  with d f t q c sub show ?thesis
    by (simp add: demo_ops_def flagged_def q_def [symmetric] c_def [symmetric] Let_def)
qed

theorem backends_are_equivalent_witness:
  "\<exists>m s. run_ops MemoryBackend demo_ops mem_init = (fst (spec_ops demo_ops (Map.empty, [])), m) \<and>
     run_ops (RedisBackend mini_redis mini_config) demo_ops mini_empty = (fst (spec_ops demo_ops (Map.empty, [])), s)"
proof -
  have i: "RedisBackend_init ''w1'' 86400 30 = Inr mini_config"
    by (simp add: RedisBackend_init_def mini_config_def DEFAULT_RESULT_TTL_SECONDS_def DEFAULT_WORKER_TTL_SECONDS_def)
  from backends_are_equivalent [OF mini.redis_server_axioms i mini_empty_keys demo_ops_legal] show ?thesis by blast
qed

text \<open>(C24) A job survives the wire: its record, flattened into the arguments of a script, stored as bytes
  and read back by \<open>_decode\<close>, is the record that was written, and \<open>from_record\<close> gives the job
  with its values as JSON represents them; every other field is the same.\<close>

theorem job_survives_the_wire:
  assumes "fits_job json_fits j" "0 \<le> attempts j"
  shows "\<exists>r. to_record JSONSerializer j = Inr r \<and> rb_decode (pairs_of (map enc_arg (flatten r))) = Inr r \<and>
    from_record JSONSerializer r = Inr (norm_job json_norm j)"
proof -
  obtain r where r: "to_record JSONSerializer j = Inr r" using json.to_record_total [OF assms(1)] by blast
  have "good_rec r" using to_record_is_dict [OF r] to_record_storable [OF r assms(2)] by (simp add: good_rec_def)
  then have "rb_decode (pairs_of (map enc_arg (flatten r))) = Inr r" by (simp add: pairs_flatten rb_decode_enc)
  with r json.job_roundtrip [OF assms(1) r] show ?thesis by blast
qed

theorem job_survives_the_wire_witness:
  "\<exists>r. to_record JSONSerializer demo_job = Inr r \<and> rb_decode (pairs_of (map enc_arg (flatten r))) = Inr r \<and>
     from_record JSONSerializer r = Inr (norm_job json_norm demo_job)"
  by (rule job_survives_the_wire [OF demo_job_fits]) (simp add: demo_job_def Job_init_def)

text \<open>(C25) Stored records are well typed: in every run on one Redis, reading any job gives either
  \<open>KeyError\<close> or a record whose status is a \<open>JobStatus\<close>, whose attempts are a number, whose cancel
  flag is a bool, and whose fields are strs except for the two blobs, which are bytes.\<close>

theorem stored_records_are_typed:
  assumes "redis_server R" "cluster_run R s"
  shows "case rb_get_job R i s of
      Inl e \<Rightarrow> e = not_found i
    | Inr r \<Rightarrow> (\<exists>st. map_of r ''status'' = Some (Str (status_value st))) \<and> (\<exists>n \<ge> 0. get_int r ''attempts'' = Inr n) \<and>
        (\<exists>b. get_int r ''request_cancel'' = Inr (of_bool b)) \<and>
        (\<forall>k x. map_of r k = Some x \<longrightarrow> (k \<in> {''payload'', ''result''} \<longleftrightarrow> (\<exists>bs. x = Bytes bs)))"
proof -
  have sim: "sim R s (lease_abs (r_view R s))" by (rule redis_server.cluster_run_sim(1) [OF assms])
  have typed: "k \<in> {''payload'', ''result''} \<longleftrightarrow> (\<exists>bs. x = Bytes bs)" if "typed_field k x" for k x
    using that by (cases x) (auto simp: typed_field_def blob_field_def)
  have r: ?thesis if j: "rb_get_job R i s = Inr r" "storable (map_of r)" for r
  proof -
    obtain n where "map_of r ''attempts'' = Some (Str (str_of_int n))" "0 \<le> n" using j(2) by (auto simp: storable_def)
    moreover obtain b where "map_of r ''request_cancel'' = Some (Str (str_of_int (of_bool b)))"
      using j(2) by (auto simp: storable_def)
    moreover obtain st where "map_of r ''status'' = Some (Str (status_value st))"
      using j(2) by (auto simp: storable_def status_in_def)
    moreover have "typed_field k x" if "map_of r k = Some x" for k x using j(2) that by (simp add: storable_def)
    ultimately show ?thesis using j(1) typed by (auto simp: get_int_def get_opt_def field_str_def)
  qed
  have rb: "redis_backend R mini_config"
    using assms(1) by (simp add: redis_backend_def redis_backend_axioms_def mini_config_def DEFAULT_RESULT_TTL_SECONDS_def)
  have v: "rb_valid R s" using sim by (simp only: rb_valid_sim)
  note L = redis_backend.read_laws [OF rb v, of i]
  show ?thesis
  proof (cases "rb_records R s i")
    case None
    then show ?thesis using L(1) by simp
  next
    case (Some m)
    then show ?thesis using L(2,5) r by blast
  qed
qed

theorem stored_records_are_typed_witness:
  "\<exists>r st. rb_get_job mini_redis ''a'' mini_leased = Inr r \<and> map_of r ''status'' = Some (Str (status_value st))"
proof -
  have "isOk (rb_get_job mini_redis ''a'' mini_leased)" by code_simp
  with stored_records_are_typed [OF mini.redis_server_axioms mini_leased_run, of "''a''"] show ?thesis
    by (auto simp: isOk_def split: sum.splits)
qed

end
