(* ===== verification/Queue.thy ===== *)
theory Queue
  imports Pool Job_Group Stores
begin

text \<open>
  \<open>queue.py\<close>: a queue binds a backend and a serializer to a registry of named tasks, and hands out
  workers and groups. The registry is the contract between producers and workers: a job carries
  the name of its task and nothing else, so names must resolve to the same function in every
  process.
\<close>

section \<open>The queue and its operations\<close>

text \<open>What the decorator reads of a function: its name, its module and how it is called.\<close>

record pyfunc =
  f_name :: string
  f_module :: string
  f_call :: "pyval list \<Rightarrow> (string \<times> pyval) list \<Rightarrow> pyval await"

text \<open>\<open>q_worker_ttl\<close> is the backend's attribute, if it has one.\<close>

record 's queue_obj =
  q_task_registry :: "task_obj pydict"
  q_backend :: "'s backend"
  q_worker_ttl :: "int option"
  q_serializer :: serializer
  q_namespace :: "string option"

definition Queue_init :: "'s backend \<Rightarrow> int option \<Rightarrow> serializer option \<Rightarrow> string option \<Rightarrow> 's queue_obj" where
  "Queue_init B ttl serializer namespace =
     \<lparr>q_task_registry = [], q_backend = B, q_worker_ttl = ttl,
      q_serializer = (case serializer of None \<Rightarrow> JSONSerializer | Some S \<Rightarrow> S), q_namespace = namespace\<rparr>"

definition quoted :: "string \<Rightarrow> string" where
  "quoted s = [CHR 0x27] @ s @ [CHR 0x27]"

definition derive_name :: "string option \<Rightarrow> pyfunc \<Rightarrow> string res" where
  "derive_name namespace f =
     (case namespace of
        Some ns \<Rightarrow> Inr (ns @ ''.'' @ f_name f)
      | None \<Rightarrow>
          if f_module f = ''__main__''
          then Inl (TaskNameError (''cannot derive a name for task '' @ py_repr (f_name f) @
            '': as a script it registers as '' @ quoted (''__main__.'' @ f_name f) @
            '', but a worker that imports the module registers '' @ quoted (''<import.path>.'' @ f_name f) @
            ''. Pass Queue(..., namespace='' @ quoted ''myapp'' @ '') or @q.task(name='' @
            quoted (''myapp.'' @ f_name f) @ '').''))
          else Inr (f_module f @ ''.'' @ f_name f))"

text \<open>The decorator of \<open>task\<close>; an empty name counts as none.\<close>

definition queue_task ::
  "string option \<Rightarrow> int \<Rightarrow> pyfunc \<Rightarrow> 's queue_obj \<Rightarrow> task_obj res \<times> 's queue_obj" where
  "queue_task name max_retries f q =
     (case (case name of
              Some n \<Rightarrow> if n = [] then derive_name (q_namespace q) f else Inr n
            | None \<Rightarrow> derive_name (q_namespace q) f) of
        Inl e \<Rightarrow> (Inl e, q)
      | Inr tname \<Rightarrow>
          if map_of (q_task_registry q) tname \<noteq> None
          then (Inl (TaskNameError (''task '' @ py_repr tname @
            '' is already registered on this queue: Give one an explicit name (@q.task(name=...)).'')), q)
          else
            let instance = \<lparr>t_func = f_call f, t_name = tname, t_max_retries = max_retries\<rparr>
            in (Inr instance, q\<lparr>q_task_registry := AList.update tname instance (q_task_registry q)\<rparr>))"

definition queue_worker :: "int \<Rightarrow> rat \<Rightarrow> 's queue_obj \<Rightarrow> pool res" where
  "queue_worker concurrency heartbeat_interval q = Worker_init (q_worker_ttl q) concurrency heartbeat_interval"

definition queue_group :: "string \<Rightarrow> string \<Rightarrow> int option \<Rightarrow> 's queue_obj \<Rightarrow> group res" where
  "queue_group fresh on_error deadline q = JobGroup_init fresh on_error deadline"

definition root_group :: "string \<Rightarrow> string \<Rightarrow> int option \<Rightarrow> 's queue_obj \<Rightarrow> group res" where
  "root_group fresh on_error deadline q = JobGroup_init fresh on_error deadline"

section \<open>The registry\<close>

text \<open>A module's decorators, in the order they run; one that raises stops the import.\<close>

type_synonym registration = "string option \<times> int \<times> pyfunc"

fun register_all :: "registration list \<Rightarrow> 's queue_obj \<Rightarrow> unit res \<times> 's queue_obj" where
  "register_all [] q = (Inr (), q)"
| "register_all ((name, retries, f) # rs) q =
     (case queue_task name retries f q of
        (Inl e, q') \<Rightarrow> (Inl e, q')
      | (Inr t, q') \<Rightarrow> register_all rs q')"

definition registry_ok :: "'s queue_obj \<Rightarrow> bool" where
  "registry_ok q \<longleftrightarrow> is_dict (q_task_registry q) \<and> (\<forall>(k, t) \<in> set (q_task_registry q). t_name t = k)"

lemma queue_task_cases:
  assumes "queue_task name retries f q = (r, q')"
  obtains (error) e where "r = Inl (TaskNameError e)" "q' = q"
  | (registered) t where "r = Inr t" "map_of (q_task_registry q) (t_name t) = None"
      "t_func t = f_call f" "t_max_retries t = retries"
      "q' = q\<lparr>q_task_registry := q_task_registry q @ [(t_name t, t)]\<rparr>"
proof -
  have upd: "AList.update k v d = d @ [(k, v)]" if "map_of d k = None" for k and v :: task_obj and d
    using that by (induction d) (auto split: if_splits)
  show ?thesis
  proof (cases r)
    case (Inl e)
    with assms have "q' = q" "\<exists>m. e = TaskNameError m"
      by (auto simp: queue_task_def derive_name_def Let_def split: sum.splits option.splits if_splits)
    with Inl error show ?thesis by blast
  next
    case (Inr t)
    with assms show ?thesis
      by (intro registered [of t])
        (auto simp: queue_task_def Let_def upd split: sum.splits if_splits)
  qed
qed

lemma queue_task_Inr:
  assumes "queue_task name retries f q = (Inr t, q')"
  shows "map_of (q_task_registry q) (t_name t) = None \<and> t_func t = f_call f \<and>
    q' = q\<lparr>q_task_registry := q_task_registry q @ [(t_name t, t)]\<rparr>"
  using assms by (cases rule: queue_task_cases) auto

lemma registry_ok_init: "registry_ok (Queue_init B ttl S ns)"
  by (simp add: registry_ok_def Queue_init_def is_dict_def)

lemma registry_ok_task:
  assumes "registry_ok q" "queue_task name retries f q = (r, q')"
  shows "registry_ok q'"
  using assms(2)
proof (cases rule: queue_task_cases)
  case error
  with assms(1) show ?thesis by simp
next
  case (registered t)
  then have "t_name t \<notin> fst ` set (q_task_registry q)" by (simp add: map_of_eq_None_iff)
  with assms(1) registered show ?thesis by (auto simp: registry_ok_def is_dict_def)
qed

lemma register_all_ok:
  assumes "registry_ok q" "register_all rs q = (r, q')"
  shows "registry_ok q' \<and> (\<exists>new. q' = q\<lparr>q_task_registry := q_task_registry q @ new\<rparr> \<and> (isOk r \<longrightarrow> length new = length rs))"
  using assms
proof (induction rs q arbitrary: r q' rule: register_all.induct)
  case (1 q)
  then show ?case by auto
next
  case (2 name retries f rs q)
  obtain x q1 where x: "queue_task name retries f q = (x, q1)" by force
  note ok = registry_ok_task [OF 2(2) x]
  from x show ?case
  proof (cases rule: queue_task_cases)
    case (error e)
    with x 2(2,3) show ?thesis by (auto intro!: exI [of _ "[]"])
  next
    case (registered t)
    with x 2(3) have "register_all rs q1 = (r, q')" by simp
    from 2(1) [OF x [symmetric] registered(1) ok this]
    obtain new where "registry_ok q'" "q' = q1\<lparr>q_task_registry := q_task_registry q1 @ new\<rparr>"
      "isOk r \<longrightarrow> length new = length rs" by auto
    with registered show ?thesis by (auto intro!: exI [of _ "(t_name t, t) # new"])
  qed
qed

text \<open>Names derived from a module and a function name cannot collide, because a function's name
  has no dot.\<close>

lemma dotted_inj:
  assumes "CHR ''.'' \<notin> set b" "CHR ''.'' \<notin> set d" "a @ ''.'' @ b = c @ ''.'' @ d"
  shows "a = c \<and> b = d"
proof -
  have "takeWhile (\<lambda>x. x \<noteq> CHR ''.'') (rev (a @ ''.'' @ b)) = rev b" if "CHR ''.'' \<notin> set b" for a b :: string
    using that by (auto simp: takeWhile_append2 takeWhile_tail)
  then have "rev b = rev d" using assms by metis
  then show ?thesis using assms(3) by simp
qed

section \<open>Properties\<close>

text \<open>(C28) A registered name is never rebound. Over any sequence of decorators on a fresh queue the
  registry has each name once, under the name its task carries; a further decorator either raises
  \<open>TaskNameError\<close> and leaves the registry as it was, or adds one task under a name that was free,
  which then resolves to the decorated function. Every earlier name resolves as before.\<close>

theorem registered_names_are_stable:
  assumes "register_all rs (Queue_init B ttl S ns) = (r, q)" "queue_task name retries f q = (r', q')"
  shows "registry_ok q' \<and>
    (\<forall>k t. map_of (q_task_registry q) k = Some t \<longrightarrow> map_of (q_task_registry q') k = Some t \<and> t_name t = k) \<and>
    (case r' of
       Inl e \<Rightarrow> q' = q \<and> (\<exists>m. e = TaskNameError m)
     | Inr t \<Rightarrow> map_of (q_task_registry q) (t_name t) = None \<and> map_of (q_task_registry q') (t_name t) = Some t \<and>
         t_func t = f_call f)"
proof -
  have q: "registry_ok q" using register_all_ok [OF registry_ok_init assms(1)] by blast
  note q' = registry_ok_task [OF q assms(2)]
  have n: "t_name t = k" if "map_of (q_task_registry q) k = Some t" for k t
    using q map_of_SomeD [OF that] by (auto simp: registry_ok_def)
  from assms(2) show ?thesis
  proof (cases rule: queue_task_cases)
    case (error e)
    with q' n show ?thesis by auto
  next
    case (registered t)
    with q' n show ?thesis by (auto simp: map_add_def split: option.splits)
  qed
qed

definition demo_func :: pyfunc where
  "demo_func = \<lparr>f_name = ''f'', f_module = ''m'', f_call = (\<lambda>as ks. Ready (Inr (PTuple as)))\<rparr>"

text \<open>The same module decorated twice with the same function.\<close>

theorem registered_names_are_stable_witness:
  "let q = snd (register_all [(None, 0, demo_func)] (Queue_init MemoryBackend None None None)) in
     (\<exists>m. fst (queue_task None 0 demo_func q) = Inl (TaskNameError m)) \<and> snd (queue_task None 0 demo_func q) = q"
proof -
  define q where "q = snd (register_all [(None, 0, demo_func)] (Queue_init MemoryBackend None None None))"
  have r: "register_all [(None, 0, demo_func)] (Queue_init MemoryBackend None None None) = (Inr (), q)"
    by (simp add: q_def queue_task_def derive_name_def Queue_init_def demo_func_def Let_def)
  obtain r' q' where t: "queue_task None 0 demo_func q = (r', q')" by force
  have "\<exists>e. r' = Inl e"
    using t by (auto simp: q_def queue_task_def derive_name_def Queue_init_def demo_func_def Let_def)
  then have "(\<exists>m. fst (queue_task None 0 demo_func q) = Inl (TaskNameError m)) \<and> snd (queue_task None 0 demo_func q) = q"
    using registered_names_are_stable [OF r t] t by auto
  then show ?thesis unfolding Let_def q_def .
qed

text \<open>Derived task names tell functions apart and agree between processes. Without a namespace a
  script is refused, and otherwise two functions get the same name exactly when they have the same
  module and name; with a namespace the module does not matter, so a script and the module a
  worker imports derive the same name.\<close>

lemma derived_names_agree:
  assumes "CHR ''.'' \<notin> set (f_name f)" "CHR ''.'' \<notin> set (f_name g)"
  shows "(isOk (derive_name None f) \<longleftrightarrow> f_module f \<noteq> ''__main__'') \<and>
    (isOk (derive_name None f) \<and> isOk (derive_name None g) \<longrightarrow>
       (derive_name None f = derive_name None g \<longleftrightarrow> f_module f = f_module g \<and> f_name f = f_name g)) \<and>
    (derive_name (Some ns) f = derive_name (Some ns) g \<longleftrightarrow> f_name f = f_name g)"
  using dotted_inj [OF assms, of "f_module f" "f_module g"] by (auto simp: derive_name_def)



end
