(* ===== verification/Arguments.thy ===== *)
theory Arguments
  imports Pool "HOL-Library.Sublist"
begin

text \<open>
  \<open>build_parser\<close> of \<open>cli.py\<close>: the options of the command and how \<open>argparse\<close> reads a command line
  against them. Conversion of text to float is a parameter; help texts are not modelled.
\<close>

section \<open>What the parsers accept\<close>

datatype dest = D_concurrency | D_drain_timeout | D_heartbeat_interval | D_log_level

datatype action = Help | Version | Store dest

type_synonym options = "(string \<times> action) list"

definition main_options :: options where
  "main_options = [(''-h'', Help), (''--help'', Help), (''--version'', Version)]"

definition worker_options :: options where
  "worker_options =
     [(''-h'', Help), (''--help'', Help),
      (''-c'', Store D_concurrency), (''--concurrency'', Store D_concurrency),
      (''--drain-timeout'', Store D_drain_timeout),
      (''--heartbeat-interval'', Store D_heartbeat_interval),
      (''-l'', Store D_log_level), (''--log-level'', Store D_log_level)]"

definition list_options :: options where
  "list_options = [(''-h'', Help), (''--help'', Help)]"

definition LOG_LEVELS :: "string list" where
  "LOG_LEVELS = [''debug'', ''info'', ''warning'', ''error'', ''critical'']"

record worker_args =
  a_target :: "string option"
  a_concurrency :: int
  a_drain_timeout :: rat
  a_heartbeat_interval :: rat
  a_log_level :: string

definition worker_defaults :: worker_args where
  "worker_defaults = \<lparr>a_target = None, a_concurrency = 1, a_drain_timeout = 30,
     a_heartbeat_interval = DEFAULT_HEARTBEAT_INTERVAL_SECONDS, a_log_level = ''info''\<rparr>"

fun join_with :: "string \<Rightarrow> string list \<Rightarrow> string" where
  "join_with sep [] = []"
| "join_with sep [x] = x"
| "join_with sep (x # y # xs) = x @ sep @ join_with sep (y # xs)"

definition action_name :: "options \<Rightarrow> action \<Rightarrow> string" where
  "action_name opts a = join_with ''/'' (map fst (filter (\<lambda>(s, b). b = a) opts))"

definition argument_error :: "options \<Rightarrow> action \<Rightarrow> string \<Rightarrow> string" where
  "argument_error opts a m = ''argument '' @ action_name opts a @ '': '' @ m"

text \<open>Converting, checking and storing one value.\<close>

definition store :: "(string \<Rightarrow> rat option) \<Rightarrow> dest \<Rightarrow> string \<Rightarrow> worker_args \<Rightarrow> string + worker_args" where
  "store float d v a =
     (let bad = (\<lambda>m. Inl (argument_error worker_options (Store d) m));
          bad_value = (\<lambda>t. bad (''invalid '' @ t @ '' value: '' @ py_repr v))
      in case d of
        D_concurrency \<Rightarrow> (case py_int v of Inl _ \<Rightarrow> bad_value ''int'' | Inr n \<Rightarrow> Inr (a\<lparr>a_concurrency := n\<rparr>))
      | D_drain_timeout \<Rightarrow> (case float v of None \<Rightarrow> bad_value ''float'' | Some x \<Rightarrow> Inr (a\<lparr>a_drain_timeout := x\<rparr>))
      | D_heartbeat_interval \<Rightarrow>
          (case float v of None \<Rightarrow> bad_value ''float'' | Some x \<Rightarrow> Inr (a\<lparr>a_heartbeat_interval := x\<rparr>))
      | D_log_level \<Rightarrow>
          if v \<in> set LOG_LEVELS then Inr (a\<lparr>a_log_level := v\<rparr>)
          else bad (''invalid choice: '' @ py_repr v @ '' (choose from '' @ join_with '', '' (map py_repr LOG_LEVELS) @ '')''))"

section \<open>Reading a command line\<close>

text \<open>What one argument string is: an option (unknown, or an action with the option string it was
  found under and the value attached to it, after \<open>=\<close> or directly), a plain argument, or \<open>--\<close>.\<close>

datatype reading = Unknown | Hit action string "(string \<times> string) option"

datatype mark = Optional reading | Plain | Dashes

definition partition_at :: "char \<Rightarrow> string \<Rightarrow> string \<times> string" where
  "partition_at c s = (takeWhile (\<lambda>d. d \<noteq> c) s, drop 1 (dropWhile (\<lambda>d. d \<noteq> c) s))"

definition negative_number :: "string \<Rightarrow> bool" where
  "negative_number s =
     (let t = (if s \<noteq> [] \<and> last s = CHR 0x0A then butlast s else s)
      in case t of [] \<Rightarrow> False
         | c # ds \<Rightarrow> c = CHR ''-'' \<and>
             (case dropWhile is_digit ds of
                [] \<Rightarrow> ds \<noteq> []
              | p # fs \<Rightarrow> p = CHR ''.'' \<and> fs \<noteq> [] \<and> list_all is_digit fs))"

text \<open>Abbreviations of long options, and short options with their value attached.\<close>

definition option_tuples :: "options \<Rightarrow> string \<Rightarrow> reading list" where
  "option_tuples opts s =
     (if prefix ''--'' s
      then let (p, e) = partition_at CHR ''='' s;
               attached = (if CHR ''='' \<in> set s then Some (''='', e) else None)
           in map (\<lambda>(opt, a). Hit a opt attached) (filter (\<lambda>(opt, a). prefix p opt) opts)
      else concat (map (\<lambda>(opt, a).
             if opt = take 2 s then [Hit a opt (Some ([], drop 2 s))]
             else if prefix s opt then [Hit a opt None] else []) opts))"

definition parse_optional :: "options \<Rightarrow> string \<Rightarrow> string + reading option" where
  "parse_optional opts s =
     (if s = [] \<or> hd s \<noteq> CHR ''-'' then Inr None
      else case map_of opts s of
        Some a \<Rightarrow> Inr (Some (Hit a s None))
      | None \<Rightarrow>
          if length s = 1 then Inr None
          else let (p, e) = partition_at CHR ''='' s
               in case (if CHR ''='' \<in> set s then map_of opts p else None) of
                    Some a \<Rightarrow> Inr (Some (Hit a p (Some (''='', e))))
                  | None \<Rightarrow>
                      (case option_tuples opts s of
                         [h] \<Rightarrow> Inr (Some h)
                       | [] \<Rightarrow>
                           if negative_number s then Inr None
                           else if CHR '' '' \<in> set s then Inr None
                           else Inr (Some Unknown)
                       | hs \<Rightarrow> Inl (''ambiguous option: '' @ s @ '' could match '' @
                                join_with '', '' (concat (map (\<lambda>h. case h of Unknown \<Rightarrow> [] | Hit a opt e \<Rightarrow> [opt]) hs)))))"

fun classify :: "options \<Rightarrow> string list \<Rightarrow> string + (string \<times> mark) list" where
  "classify opts [] = Inr []"
| "classify opts (s # ss) =
     (if s = ''--'' then Inr ((s, Dashes) # map (\<lambda>x. (x, Plain)) ss)
      else case parse_optional opts s of
        Inl m \<Rightarrow> Inl m
      | Inr r \<Rightarrow>
          (case classify opts ss of
             Inl m \<Rightarrow> Inl m
           | Inr xs \<Rightarrow> Inr ((s, case r of None \<Rightarrow> Plain | Some h \<Rightarrow> Optional h) # xs)))"

text \<open>Consuming one option: the actions to take, what is left of the command line, and text that
  belongs to no option. Flags may be run together behind one dash.\<close>

definition after_flag :: "string \<Rightarrow> (string \<times> string) option" where
  "after_flag t =
     (case t of [] \<Rightarrow> None
      | c # cs \<Rightarrow> if c = CHR ''='' then Some (''='', cs) else Some ([], t))"

lemma after_flag_shorter: "after_flag (tl e) = Some (sep, t) \<Longrightarrow> length t < length e"
  by (cases e) (auto simp: after_flag_def split: list.splits if_splits)

function take_optional ::
  "options \<Rightarrow> action \<Rightarrow> string \<Rightarrow> (string \<times> string) option \<Rightarrow> (string \<times> mark) list
   \<Rightarrow> string + (action \<times> string) list \<times> (string \<times> mark) list \<times> string list" where
  "take_optional opts a opt None xs =
     (case a of
        Store d \<Rightarrow>
          (case xs of
             (v, Plain) # ys \<Rightarrow> Inr ([(a, v)], ys, [])
           | _ \<Rightarrow> Inl (argument_error opts a ''expected one argument''))
      | _ \<Rightarrow> Inr ([(a, [])], xs, []))"
| "take_optional opts a opt (Some (sep, e)) xs =
     (case a of
        Store d \<Rightarrow> Inr ([(a, e)], xs, [])
      | _ \<Rightarrow>
          if prefix ''--'' opt \<or> e = [] \<or> sep \<noteq> [] \<or> hd e = CHR ''-''
          then Inl (argument_error opts a (''ignored explicit argument '' @ py_repr e))
          else case map_of opts [CHR ''-'', hd e] of
            None \<Rightarrow> Inr ([(a, [])], xs, [CHR ''-'' # e])
          | Some b \<Rightarrow>
              (case take_optional opts b [CHR ''-'', hd e] (after_flag (tl e)) xs of
                 Inl m \<Rightarrow> Inl m
               | Inr (acts, ys, extra) \<Rightarrow> Inr ((a, []) # acts, ys, extra)))"
  by pat_completeness auto
termination
  by (relation "measure (\<lambda>(opts, a, opt, e, xs). case e of None \<Rightarrow> 0 | Some (sep, t) \<Rightarrow> Suc (length t))")
    (auto split: option.splits dest: after_flag_shorter)

lemma take_optional_length:
  "take_optional opts a opt e xs = Inr (acts, ys, extra) \<Longrightarrow> length ys \<le> length xs"
proof (induction opts a opt e xs arbitrary: acts ys extra rule: take_optional.induct)
  case (1 opts a opt xs)
  then show ?case by (cases a; auto split: list.splits prod.splits mark.splits)
next
  case (2 opts a opt sep e xs)
  show ?case
  proof (cases "\<exists>d. a = Store d")
    case True
    with 2(3) show ?thesis by auto
  next
    case False
    then have a: "a = Help \<or> a = Version" by (cases a) auto
    with 2(3) have ok: "\<not> (prefix ''--'' opt \<or> e = [] \<or> sep \<noteq> [] \<or> hd e = CHR ''-'')"
      by (auto split: if_splits)
    show ?thesis
    proof (cases "map_of opts [CHR ''-'', hd e]")
      case None
      with a ok 2(3) show ?thesis by auto
    next
      case (Some b)
      with a ok 2(3) obtain acts' where
        "take_optional opts b [CHR ''-'', hd e] (after_flag (tl e)) xs = Inr (acts', ys, extra)"
        by (auto split: sum.splits prod.splits)
      with a ok Some 2(1,2) show ?thesis by blast
    qed
  qed
qed

text \<open>Why reading stops: a help text or the version was asked for, or a usage error in a parser.\<close>

datatype stop = ShowHelp string | ShowVersion | UsageError string string

text \<open>Taking the actions of one option in order.\<close>

fun take_actions ::
  "string \<Rightarrow> (dest \<Rightarrow> string \<Rightarrow> 'n \<Rightarrow> string + 'n) \<Rightarrow> (action \<times> string) list \<Rightarrow> 'n \<Rightarrow> stop + 'n" where
  "take_actions prog st [] n = Inr n"
| "take_actions prog st ((a, v) # acts) n =
     (case a of
        Help \<Rightarrow> Inl (ShowHelp prog)
      | Version \<Rightarrow> Inl ShowVersion
      | Store d \<Rightarrow>
          (case st d v n of
             Inl m \<Rightarrow> Inl (UsageError prog m)
           | Inr n' \<Rightarrow> take_actions prog st acts n'))"

text \<open>
  A parser has at most one positional argument. \<open>takes\<close> says how many strings it takes from the front
  of the command line, if any, and \<open>act\<close> what it does with them. \<open>todo\<close> says it has not been read
  yet; the strings that nothing claims are collected.
\<close>

definition is_optional :: "mark \<Rightarrow> bool" where
  "is_optional m \<longleftrightarrow> (case m of Optional h \<Rightarrow> True | _ \<Rightarrow> False)"

function parse_known ::
  "string \<Rightarrow> options \<Rightarrow> (dest \<Rightarrow> string \<Rightarrow> 'n \<Rightarrow> string + 'n) \<Rightarrow> (mark list \<Rightarrow> nat option)
   \<Rightarrow> (string list \<Rightarrow> 'n \<Rightarrow> stop + 'n) \<Rightarrow> bool \<Rightarrow> 'n \<Rightarrow> string list \<Rightarrow> (string \<times> mark) list
   \<Rightarrow> stop + bool \<times> 'n \<times> string list" where
  "parse_known prog opts st takes act todo n extras [] = Inr (todo, n, extras)"
| "parse_known prog opts st takes act todo n extras ((s, m) # xs) =
     (case m of
        Optional h \<Rightarrow>
          (case h of
             Unknown \<Rightarrow> parse_known prog opts st takes act todo n (extras @ [s]) xs
           | Hit a opt e \<Rightarrow>
               (case take_optional opts a opt e xs of
                  Inl msg \<Rightarrow> Inl (UsageError prog msg)
                | Inr (acts, ys, extra) \<Rightarrow>
                    (case take_actions prog st acts n of
                       Inl stop \<Rightarrow> Inl stop
                     | Inr n' \<Rightarrow> parse_known prog opts st takes act todo n' (extras @ extra) ys)))
      | _ \<Rightarrow>
          (case (if todo then takes (m # map snd xs) else None) of
             Some k \<Rightarrow>
               (case act (take k (s # map fst xs)) n of
                  Inl stop \<Rightarrow> Inl stop
                | Inr n' \<Rightarrow> parse_known prog opts st takes act False n' extras (drop (k - 1) xs))
           | None \<Rightarrow>
               parse_known prog opts st takes act todo n
                 (extras @ s # map fst (takeWhile (\<lambda>(t, k). \<not> is_optional k) xs))
                 (dropWhile (\<lambda>(t, k). \<not> is_optional k) xs)))"
  by pat_completeness auto
termination
  by (relation "measure (\<lambda>(prog, opts, st, takes, act, todo, n, extras, xs). length xs)")
    (auto dest!: take_optional_length simp: less_Suc_eq_le length_dropWhile_le)

text \<open>The strings a single positional takes, with the \<open>--\<close> around it, and those a subcommand takes.\<close>

fun count_single :: "mark list \<Rightarrow> nat option" where
  "count_single (Plain # ms) = Some (Suc (length (takeWhile (\<lambda>m. m = Dashes) ms)))"
| "count_single (Dashes # ms) = map_option Suc (count_single ms)"
| "count_single _ = None"

fun count_rest :: "mark list \<Rightarrow> nat option" where
  "count_rest (Plain # ms) = Some (Suc (length ms))"
| "count_rest (Dashes # ms) = map_option Suc (count_rest ms)"
| "count_rest _ = None"

definition set_target :: "string list \<Rightarrow> worker_args \<Rightarrow> stop + worker_args" where
  "set_target strs a = Inr (a\<lparr>a_target := Some (hd (remove1 ''--'' strs))\<rparr>)"

text \<open>What a parser returns to its caller: its namespace and the strings it did not recognise.\<close>

definition finish :: "string \<Rightarrow> string \<Rightarrow> bool \<times> 'n \<times> string list \<Rightarrow> stop + 'n \<times> string list" where
  "finish prog required out =
     (case out of (todo, n, extras) \<Rightarrow>
        if todo then Inl (UsageError prog (''the following arguments are required: '' @ required))
        else Inr (n, extras))"

definition parse_worker :: "(string \<Rightarrow> rat option) \<Rightarrow> string list \<Rightarrow> stop + worker_args \<times> string list" where
  "parse_worker float argv =
     (case classify worker_options argv of
        Inl m \<Rightarrow> Inl (UsageError ''taskqueue worker'' m)
      | Inr xs \<Rightarrow>
          (case parse_known ''taskqueue worker'' worker_options (store float) count_single set_target True worker_defaults [] xs of
             Inl stop \<Rightarrow> Inl stop
           | Inr out \<Rightarrow> finish ''taskqueue worker'' ''target'' out))"

definition parse_list :: "string \<Rightarrow> string list \<Rightarrow> stop + string list" where
  "parse_list prog argv =
     (case classify list_options argv of
        Inl m \<Rightarrow> Inl (UsageError prog m)
      | Inr xs \<Rightarrow>
          (case parse_known prog list_options (\<lambda>d v n. Inr n) (\<lambda>ms. None) (\<lambda>strs n. Inr n) False () [] xs of
             Inl stop \<Rightarrow> Inl stop
           | Inr (todo, n, extras) \<Rightarrow> Inr extras))"

datatype cli_command = CmdBackends | CmdSerializers | CmdWorker worker_args

definition COMMANDS :: "string list" where
  "COMMANDS = [''worker'', ''backends'', ''serializers'']"

text \<open>The subcommand takes the rest of the line to its own parser.\<close>

definition run_subparser ::
  "(string \<Rightarrow> rat option) \<Rightarrow> string list \<Rightarrow> (cli_command \<times> string list) option \<Rightarrow> stop + (cli_command \<times> string list) option" where
  "run_subparser float strs n =
     (case strs of [] \<Rightarrow> Inr n
      | name # argv \<Rightarrow>
          let prog = ''taskqueue '' @ name
          in if name = ''worker'' then
               (case parse_worker float argv of Inl stop \<Rightarrow> Inl stop | Inr (a, extras) \<Rightarrow> Inr (Some (CmdWorker a, extras)))
             else if name = ''backends'' then
               (case parse_list prog argv of Inl stop \<Rightarrow> Inl stop | Inr extras \<Rightarrow> Inr (Some (CmdBackends, extras)))
             else if name = ''serializers'' then
               (case parse_list prog argv of Inl stop \<Rightarrow> Inl stop | Inr extras \<Rightarrow> Inr (Some (CmdSerializers, extras)))
             else Inl (UsageError ''taskqueue'' (''argument command: invalid choice: '' @ py_repr name @
               '' (choose from '' @ join_with '', '' (map py_repr COMMANDS) @ '')'')))"

definition parse_args :: "(string \<Rightarrow> rat option) \<Rightarrow> string list \<Rightarrow> stop + cli_command" where
  "parse_args float argv =
     (case classify main_options argv of
        Inl m \<Rightarrow> Inl (UsageError ''taskqueue'' m)
      | Inr xs \<Rightarrow>
          (case parse_known ''taskqueue'' main_options (\<lambda>d v n. Inr n) count_rest (run_subparser float) True None [] xs of
             Inl stop \<Rightarrow> Inl stop
           | Inr out \<Rightarrow>
               (case finish ''taskqueue'' ''command'' out of
                  Inl stop \<Rightarrow> Inl stop
                | Inr (None, extras) \<Rightarrow> Inl (UsageError ''taskqueue'' ''the following arguments are required: command'')
                | Inr (Some (cmd, rest), extras) \<Rightarrow>
                    if extras @ rest = [] then Inr cmd
                    else Inl (UsageError ''taskqueue'' (''unrecognized arguments: '' @ join_with '' '' (extras @ rest))))))"

section \<open>Command lines\<close>

text \<open>The ways to write an argument of \<open>taskqueue worker\<close>.\<close>

datatype item =
    Target string
  | Long dest string
  | LongEq dest string
  | Short dest string
  | ShortGlued dest string

fun long_name :: "dest \<Rightarrow> string" where
  "long_name D_concurrency = ''--concurrency''"
| "long_name D_drain_timeout = ''--drain-timeout''"
| "long_name D_heartbeat_interval = ''--heartbeat-interval''"
| "long_name D_log_level = ''--log-level''"

fun short_name :: "dest \<Rightarrow> string" where
  "short_name D_concurrency = ''-c''"
| "short_name D_log_level = ''-l''"
| "short_name _ = []"

fun render :: "item \<Rightarrow> string list" where
  "render (Target t) = [t]"
| "render (Long d v) = [long_name d, v]"
| "render (LongEq d v) = [long_name d @ ''='' @ v]"
| "render (Short d v) = [short_name d, v]"
| "render (ShortGlued d v) = [short_name d @ v]"

text \<open>Text that cannot be taken for an option.\<close>

definition plain_text :: "string \<Rightarrow> bool" where
  "plain_text v \<longleftrightarrow> v = [] \<or> hd v \<noteq> CHR ''-'' \<or> v = ''-'' \<or> negative_number v"

fun item_ok :: "item \<Rightarrow> bool" where
  "item_ok (Target t) \<longleftrightarrow> plain_text t"
| "item_ok (Long d v) \<longleftrightarrow> plain_text v"
| "item_ok (LongEq d v) \<longleftrightarrow> True"
| "item_ok (Short d v) \<longleftrightarrow> short_name d \<noteq> [] \<and> plain_text v"
| "item_ok (ShortGlued d v) \<longleftrightarrow> short_name d \<noteq> [] \<and> v \<noteq> [] \<and> hd v \<noteq> CHR ''=''"

fun marks :: "item \<Rightarrow> (string \<times> mark) list" where
  "marks (Target t) = [(t, Plain)]"
| "marks (Long d v) = [(long_name d, Optional (Hit (Store d) (long_name d) None)), (v, Plain)]"
| "marks (LongEq d v) = [(long_name d @ ''='' @ v, Optional (Hit (Store d) (long_name d) (Some (''='', v))))]"
| "marks (Short d v) = [(short_name d, Optional (Hit (Store d) (short_name d) None)), (v, Plain)]"
| "marks (ShortGlued d v) = [(short_name d @ v, Optional (Hit (Store d) (short_name d) (Some ([], v))))]"

fun targets :: "item list \<Rightarrow> string list" where
  "targets [] = []"
| "targets (Target t # is) = t # targets is"
| "targets (_ # is) = targets is"

text \<open>Storing the values one after the other; the last one for an option counts.\<close>

fun read_items :: "(string \<Rightarrow> rat option) \<Rightarrow> item list \<Rightarrow> worker_args \<Rightarrow> string + worker_args" where
  "read_items float [] a = Inr a"
| "read_items float (i # is) a =
     (let set = (\<lambda>d v. case store float d v a of Inl m \<Rightarrow> Inl m | Inr b \<Rightarrow> read_items float is b)
      in case i of
           Target t \<Rightarrow> read_items float is a
         | Long d v \<Rightarrow> set d v | LongEq d v \<Rightarrow> set d v | Short d v \<Rightarrow> set d v | ShortGlued d v \<Rightarrow> set d v)"

lemma negative_number_start:
  assumes "negative_number v"
  shows "\<exists>c w. v = CHR ''-'' # c # w \<and> (is_digit c \<or> c = CHR ''.'')"
proof -
  have aux: "\<exists>c w. ds = c # w \<and> (is_digit c \<or> c = CHR ''.'')"
    if "case dropWhile is_digit ds of [] \<Rightarrow> ds \<noteq> [] | p # fs \<Rightarrow> p = CHR ''.'' \<and> fs \<noteq> [] \<and> list_all is_digit fs" for ds
    using that by (cases ds) (auto split: if_splits)
  let ?t = "if v \<noteq> [] \<and> last v = CHR 0x0A then butlast v else v"
  obtain ds where t: "?t = CHR ''-'' # ds"
    "case dropWhile is_digit ds of [] \<Rightarrow> ds \<noteq> [] | p # fs \<Rightarrow> p = CHR ''.'' \<and> fs \<noteq> [] \<and> list_all is_digit fs"
    using assms by (cases ?t) (auto simp: negative_number_def Let_def)
  from aux [OF t(2)] obtain c w where ds: "ds = c # w" "is_digit c \<or> c = CHR ''.''" by blast
  have "\<exists>e. v = ?t @ e" by (cases "v \<noteq> [] \<and> last v = CHR 0x0A") (auto intro: append_butlast_last_id [symmetric])
  with t(1) ds show ?thesis by auto
qed

lemmas option_evals = parse_optional_def worker_options_def main_options_def option_tuples_def partition_at_def

lemma negative_number_read:
  assumes "negative_number (CHR ''-'' # c # w)" "c \<noteq> CHR ''-''" "c \<noteq> CHR ''h''" "c \<noteq> CHR ''c''" "c \<noteq> CHR ''l''"
  shows "parse_optional worker_options (CHR ''-'' # c # w) = Inr None"
    "parse_optional main_options (CHR ''-'' # c # w) = Inr None"
  using assms by (auto simp: option_evals)

lemma plain_text_read:
  assumes "plain_text v"
  shows "v \<noteq> ''--''" "parse_optional worker_options v = Inr None" "parse_optional main_options v = Inr None"
proof -
  consider "v = [] \<or> hd v \<noteq> CHR ''-''" | "v = ''-''"
    | c w where "v = CHR ''-'' # c # w" "negative_number (CHR ''-'' # c # w)" "is_digit c \<or> c = CHR ''.''"
    using assms negative_number_start [of v] unfolding plain_text_def by auto
  then have "v \<noteq> ''--'' \<and> parse_optional worker_options v = Inr None \<and> parse_optional main_options v = Inr None"
  proof cases
    case 1
    then show ?thesis by (auto simp: parse_optional_def)
  next
    case 2
    then show ?thesis by (simp add: parse_optional_def worker_options_def main_options_def)
  next
    case 3
    then have "c \<noteq> CHR ''-''" "c \<noteq> CHR ''h''" "c \<noteq> CHR ''c''" "c \<noteq> CHR ''l''"
      by (auto simp: is_digit_def)
    with 3 negative_number_read show ?thesis by simp
  qed
  then show "v \<noteq> ''--''" "parse_optional worker_options v = Inr None" "parse_optional main_options v = Inr None" by blast+
qed

lemma long_read:
  "long_name d \<noteq> ''--''" "long_name d @ ''='' @ v \<noteq> ''--''"
  "parse_optional worker_options (long_name d) = Inr (Some (Hit (Store d) (long_name d) None))"
  "parse_optional worker_options (long_name d @ ''='' @ v) = Inr (Some (Hit (Store d) (long_name d) (Some (''='', v))))"
  "\<exists>r. parse_optional main_options (long_name d) = Inr r"
  "\<exists>r. parse_optional main_options (long_name d @ ''='' @ v) = Inr r"
  by (cases d; simp add: option_evals)+

lemma short_read:
  assumes "short_name d \<noteq> []"
  shows "short_name d \<noteq> ''--''" "short_name d @ v \<noteq> ''--''"
    "parse_optional worker_options (short_name d) = Inr (Some (Hit (Store d) (short_name d) None))"
    "\<exists>r. parse_optional main_options (short_name d) = Inr r"
    "\<exists>r. parse_optional main_options (short_name d @ v) = Inr r"
  using assms by (cases d; simp add: option_evals)+

lemma glued_read:
  assumes "short_name d \<noteq> []" "v \<noteq> []" "hd v \<noteq> CHR ''=''"
  shows "parse_optional worker_options (short_name d @ v) = Inr (Some (Hit (Store d) (short_name d) (Some ([], v))))"
proof -
  obtain c w where "v = c # w" "c \<noteq> CHR ''=''" using assms(2,3) by (cases v) auto
  with assms(1) show ?thesis by (cases d; simp add: option_evals)
qed

lemma item_read:
  assumes "item_ok i"
  shows "''--'' \<notin> set (render i)" "classify worker_options (render i) = Inr (marks i)"
    "\<exists>xs. classify main_options (render i) = Inr xs"
proof -
  have "''--'' \<notin> set (render i) \<and> classify worker_options (render i) = Inr (marks i) \<and>
    (\<exists>xs. classify main_options (render i) = Inr xs)"
  proof (cases i)
    case (Target t)
    with assms plain_text_read [of t] show ?thesis by auto
  next
    case (Long d v)
    with assms plain_text_read [of v] long_read(1,3,5) [of d] show ?thesis by auto
  next
    case (LongEq d v)
    with long_read(2,4,6) [of d v] show ?thesis by auto
  next
    case (Short d v)
    with assms plain_text_read [of v] short_read(1,3,4) [of d] show ?thesis by auto
  next
    case (ShortGlued d v)
    with assms short_read(2,5) [of d v] glued_read [of d v] show ?thesis by auto
  qed
  then show "''--'' \<notin> set (render i)" "classify worker_options (render i) = Inr (marks i)"
    "\<exists>xs. classify main_options (render i) = Inr xs" by blast+
qed

lemma classify_append:
  assumes "''--'' \<notin> set ss" "classify opts ss = Inr xs"
  shows "classify opts (ss @ ts) = map_sum id (\<lambda>ys. xs @ ys) (classify opts ts)"
  using assms
proof (induction ss arbitrary: xs)
  case (Cons s ss)
  then show ?case
    by (cases "classify opts ss"; cases "classify opts ts") (auto split: sum.splits)
qed (cases "classify opts ts"; simp)

lemma items_read:
  assumes "\<forall>i \<in> set is. item_ok i"
  shows "classify worker_options (concat (map render is)) = Inr (concat (map marks is))"
    "\<exists>xs. classify main_options (concat (map render is)) = Inr xs"
proof -
  show "classify worker_options (concat (map render is)) = Inr (concat (map marks is))"
    using assms by (induction "is") (simp_all add: classify_append item_read)
  show "\<exists>xs. classify main_options (concat (map render is)) = Inr xs"
    using assms
  proof (induction "is")
    case (Cons i "is")
    then obtain xs ys where "classify main_options (render i) = Inr xs"
      "classify main_options (concat (map render is)) = Inr ys" using item_read(3) [of i] by auto
    with Cons.prems show ?case by (simp add: classify_append [of "render i" _ xs] item_read(1))
  qed simp
qed

text \<open>Without a positional to read, a plain string is left over, one at a time.\<close>

lemma parse_known_leftover:
  "parse_known prog opts st takes act False n extras ((s, Plain) # xs) =
   parse_known prog opts st takes act False n (extras @ [s]) xs"
proof (cases xs)
  case (Cons x ys)
  obtain t m where x: "x = (t, m)" by force
  show ?thesis by (cases m) (simp_all add: Cons x is_optional_def)
qed simp

lemma marks_no_dashes: "x \<in> set (marks i) \<Longrightarrow> snd x \<noteq> Dashes"
  by (cases i) auto

lemma no_dashes: "x \<in> set (concat (map marks is)) \<Longrightarrow> snd x \<noteq> Dashes"
  by (auto dest: marks_no_dashes)

lemma parse_known_target:
  assumes "t \<noteq> ''--''"
  shows "parse_known prog opts st count_single set_target True a extras ((t, Plain) # concat (map marks is)) =
    parse_known prog opts st count_single set_target False (a\<lparr>a_target := Some t\<rparr>) extras (concat (map marks is))"
proof -
  have "takeWhile (\<lambda>m. m = Dashes) (map snd (concat (map marks is))) = []"
  proof -
    have "takeWhile (\<lambda>m. m = Dashes) (map snd xs) = []" if "\<forall>x \<in> set xs. snd x \<noteq> Dashes" for xs :: "(string \<times> mark) list"
      using that by (cases xs) auto
    then show ?thesis using no_dashes by blast
  qed
  then show ?thesis using assms by (simp add: set_target_def)
qed

lemma store_target:
  "store float d v (a\<lparr>a_target := x\<rparr>) = map_sum id (\<lambda>b. b\<lparr>a_target := x\<rparr>) (store float d v a)"
  by (cases d) (auto simp: store_def Let_def split: sum.splits option.splits)

lemma store_frame: "store float d v a = Inr b \<Longrightarrow> a_target b = a_target a"
  by (cases d) (auto simp: store_def Let_def split: sum.splits option.splits if_splits)

text \<open>One option with its value, in any of its spellings.\<close>

lemma parse_known_option:
  assumes "item_ok i" "i = Long d v \<or> i = LongEq d v \<or> i = Short d v \<or> i = ShortGlued d v"
  shows "parse_known prog opts st takes act todo n extras (marks i @ xs) =
    (case st d v n of Inl m \<Rightarrow> Inl (UsageError prog m)
     | Inr n' \<Rightarrow> parse_known prog opts st takes act todo n' extras xs)"
  using assms(2) by (auto split: sum.splits)

lemma parse_known_items:
  assumes "\<forall>i \<in> set is. item_ok i"
  shows "parse_known prog opts (store float) count_single set_target todo a extras (concat (map marks is)) =
    (case read_items float is a of
       Inl m \<Rightarrow> Inl (UsageError prog m)
     | Inr b \<Rightarrow>
         if todo then (case targets is of [] \<Rightarrow> Inr (True, b, extras) | t # ts \<Rightarrow> Inr (False, b\<lparr>a_target := Some t\<rparr>, extras @ ts))
         else Inr (False, b, extras @ targets is))"
  using assms
proof (induction "is" arbitrary: todo a extras)
  case (Cons i "is")
  show ?case
  proof (cases "\<exists>t. i = Target t")
    case True
    then obtain t where i: "i = Target t" by blast
    with Cons.prems have t: "t \<noteq> ''--''" using plain_text_read(1) [of t] by simp
    have IH: "parse_known prog opts (store float) count_single set_target todo' a' e' (concat (map marks is)) =
      (case read_items float is a' of
         Inl m \<Rightarrow> Inl (UsageError prog m)
       | Inr b \<Rightarrow>
           if todo' then (case targets is of [] \<Rightarrow> Inr (True, b, e') | t # ts \<Rightarrow> Inr (False, b\<lparr>a_target := Some t\<rparr>, e' @ ts))
           else Inr (False, b, e' @ targets is))" for todo' a' e'
      using Cons.prems by (intro Cons.IH) simp
    have r: "read_items float is (a\<lparr>a_target := x\<rparr>) = map_sum id (\<lambda>b. b\<lparr>a_target := x\<rparr>) (read_items float is a)" for x
    proof -
      have "read_items float js (c\<lparr>a_target := x\<rparr>) = map_sum id (\<lambda>b. b\<lparr>a_target := x\<rparr>) (read_items float js c)" for js c
        by (induction js arbitrary: c) (auto simp: Let_def store_target split: item.splits sum.splits)
      then show ?thesis .
    qed
    show ?thesis
    proof (cases todo)
      case True
      have "parse_known prog opts (store float) count_single set_target todo a extras (concat (map marks (i # is))) =
        parse_known prog opts (store float) count_single set_target False (a\<lparr>a_target := Some t\<rparr>) extras (concat (map marks is))"
        using parse_known_target [OF t, of prog opts "store float" a extras "is"] True i by simp
      with True i show ?thesis by (simp add: IH r Let_def split: sum.splits)
    next
      case False
      have "parse_known prog opts (store float) count_single set_target todo a extras (concat (map marks (i # is))) =
        parse_known prog opts (store float) count_single set_target False a (extras @ [t]) (concat (map marks is))"
        using parse_known_leftover [of prog opts "store float" count_single set_target a extras t "concat (map marks is)"] False i
        by simp
      with False i show ?thesis by (simp add: IH Let_def split: sum.splits)
    qed
  next
    case False
    then obtain d v where i: "i = Long d v \<or> i = LongEq d v \<or> i = Short d v \<or> i = ShortGlued d v" by (cases i) auto
    then have ts: "targets (i # is) = targets is"
      and ri: "read_items float (i # is) a = (case store float d v a of Inl m \<Rightarrow> Inl m | Inr b \<Rightarrow> read_items float is b)"
      by (auto simp: Let_def)
    have c: "concat (map marks (i # is)) = marks i @ concat (map marks is)" by simp
    have ok: "item_ok i" and oks: "\<forall>i \<in> set is. item_ok i" using Cons.prems by simp_all
    show ?thesis
      unfolding ts ri c parse_known_option [OF ok i]
      by (cases "store float d v a") (simp_all add: Cons.IH [OF oks])
  qed
qed (cases todo; simp)

section \<open>What a namespace holds\<close>

lemma take_actions_keeps:
  assumes "\<And>d v n n'. I n \<Longrightarrow> st d v n = Inr n' \<Longrightarrow> I n'"
  shows "I n \<Longrightarrow> take_actions prog st acts n = Inr n' \<Longrightarrow> I n'"
proof (induction acts arbitrary: n)
  case (Cons x acts)
  obtain a v where x: "x = (a, v)" by force
  from Cons.prems x obtain d n1 where "st d v n = Inr n1" "take_actions prog st acts n1 = Inr n'"
    by (auto split: action.splits sum.splits)
  with Cons.IH assms [OF Cons.prems(1)] show ?case by blast
qed simp

text \<open>An invariant of the namespace that the values and the positional argument keep.\<close>

lemma parse_known_keeps:
  assumes "parse_known prog opts st takes act todo n extras xs = Inr (todo', n', extras')" "I todo n"
    "\<And>todo d v n n'. I todo n \<Longrightarrow> st d v n = Inr n' \<Longrightarrow> I todo n'"
    "\<And>ss n n'. I True n \<Longrightarrow> act ss n = Inr n' \<Longrightarrow> I False n'"
  shows "I todo' n'"
  using assms
proof (induction prog opts st takes act todo n extras xs rule: parse_known.induct)
  case (2 prog opts st takes act todo n extras s m xs)
  note r = 2(7) and i = 2(8) and st = 2(9) and act = 2(10)
  show ?case
  proof (cases "\<exists>h. m = Optional h")
    case True
    then obtain h where m: "m = Optional h" by blast
    show ?thesis
    proof (cases h)
      case Unknown
      with r m have "parse_known prog opts st takes act todo n (extras @ [s]) xs = Inr (todo', n', extras')" by simp
      then show ?thesis by (rule 2(1) [OF m Unknown _ i]) (fact st, fact act)
    next
      case (Hit a opt ea)
      with r m obtain acts ys extra n1 where o: "take_optional opts a opt ea xs = Inr (acts, ys, extra)"
        "take_actions prog st acts n = Inr n1"
        "parse_known prog opts st takes act todo n1 (extras @ extra) ys = Inr (todo', n', extras')"
        by (auto split: sum.splits prod.splits)
      have "I todo n1" using take_actions_keeps [of "I todo" st n prog acts n1] st i o(2) by blast
      then show ?thesis by (rule 2(2) [OF m Hit o(1) refl refl o(2) o(3)]) (fact st, fact act)
    qed
  next
    case False
    then have m: "m = Plain \<or> m = Dashes" by (cases m) auto
    show ?thesis
    proof (cases "if todo then takes (m # map snd xs) else None")
      case None
      with m r have "parse_known prog opts st takes act todo n
          (extras @ s # map fst (takeWhile (\<lambda>(t, k). \<not> is_optional k) xs))
          (dropWhile (\<lambda>(t, k). \<not> is_optional k) xs) = Inr (todo', n', extras')" by auto
      note go = this
      from m show ?thesis
      proof
        assume "m = Plain"
        then show ?thesis by (rule 2(3) [OF _ None go i]) (fact st, fact act)
      next
        assume "m = Dashes"
        then show ?thesis by (rule 2(5) [OF _ None go i]) (fact st, fact act)
      qed
    next
      case (Some k)
      with r m obtain n1 where o: "act (take k (s # map fst xs)) n = Inr n1"
        "parse_known prog opts st takes act False n1 extras (drop (k - 1) xs) = Inr (todo', n', extras')"
        by (auto split: sum.splits)
      have "todo" using Some by (auto split: if_splits)
      then have i1: "I False n1" using act [OF _ o(1)] i by simp
      from m show ?thesis
      proof
        assume "m = Plain"
        then show ?thesis by (rule 2(4) [OF _ Some o i1]) (fact st, fact act)
      next
        assume "m = Dashes"
        then show ?thesis by (rule 2(6) [OF _ Some o i1]) (fact st, fact act)
      qed
    qed
  qed
qed auto

definition args_ok :: "worker_args \<Rightarrow> bool" where
  "args_ok a \<longleftrightarrow> a_target a \<noteq> None \<and> a_log_level a \<in> set LOG_LEVELS"

lemma store_log_level: "store float d v a = Inr b \<Longrightarrow> a_log_level a \<in> set LOG_LEVELS \<Longrightarrow> a_log_level b \<in> set LOG_LEVELS"
  by (cases d) (auto simp: store_def Let_def split: sum.splits option.splits if_splits)

lemma parse_worker_ok:
  assumes "parse_worker float argv = Inr (a, extras)"
  shows "args_ok a"
proof -
  obtain xs where xs: "parse_known ''taskqueue worker'' worker_options (store float) count_single set_target True worker_defaults [] xs =
      Inr (False, a, extras)"
    using assms by (auto simp: parse_worker_def finish_def split: sum.splits if_splits)
  have "(\<not> False \<longrightarrow> a_target a \<noteq> None) \<and> a_log_level a \<in> set LOG_LEVELS"
    by (rule parse_known_keeps [OF xs, of "\<lambda>todo a. (\<not> todo \<longrightarrow> a_target a \<noteq> None) \<and> a_log_level a \<in> set LOG_LEVELS"])
      (auto simp: store_frame set_target_def worker_defaults_def LOG_LEVELS_def dest: store_log_level [unfolded LOG_LEVELS_def])
  then show ?thesis by (simp add: args_ok_def)
qed

lemma parse_args_ok:
  assumes "parse_args float argv = Inr (CmdWorker a)"
  shows "args_ok a"
proof -
  let ?I = "\<lambda>(todo :: bool) n. \<forall>b ex. n = Some (CmdWorker b, ex) \<longrightarrow> args_ok b"
  obtain xs rest extras where xs: "parse_known ''taskqueue'' main_options (\<lambda>d v n. Inr n) count_rest (run_subparser float) True None [] xs =
      Inr (False, Some (CmdWorker a, rest), extras)"
    using assms by (auto simp: parse_args_def finish_def split: sum.splits if_splits option.splits)
  have "?I False (Some (CmdWorker a, rest))"
    by (rule parse_known_keeps [OF xs, of ?I])
      (auto simp: run_subparser_def Let_def split: list.splits if_splits sum.splits dest: parse_worker_ok)
  then show ?thesis by blast
qed

section \<open>Properties\<close>

text \<open>For the property below and for programs that start a worker.\<close>

lemma command_line_read:
  assumes "\<forall>i \<in> set is. item_ok i"
  shows "parse_args float (''worker'' # concat (map render is)) =
    (case read_items float is worker_defaults of
       Inl m \<Rightarrow> Inl (UsageError ''taskqueue worker'' m)
     | Inr a \<Rightarrow>
         (case targets is of
            [] \<Rightarrow> Inl (UsageError ''taskqueue worker'' ''the following arguments are required: target'')
          | t # ts \<Rightarrow>
              if ts = [] then Inr (CmdWorker (a\<lparr>a_target := Some t\<rparr>))
              else Inl (UsageError ''taskqueue'' (''unrecognized arguments: '' @ join_with '' '' ts))))"
proof -
  have w: "parse_worker float (concat (map render is)) =
    (case read_items float is worker_defaults of
       Inl m \<Rightarrow> Inl (UsageError ''taskqueue worker'' m)
     | Inr a \<Rightarrow>
         (case targets is of
            [] \<Rightarrow> Inl (UsageError ''taskqueue worker'' ''the following arguments are required: target'')
          | t # ts \<Rightarrow> Inr (a\<lparr>a_target := Some t\<rparr>, ts)))"
    using items_read(1) [OF assms] parse_known_items [OF assms, of "''taskqueue worker''" worker_options float True worker_defaults "[]"]
    by (auto simp: parse_worker_def finish_def split: sum.splits list.splits)
  obtain xs where xs: "classify main_options (concat (map render is)) = Inr xs"
    using items_read(2) [OF assms] by blast
  have "map fst ys = ss" if "classify opts ss = Inr ys" for opts ss ys
    using that by (induction ss arbitrary: ys) (auto split: if_splits sum.splits simp: comp_def)
  then have f: "map fst xs = concat (map render is)" using xs by blast
  have "parse_optional main_options ''worker'' = Inr None" by (simp add: parse_optional_def)
  then have m: "classify main_options (''worker'' # concat (map render is)) = Inr ((''worker'', Plain) # xs)"
    using xs by simp
  have "take (Suc (length xs)) (''worker'' # map fst xs) = ''worker'' # map fst xs" by simp
  then show ?thesis
    unfolding parse_args_def m
    by (simp add: run_subparser_def w f [symmetric] w [folded f] finish_def split: sum.splits list.splits)
qed

text \<open>(C33) The options of \<open>taskqueue worker\<close> may be written in any order, around the target, each in any of
  its spellings and more than once: the command gets the target, for each option the last value
  given, converted, and the default otherwise. A value that does not convert, no target, and a second target are
  usage errors.\<close>

theorem worker_command_line:
  assumes "\<forall>i \<in> set is. item_ok i"
  shows "parse_args float (''worker'' # concat (map render is)) =
    (case read_items float is worker_defaults of
       Inl m \<Rightarrow> Inl (UsageError ''taskqueue worker'' m)
     | Inr a \<Rightarrow>
         (case targets is of
            [] \<Rightarrow> Inl (UsageError ''taskqueue worker'' ''the following arguments are required: target'')
          | t # ts \<Rightarrow>
              if ts = [] then Inr (CmdWorker (a\<lparr>a_target := Some t\<rparr>))
              else Inl (UsageError ''taskqueue'' (''unrecognized arguments: '' @ join_with '' '' ts))))"
  by (rule command_line_read [OF assms])

definition demo_float :: "string \<Rightarrow> rat option" where
  "demo_float s = (case py_int s of Inl _ \<Rightarrow> None | Inr n \<Rightarrow> Some (of_int n))"

theorem worker_command_line_witness:
  "parse_args demo_float [''worker'', ''-c4'', ''app:q'', ''--heartbeat-interval=5'', ''-c'', ''8''] =
     Inr (CmdWorker (worker_defaults\<lparr>a_target := Some ''app:q'', a_concurrency := 8, a_heartbeat_interval := 5\<rparr>))"
proof -
  let ?is = "[ShortGlued D_concurrency ''4'', Target ''app:q'', LongEq D_heartbeat_interval ''5'', Short D_concurrency ''8'']"
  have i: "py_int ''4'' = Inr 4" "py_int ''5'' = Inr 5" "py_int ''8'' = Inr 8" by (code_simp, code_simp, code_simp)
  have "\<forall>i \<in> set ?is. item_ok i" by (simp add: plain_text_def)
  from worker_command_line [OF this, of demo_float] show ?thesis
    by (simp add: store_def demo_float_def i worker_defaults_def)
qed

end
