(* ===== verification/Logger.thy ===== *)
theory Logger
  imports Py_Base
begin

text \<open>
  \<open>logger.py\<close>: the two line formats and the configuration of the root logger. The clock text of a
  record and whether stderr is a terminal are parameters.
\<close>

definition LEVELS :: "(string \<times> nat) list" where
  "LEVELS = [(''CRITICAL'', 50), (''FATAL'', 50), (''ERROR'', 40), (''WARN'', 30), (''WARNING'', 30),
     (''INFO'', 20), (''DEBUG'', 10), (''NOTSET'', 0)]"

definition RESET :: string where "RESET = [CHR 0x1B] @ ''[0m''"

definition COLORS :: "(nat \<times> string) list" where
  "COLORS =
     [(10, [CHR 0x1B] @ ''[36m''), (20, [CHR 0x1B] @ ''[32m''), (30, [CHR 0x1B] @ ''[33m''),
      (40, [CHR 0x1B] @ ''[31m''), (50, [CHR 0x1B] @ ''[1;31m'')]"

record log_record =
  lr_time :: string
  lr_levelno :: nat
  lr_levelname :: string
  lr_name :: string
  lr_message :: string

definition ljust :: "nat \<Rightarrow> string \<Rightarrow> string" where
  "ljust n s = s @ replicate (n - length s) CHR '' ''"

definition color_format :: "log_record \<Rightarrow> string" where
  "color_format r =
     (let color = (case map_of COLORS (lr_levelno r) of None \<Rightarrow> [] | Some c \<Rightarrow> c)
      in lr_time r @ '' '' @ color @ ljust 8 (lr_levelname r) @ RESET @ '' '' @ lr_name r @ ''  '' @ lr_message r)"

definition plain_format :: "log_record \<Rightarrow> string" where
  "plain_format r = lr_time r @ '' '' @ ljust 8 (lr_levelname r) @ '' '' @ lr_name r @ ''  '' @ lr_message r"

text \<open>The root logger: its level and its handlers, each of which writes to stderr in one format.\<close>

datatype log_handler = ColorHandler | PlainHandler

record root_logger =
  rl_level :: nat
  rl_handlers :: "log_handler list"

text \<open>\<open>basicConfig(force=True)\<close> replaces the handlers before it looks at the level.\<close>

definition setup_logging :: "bool \<Rightarrow> string \<Rightarrow> root_logger \<Rightarrow> unit res \<times> root_logger" where
  "setup_logging isatty level root =
     (let root1 = root\<lparr>rl_handlers := [if isatty then ColorHandler else PlainHandler]\<rparr>
      in case map_of LEVELS level of
           None \<Rightarrow> (Inl (ValueError (''Unknown level: '' @ py_repr level)), root1)
         | Some n \<Rightarrow> (Inr (), root1\<lparr>rl_level := n\<rparr>))"

definition emit :: "root_logger \<Rightarrow> log_record \<Rightarrow> string list" where
  "emit root r =
     (if lr_levelno r < rl_level root then []
      else map (\<lambda>h. case h of ColorHandler \<Rightarrow> color_format r | PlainHandler \<Rightarrow> plain_format r) (rl_handlers root))"

text \<open>What a terminal shows of a line: the escape sequences up to their closing \<open>m\<close> are not text.\<close>

fun visible :: "bool \<Rightarrow> string \<Rightarrow> string" where
  "visible esc [] = []"
| "visible esc (c # cs) =
     (if esc then visible (c \<noteq> CHR ''m'') cs
      else if c = CHR 0x1B then visible True cs
      else c # visible False cs)"

lemma visible_plain: "CHR 0x1B \<notin> set s \<Longrightarrow> visible False (s @ t) = s @ visible False t"
  by (induction s) auto

lemma visible_self: "CHR 0x1B \<notin> set s \<Longrightarrow> visible False s = s"
  using visible_plain [of s "[]"] by simp

lemma visible_codes: "map_of COLORS n = Some c \<Longrightarrow> visible False (c @ t) = visible False t"
  "visible False (RESET @ t) = visible False t"
  by (auto simp: COLORS_def RESET_def split: if_splits)

lemma ljust_no_escape: "CHR 0x1B \<notin> set s \<Longrightarrow> CHR 0x1B \<notin> set (ljust n s)"
  by (auto simp: ljust_def)

text \<open>On a terminal and in a file the same text is shown.\<close>

lemma formats_show_the_same:
  assumes "CHR 0x1B \<notin> set (lr_time r @ lr_levelname r @ lr_name r @ lr_message r)"
  shows "visible False (color_format r) = plain_format r"
proof -
  have e: "CHR 0x1B \<notin> set (lr_time r)" "CHR 0x1B \<notin> set (ljust 8 (lr_levelname r))"
    "CHR 0x1B \<notin> set (lr_name r)" "CHR 0x1B \<notin> set (lr_message r)"
    using assms ljust_no_escape by auto
  have s: "visible False ('' '' @ t) = '' '' @ visible False t" "visible False (''  '' @ t) = ''  '' @ visible False t" for t
    by simp_all
  have c: "visible False ((case map_of COLORS n of None \<Rightarrow> [] | Some c \<Rightarrow> c) @ t) = visible False t" for n t
    using visible_codes(1) by (simp split: option.split)
  show ?thesis
    unfolding color_format_def plain_format_def Let_def
    by (simp only: visible_plain [OF e(1)] visible_plain [OF e(2)] visible_plain [OF e(3)] visible_self [OF e(4)] s c visible_codes(2))
qed

end
