(* ===== verification/Cli.thy ===== *)
theory Cli
  imports Queue Pool_Properties Arguments Logger "HOL-Library.List_Lexorder" "HOL-Library.Char_ord"
begin

text \<open>
  \<open>cli.py\<close>: listing implementations, resolving the \<open>module:queue\<close> target, the two-stage shutdown
  of \<open>run_worker\<close> and the exit codes of \<open>main\<close>. The modules a package ships, importing and signals
  are parameters.
\<close>

section \<open>Listing implementations\<close>

definition EXIT_OK :: int where "EXIT_OK = 0"
definition EXIT_BAD_TARGET :: int where "EXIT_BAD_TARGET = 1"
definition EXIT_BAD_CONFIG :: int where "EXIT_BAD_CONFIG = 3"
definition BACKEND_SUFFIX :: string where "BACKEND_SUFFIX = ''_backend''"
definition SERIALIZER_SUFFIX :: string where "SERIALIZER_SUFFIX = ''_serializer''"

definition endswith :: "string \<Rightarrow> string \<Rightarrow> bool" where
  "endswith s suf \<longleftrightarrow> length suf \<le> length s \<and> drop (length s - length suf) s = suf"

definition removesuffix :: "string \<Rightarrow> string \<Rightarrow> string" where
  "removesuffix s suf = (if suf \<noteq> [] \<and> endswith s suf then take (length s - length suf) s else s)"

text \<open>\<open>modules\<close> is what \<open>pkgutil.iter_modules\<close> yields: names, each with whether it is a package.\<close>

definition available :: "(string \<times> bool) list \<Rightarrow> string \<Rightarrow> string list" where
  "available modules suf =
     sort (map (\<lambda>(n, ispkg). removesuffix n suf) (filter (\<lambda>(n, ispkg). endswith n suf \<and> \<not> ispkg) modules))"

section \<open>Resolving the target\<close>

definition partition_colon :: "string \<Rightarrow> string \<times> string" where
  "partition_colon s = (takeWhile (\<lambda>c. c \<noteq> CHR '':'') s, drop 1 (dropWhile (\<lambda>c. c \<noteq> CHR '':'') s))"

text \<open>An attribute of a module: a queue, or something else of a named type.\<close>

datatype 's pyobj = AQueue "'s queue_obj" | AnotherObject string

type_synonym 's pymodule = "'s pyobj pydict"

definition resolve_queue :: "(string \<Rightarrow> 's pymodule res) \<Rightarrow> string \<Rightarrow> 's queue_obj res" where
  "resolve_queue import_module spec =
     (case partition_colon spec of (module_name, queue_name) \<Rightarrow>
        if \<not> (module_name \<noteq> [] \<and> queue_name \<noteq> [])
        then Inl (TargetError (''invalid target '' @ py_repr spec @ '': expected '' @ quoted ''<module>:<queue>''))
        else
          case import_module module_name of
            Inl e \<Rightarrow>
              (case e of
                 ImportError m \<Rightarrow> Inl (TargetError (''cannot import '' @ py_repr module_name @ '': '' @ m @ ''.''))
               | _ \<Rightarrow> Inl e)
          | Inr imported \<Rightarrow>
              (case map_of imported queue_name of
                 None \<Rightarrow> Inl (TargetError (py_repr module_name @ '' has no attribute '' @ py_repr queue_name))
               | Some (AnotherObject type) \<Rightarrow>
                   Inl (TargetError (module_name @ '':'' @ queue_name @ '' is a '' @ type @ '', expected a Queue''))
               | Some (AQueue target) \<Rightarrow> Inr target))"

section \<open>Serving until a signal\<close>

text \<open>The start of \<open>run_worker\<close>: the pool is built and entered.\<close>

definition run_worker_start :: "'s queue_obj \<Rightarrow> int \<Rightarrow> rat \<Rightarrow> 's \<Rightarrow> unit res \<times> pool option \<times> 's" where
  "run_worker_start q concurrency heartbeat_interval s =
     (case queue_worker concurrency heartbeat_interval q of
        Inl e \<Rightarrow> (Inl e, None, s)
      | Inr p \<Rightarrow> (case pool_enter (q_backend q) p s of (r, p', s') \<Rightarrow> (r, Some p', s')))"

text \<open>The signals that set the stop event: those the platform has and lets a handler be set for.\<close>

definition stop_signals :: "(string \<Rightarrow> bool) \<Rightarrow> (string \<Rightarrow> bool) \<Rightarrow> string list" where
  "stop_signals known settable = filter (\<lambda>sig. known sig \<and> settable sig) [''SIGINT'', ''SIGTERM'']"

text \<open>What the command logs about the tasks it can resolve a job to, with its level.\<close>

definition serving_log :: "'s queue_obj \<Rightarrow> string \<times> string" where
  "serving_log q =
     (let names = sort (map fst (q_task_registry q))
      in if names \<noteq> [] then (''INFO'', ''serving '' @ str_of_int (int (length names)) @ '' task(s): '' @ join_with '', '' names)
         else (''WARNING'', ''no tasks are registered on this queue; every job will fail''))"

datatype shutdown = DrainComplete | DeadlinePassed | SecondSignal

text \<open>After the first signal: the drain races the second one, then the pool is left. \<open>lapsed\<close> says
  the drain's deadline has passed, \<open>again\<close> that the second signal has arrived; \<open>None\<close> while
  neither has and a loop is alive.\<close>

definition run_worker_stop ::
  "'s queue_obj \<Rightarrow> bool \<Rightarrow> bool \<Rightarrow> (nat \<Rightarrow> race option) \<Rightarrow> (nat \<Rightarrow> race option) \<Rightarrow> pool \<Rightarrow> 's
   \<Rightarrow> (shutdown \<times> unit res \<times> pool \<times> 's) option" where
  "run_worker_stop q lapsed again cuts1 cuts2 p s =
     (let S = q_serializer q; B = q_backend q; reg = q_task_registry q
      in case pool_drain S B reg lapsed cuts1 p s of
           (Ready (Inr drained), p1, s1) \<Rightarrow>
             Some (if drained then DrainComplete else DeadlinePassed, pool_exit S B reg cuts2 p1 s1)
         | (Ready (Inl e), p1, s1) \<Rightarrow> Some (DrainComplete, Inl e, p1, s1)
         | (Pending, p1, s1) \<Rightarrow> if again then Some (SecondSignal, pool_exit S B reg cuts2 p1 s1) else None)"

section \<open>The exit code\<close>

text \<open>How \<open>asyncio.run\<close> comes back once the pool is built.\<close>

datatype serve_end = Served | ServeRaises pyexc | KeyboardInterrupt

text \<open>\<open>main\<close> returns an exit code, \<open>argparse\<close> exits by itself, or an exception comes out.\<close>

datatype main_end = Exit int | SystemExit int | Raises pyexc

definition join_lines :: "string list \<Rightarrow> string" where
  "join_lines xs = concat (case xs of [] \<Rightarrow> [] | y # ys \<Rightarrow> y # map (\<lambda>x. CHR 0x0A # x) ys)"

definition upper :: "string \<Rightarrow> string" where
  "upper = map (\<lambda>c. if 97 \<le> (of_char c :: nat) \<and> (of_char c :: nat) \<le> 122 then char_of ((of_char c :: nat) - 32) else c)"

text \<open>What surrounds the command: the texts \<open>argparse\<close> prints, the modules the two packages ship, what
  importing a module under a search path yields, how serving a pool ends, and the process's
  working directory, search path, terminal and root logger.\<close>

record 's cli_env =
  c_version :: string
  c_help :: "string \<Rightarrow> string"
  c_float :: "string \<Rightarrow> rat option"
  c_backends :: "(string \<times> bool) list"
  c_serializers :: "(string \<times> bool) list"
  c_import :: "string list \<Rightarrow> string \<Rightarrow> 's pymodule res"
  c_serve :: "pool \<Rightarrow> 's queue_obj \<Rightarrow> rat option \<Rightarrow> serve_end"
  c_cwd :: string
  c_sys_path :: "string list"
  c_isatty :: bool
  c_root :: root_logger

definition main_worker :: "'s cli_env \<Rightarrow> worker_args \<Rightarrow> main_end \<times> string list \<times> string list" where
  "main_worker env a =
     (let path = (if c_cwd env \<in> set (c_sys_path env) then c_sys_path env else c_cwd env # c_sys_path env)
      in case a_target a of
           None \<Rightarrow> (Raises (AttributeError ''NoneType object has no attribute partition''), [], [])
         | Some target \<Rightarrow>
         (case resolve_queue (c_import env path) target of
            Inl e \<Rightarrow>
              (case e of
                 TargetError m \<Rightarrow> (Exit EXIT_BAD_TARGET, [], [''taskqueue: '' @ m])
               | _ \<Rightarrow> (Raises e, [], []))
          | Inr queue \<Rightarrow>
              (case (case queue_worker (a_concurrency a) (a_heartbeat_interval a) queue of
                       Inl e \<Rightarrow> ServeRaises e
                     | Inr p \<Rightarrow> c_serve env p queue (Some (a_drain_timeout a))) of
                 ServeRaises e \<Rightarrow>
                   (case e of
                      ConfigError m \<Rightarrow>
                        (Exit EXIT_BAD_CONFIG, [],
                         [''taskqueue: '' @ m,
                          ''taskqueue: set the interval here with --heartbeat-interval; '' @
                          ''worker_ttl is set where the Queue'' @ [CHR 0x27] @ ''s backend is built.''])
                    | _ \<Rightarrow> (Raises e, [], []))
               | _ \<Rightarrow> (Exit EXIT_OK, [], []))))"

text \<open>The result of \<open>main\<close> with what it prints on stdout and stderr, usage and log lines aside.\<close>

definition main :: "'s cli_env \<Rightarrow> string list \<Rightarrow> main_end \<times> string list \<times> string list" where
  "main env argv =
     (case parse_args (c_float env) argv of
        Inl stop \<Rightarrow>
          (case stop of
             ShowHelp prog \<Rightarrow> (SystemExit 0, [c_help env prog], [])
           | ShowVersion \<Rightarrow> (SystemExit 0, [''TaskQueue '' @ c_version env], [])
           | UsageError prog m \<Rightarrow> (SystemExit 2, [], [prog @ '': error: '' @ m]))
      | Inr cmd \<Rightarrow>
          (case cmd of
             CmdBackends \<Rightarrow> (Exit EXIT_OK, [join_lines (available (c_backends env) BACKEND_SUFFIX)], [])
           | CmdSerializers \<Rightarrow> (Exit EXIT_OK, [join_lines (available (c_serializers env) SERIALIZER_SUFFIX)], [])
           | CmdWorker a \<Rightarrow>
               (case fst (setup_logging (c_isatty env) (upper (a_log_level a)) (c_root env)) of
                  Inl e \<Rightarrow> (Raises e, [], [])
                | Inr _ \<Rightarrow> main_worker env a)))"

section \<open>Properties\<close>

lemma endswith_iff: "endswith s suf \<longleftrightarrow> (\<exists>p. s = p @ suf)"
proof
  assume "endswith s suf"
  then have "s = take (length s - length suf) s @ suf" by (metis append_take_drop_id endswith_def)
  then show "\<exists>p. s = p @ suf" by blast
qed (auto simp: endswith_def)

lemma removesuffix_append [simp]: "suf \<noteq> [] \<Longrightarrow> removesuffix (p @ suf) suf = p"
  by (simp add: removesuffix_def endswith_def)

text \<open>\<open>taskqueue backends\<close> and \<open>taskqueue serializers\<close> list, in order, exactly the names whose module
  with the suffix is shipped as a plain module, one entry for each.\<close>

lemma available_lists_implementations:
  assumes "suf \<noteq> []" "distinct modules"
  shows "sorted (available modules suf) \<and> distinct (available modules suf) \<and>
    (n \<in> set (available modules suf) \<longleftrightarrow> (n @ suf, False) \<in> set modules)"
proof -
  let ?f = "filter (\<lambda>(n, ispkg). endswith n suf \<and> \<not> ispkg) modules"
  have e: "\<exists>p. x = (p @ suf, False) \<and> (case x of (n, ispkg) \<Rightarrow> removesuffix n suf) = p" if "x \<in> set ?f" for x
    using that assms(1) by (auto simp: endswith_iff)
  have "inj_on (\<lambda>(n, ispkg). removesuffix n suf) (set ?f)"
    by (rule inj_onI) (metis e)
  then have "distinct (available modules suf)" using assms(2) by (simp add: available_def distinct_map)
  moreover have "n \<in> set (available modules suf) \<longleftrightarrow> (n @ suf, False) \<in> set modules"
    using assms(1) by (force simp: available_def endswith_iff image_iff)
  ultimately show ?thesis by (simp add: available_def)
qed

text \<open>A target resolves exactly when it names a module and an attribute, split at the first colon, the
  module imports and the attribute is a queue; a failed import or a bad attribute is a
  \<open>TargetError\<close>, and only an exception of the module's own code comes through as it is.\<close>

lemma resolve_queue_iff:
  assumes "partition_colon spec = (m, a)"
  shows "(resolve_queue imp spec = Inr q \<longleftrightarrow>
      m \<noteq> [] \<and> a \<noteq> [] \<and> (\<exists>imported. imp m = Inr imported \<and> map_of imported a = Some (AQueue q))) \<and>
    (\<forall>e. resolve_queue imp spec = Inl e \<longrightarrow> (\<exists>t. e = TargetError t) \<or> imp m = Inl e) \<and>
    (CHR '':'' \<in> set spec \<longrightarrow> spec = m @ '':'' @ a \<and> CHR '':'' \<notin> set m)"
proof -
  have 1: "resolve_queue imp spec = Inr q \<longleftrightarrow>
      m \<noteq> [] \<and> a \<noteq> [] \<and> (\<exists>imported. imp m = Inr imported \<and> map_of imported a = Some (AQueue q))"
    by (simp add: resolve_queue_def assms split: sum.splits pyexc.splits option.splits pyobj.splits)
  have 2: "(\<exists>t. e = TargetError t) \<or> imp m = Inl e" if "resolve_queue imp spec = Inl e" for e
    using that by (auto simp: resolve_queue_def assms split: if_splits sum.splits pyexc.splits option.splits pyobj.splits)
  have "spec = m @ '':'' @ a \<and> CHR '':'' \<notin> set m" if "CHR '':'' \<in> set spec"
  proof -
    from split_list_first [OF that] obtain xs ys where s: "spec = xs @ CHR '':'' # ys" "CHR '':'' \<notin> set xs" by blast
    then have "takeWhile (\<lambda>c. c \<noteq> CHR '':'') spec = xs" "dropWhile (\<lambda>c. c \<noteq> CHR '':'') spec = CHR '':'' # ys"
      by (auto simp: takeWhile_append2 takeWhile_tail dropWhile_append)
    with s assms show ?thesis by (simp add: partition_colon_def)
  qed
  with 1 2 show ?thesis by blast
qed

text \<open>The line does not depend on the order of registration, and warns exactly on an empty registry.\<close>

lemma serving_log_order:
  assumes "mset (map fst (q_task_registry q)) = mset (map fst (q_task_registry q'))"
  shows "serving_log q = serving_log q'" "fst (serving_log q) = ''WARNING'' \<longleftrightarrow> q_task_registry q = []"
proof -
  have "sort (map fst (q_task_registry q)) = sort (map fst (q_task_registry q'))"
    by (rule properties_for_sort) (simp_all only: mset_sort sorted_sort assms)
  then show "serving_log q = serving_log q'" by (simp only: serving_log_def)
  have "sort (map fst (q_task_registry q)) = [] \<longleftrightarrow> q_task_registry q = []"
    by (metis map_is_Nil_conv mset_sort mset_zero_iff)
  then show "fst (serving_log q) = ''WARNING'' \<longleftrightarrow> q_task_registry q = []"
    by (simp add: serving_log_def Let_def)
qed

definition demo_import :: "string \<Rightarrow> mem pymodule res" where
  "demo_import m = (if m = ''app'' then Inr [(''q'', AQueue (Queue_init MemoryBackend None None None))]
     else Inl (ImportError ''no module''))"

text \<open>Every level the parser lets through is one the logging module knows.\<close>

lemma level_known:
  assumes "args_ok a"
  shows "fst (setup_logging tty (upper (a_log_level a)) lg) = Inr ()"
proof -
  have "\<forall>l \<in> set LOG_LEVELS. map_of LEVELS (upper l) \<noteq> None" by code_simp
  then show ?thesis using assms by (auto simp: args_ok_def setup_logging_def)
qed

lemma main_worker_codes:
  assumes "\<And>p q d m. c_serve env p q d \<noteq> ServeRaises (ConfigError m)" "a_target a = Some target"
    "path = (if c_cwd env \<in> set (c_sys_path env) then c_sys_path env else c_cwd env # c_sys_path env)"
    "main_worker env a = (r, out, err)"
  shows "(r = Exit EXIT_BAD_TARGET \<longleftrightarrow> (\<exists>m. resolve_queue (c_import env path) target = Inl (TargetError m))) \<and>
    (r = Exit EXIT_BAD_CONFIG \<longleftrightarrow>
       (\<exists>q ttl. resolve_queue (c_import env path) target = Inr q \<and> q_worker_ttl q = Some ttl \<and>
          of_int ttl < 3 * a_heartbeat_interval a)) \<and>
    (r = Exit EXIT_OK \<longleftrightarrow>
       (\<exists>q p. resolve_queue (c_import env path) target = Inr q \<and>
          queue_worker (a_concurrency a) (a_heartbeat_interval a) q = Inr p \<and>
          c_serve env p q (Some (a_drain_timeout a)) \<in> {Served, KeyboardInterrupt})) \<and>
    (err \<noteq> [] \<longleftrightarrow> r \<in> {Exit EXIT_BAD_TARGET, Exit EXIT_BAD_CONFIG}) \<and> out = [] \<and> (\<forall>n. r \<noteq> SystemExit n)"
proof (cases "resolve_queue (c_import env path) target")
  case (Inl e)
  with assms(2-4) show ?thesis
    by (cases e) (auto simp: main_worker_def Let_def EXIT_OK_def EXIT_BAD_TARGET_def EXIT_BAD_CONFIG_def)
next
  case (Inr q)
  let ?n = "a_concurrency a" and ?h = "a_heartbeat_interval a" and ?d = "Some (a_drain_timeout a)"
  have w: "(\<exists>p. queue_worker ?n ?h q = Inr p) \<or> (\<exists>m. queue_worker ?n ?h q = Inl (ConfigError m))"
    "(\<exists>m. queue_worker ?n ?h q = Inl (ConfigError m)) \<longleftrightarrow> (\<exists>ttl. q_worker_ttl q = Some ttl \<and> of_int ttl < 3 * ?h)"
    by (auto simp: queue_worker_def Worker_init_def check_liveness_def MIN_BEATS_PER_TTL_def mult.commute split: option.splits)
  from w(1) show ?thesis
  proof
    assume "\<exists>m. queue_worker ?n ?h q = Inl (ConfigError m)"
    with w(2) Inr assms(2-4) show ?thesis
      by (auto simp: main_worker_def Let_def EXIT_OK_def EXIT_BAD_TARGET_def EXIT_BAD_CONFIG_def)
  next
    assume "\<exists>p. queue_worker ?n ?h q = Inr p"
    then obtain p where p: "queue_worker ?n ?h q = Inr p" by blast
    show ?thesis
    proof (cases "c_serve env p q ?d")
      case (ServeRaises e)
      with assms(1) [of p q ?d] have "\<And>m. e \<noteq> ConfigError m" by auto
      with ServeRaises p w(2) Inr assms(2-4) show ?thesis
        by (cases e) (auto simp: main_worker_def Let_def EXIT_OK_def EXIT_BAD_TARGET_def EXIT_BAD_CONFIG_def)
    qed (use p w(2) Inr assms(2-4) in
        \<open>auto simp: main_worker_def Let_def EXIT_OK_def EXIT_BAD_TARGET_def EXIT_BAD_CONFIG_def\<close>)
  qed
qed

text \<open>(C32) How the command ends, for every command line. With 2 exactly for a usage error, before anything
  is imported. When the line asks for a worker: with 1 exactly when the target does not resolve to
  a queue, with 3 exactly when it does and the heartbeat interval is too long for the queue's
  backend, each with a message on stderr and before any pool exists; with 0 when the pool was served or
  interrupted. Nothing else is turned into a code.\<close>

theorem worker_exit_codes:
  assumes "\<And>p q d m. c_serve env p q d \<noteq> ServeRaises (ConfigError m)"
    "path = (if c_cwd env \<in> set (c_sys_path env) then c_sys_path env else c_cwd env # c_sys_path env)"
    "main env argv = (r, out, err)"
  shows "(r = SystemExit 2 \<longleftrightarrow> (\<exists>prog m. parse_args (c_float env) argv = Inl (UsageError prog m))) \<and>
    (case parse_args (c_float env) argv of
       Inr (CmdWorker a) \<Rightarrow>
         \<exists>target. a_target a = Some target \<and>
           (r = Exit EXIT_BAD_TARGET \<longleftrightarrow> (\<exists>m. resolve_queue (c_import env path) target = Inl (TargetError m))) \<and>
           (r = Exit EXIT_BAD_CONFIG \<longleftrightarrow>
              (\<exists>q ttl. resolve_queue (c_import env path) target = Inr q \<and> q_worker_ttl q = Some ttl \<and>
                 of_int ttl < 3 * a_heartbeat_interval a)) \<and>
           (r = Exit EXIT_OK \<longleftrightarrow>
              (\<exists>q p. resolve_queue (c_import env path) target = Inr q \<and>
                 queue_worker (a_concurrency a) (a_heartbeat_interval a) q = Inr p \<and>
                 c_serve env p q (Some (a_drain_timeout a)) \<in> {Served, KeyboardInterrupt})) \<and>
           (err \<noteq> [] \<longleftrightarrow> r \<in> {Exit EXIT_BAD_TARGET, Exit EXIT_BAD_CONFIG}) \<and> out = []
     | Inr _ \<Rightarrow> r = Exit EXIT_OK \<and> err = []
     | Inl _ \<Rightarrow> r \<in> {SystemExit 0, SystemExit 2})"
proof (cases "parse_args (c_float env) argv")
  case (Inl stop)
  with assms(3) show ?thesis by (cases stop) (auto simp: main_def)
next
  case (Inr cmd)
  show ?thesis
  proof (cases cmd)
    case (CmdWorker a)
    with Inr have ok: "args_ok a" using parse_args_ok by blast
    then obtain target where t: "a_target a = Some target" by (auto simp: args_ok_def)
    have "main_worker env a = (r, out, err)" using assms(3) Inr CmdWorker level_known [OF ok] by (simp add: main_def)
    from main_worker_codes [OF assms(1) t assms(2) this] t Inr CmdWorker show ?thesis by auto
  qed (use Inr assms(3) in \<open>auto simp: main_def\<close>)
qed

definition demo_env :: "mem cli_env" where
  "demo_env = \<lparr>c_version = ''0'', c_help = (\<lambda>p. p), c_float = demo_float, c_backends = [], c_serializers = [],
     c_import = (\<lambda>path. demo_import), c_serve = (\<lambda>p q d. Served), c_cwd = ''/'', c_sys_path = [],
     c_isatty = False, c_root = \<lparr>rl_level = 30, rl_handlers = []\<rparr>\<rparr>"

theorem worker_exit_codes_witness:
  "fst (main demo_env [''worker'', ''app:q'', ''-l'', ''debug'']) = Exit 0 \<and>
   fst (main demo_env [''worker'', ''app'']) = Exit 1 \<and> fst (main demo_env [''worker'']) = SystemExit 2"
proof -
  have s: "\<And>p (q :: mem queue_obj) d m. c_serve demo_env p q d \<noteq> ServeRaises (ConfigError m)" by (simp add: demo_env_def)
  have p: "parse_args (c_float demo_env) [''worker'', ''app:q'', ''-l'', ''debug''] =
      Inr (CmdWorker (worker_defaults\<lparr>a_target := Some ''app:q'', a_log_level := ''debug''\<rparr>))"
    "parse_args (c_float demo_env) [''worker'', ''app''] = Inr (CmdWorker (worker_defaults\<lparr>a_target := Some ''app''\<rparr>))"
    "\<exists>prog m. parse_args (c_float demo_env) [''worker''] = Inl (UsageError prog m)"
    by (simp add: demo_env_def, code_simp, simp add: demo_env_def, code_simp)
      (simp add: parse_args_def parse_optional_def parse_worker_def finish_def run_subparser_def)
  have e: "c_import demo_env = (\<lambda>path. demo_import)" "c_serve demo_env = (\<lambda>p q d. Served)" by (simp_all add: demo_env_def)
  have q: "resolve_queue demo_import ''app:q'' = Inr (Queue_init MemoryBackend None None None)"
    "\<exists>m. resolve_queue demo_import ''app'' = Inl (TargetError m)"
    by (simp_all add: resolve_queue_def partition_colon_def demo_import_def)
  have w: "\<exists>p. queue_worker 1 10 (Queue_init MemoryBackend None None None :: mem queue_obj) = Inr p"
    by (simp add: queue_worker_def Worker_init_def check_liveness_def Queue_init_def)
  obtain r1 o1 e1 where m1: "main demo_env [''worker'', ''app:q'', ''-l'', ''debug''] = (r1, o1, e1)" using prod_cases3 by blast
  obtain r2 o2 e2 where m2: "main demo_env [''worker'', ''app''] = (r2, o2, e2)" using prod_cases3 by blast
  obtain r3 o3 e3 where m3: "main demo_env [''worker''] = (r3, o3, e3)" using prod_cases3 by blast
  have "r1 = Exit 0"
    using worker_exit_codes [OF s refl m1] p(1) q(1) w e
    by (auto simp: EXIT_OK_def worker_defaults_def DEFAULT_HEARTBEAT_INTERVAL_SECONDS_def)
  moreover have "r2 = Exit 1"
    using worker_exit_codes [OF s refl m2] p(2) q(2) e by (auto simp: EXIT_BAD_TARGET_def)
  moreover have "r3 = SystemExit 2" using worker_exit_codes [OF s refl m3] p(3) by blast
  ultimately show ?thesis using m1 m2 m3 by simp
qed


text \<open>The demo pool, over a queue with the demo task, told twice to stop.\<close>

definition demo_queue :: "mem queue_obj" where
  "demo_queue = (Queue_init MemoryBackend None None None)\<lparr>q_task_registry := demo_reg\<rparr>"


end
