(* ===== verification/Notifier.thy ===== *)
theory Notifier
  imports Redis_Backend
begin

text \<open>
  \<open>_Notifier\<close> of \<open>redis_backend.py\<close>: one pubsub connection shared by all waiters of a backend
  object. \<open>join\<close> and the release inside \<open>leave\<close> hold a lock, so each is one step; the reader
  task delivers messages between them. Whether the server accepts a subscription, and when the
  connection breaks, is the environment's choice.
\<close>

section \<open>The notifier and its operations\<close>

datatype reader = ReaderAlive | ReaderStopped

text \<open>Events are numbered objects; \<open>n_set\<close> are those whose flag is set. \<open>n_pubsub\<close> holds the
  channels the open connection is subscribed to.\<close>

record notifier =
  n_waiters :: "nat list pydict"
  n_pubsub :: "string list option"
  n_reader :: "reader option"
  n_set :: "nat list"
  n_fresh :: nat

definition Notifier_init :: notifier where
  "Notifier_init = \<lparr>n_waiters = [], n_pubsub = None, n_reader = None, n_set = [], n_fresh = 0\<rparr>"

definition notifier_forget :: "string \<Rightarrow> nat \<Rightarrow> notifier \<Rightarrow> notifier" where
  "notifier_forget channel woken n =
     (case map_of (n_waiters n) channel of
        None \<Rightarrow> n
      | Some watchers \<Rightarrow>
          let watchers' = removeAll woken watchers
          in n\<lparr>n_waiters := (if watchers' = [] then AList.delete channel (n_waiters n)
                             else AList.update channel watchers' (n_waiters n))\<rparr>)"

definition start_reader :: "notifier \<Rightarrow> notifier" where
  "start_reader n = (if n_reader n = None then n\<lparr>n_reader := Some ReaderAlive\<rparr> else n)"

text \<open>\<open>subscribed\<close> is what the subscribe call comes back with, if it is made.\<close>

definition notifier_join :: "string \<Rightarrow> unit res \<Rightarrow> notifier \<Rightarrow> nat res \<times> notifier" where
  "notifier_join channel subscribed n =
     (let woken = n_fresh n;
          n1 = n\<lparr>n_fresh := n_fresh n + 1, n_pubsub := Some (case n_pubsub n of None \<Rightarrow> [] | Some cs \<Rightarrow> cs)\<rparr>;
          watchers = (case map_of (n_waiters n1) channel of None \<Rightarrow> [] | Some ws \<Rightarrow> ws) @ [woken];
          n2 = n1\<lparr>n_waiters := AList.update channel watchers (n_waiters n1)\<rparr>
      in if length watchers = 1
         then case subscribed of
                Inl e \<Rightarrow> (Inl e, notifier_forget channel woken n2)
              | Inr _ \<Rightarrow> (Inr woken, start_reader (n2\<lparr>n_pubsub := map_option (\<lambda>cs. channel # cs) (n_pubsub n2)\<rparr>))
         else (Inr woken, start_reader n2))"

definition notifier_leave :: "string \<Rightarrow> nat \<Rightarrow> unit res \<Rightarrow> notifier \<Rightarrow> notifier" where
  "notifier_leave channel woken unsubscribed n =
     (let n1 = notifier_forget channel woken n
      in if map_of (n_waiters n1) channel \<noteq> None then n1
         else if n_waiters n1 \<noteq> []
         then (if isOk unsubscribed then n1\<lparr>n_pubsub := map_option (removeAll channel) (n_pubsub n1)\<rparr> else n1)
         else n1\<lparr>n_reader := None, n_pubsub := None\<rparr>)"

text \<open>One message, as the reader's loop handles it, and the end of that loop on a broken connection.\<close>

definition notifier_read :: "string \<Rightarrow> notifier \<Rightarrow> notifier" where
  "notifier_read channel n =
     (if n_reader n = Some ReaderAlive \<and> (\<exists>cs. n_pubsub n = Some cs \<and> channel \<in> set cs)
      then n\<lparr>n_set := n_set n @ (case map_of (n_waiters n) channel of None \<Rightarrow> [] | Some ws \<Rightarrow> ws)\<rparr>
      else n)"

definition reader_fails :: "notifier \<Rightarrow> notifier" where
  "reader_fails n = n\<lparr>n_reader := map_option (\<lambda>_. ReaderStopped) (n_reader n)\<rparr>"

text \<open>\<open>_wait_for_message\<close>: woken or lapsed, the event is cleared.\<close>

definition wait_for_message :: "nat \<Rightarrow> notifier \<Rightarrow> bool \<times> notifier" where
  "wait_for_message woken n = (woken \<in> set (n_set n), n\<lparr>n_set := removeAll woken (n_set n)\<rparr>)"

section \<open>Runs\<close>

definition watches :: "notifier \<Rightarrow> string \<Rightarrow> nat list" where
  "watches n ch = (case map_of (n_waiters n) ch of None \<Rightarrow> [] | Some ws \<Rightarrow> ws)"

inductive notifier_step :: "notifier \<Rightarrow> notifier \<Rightarrow> bool" where
  ns_join: "notifier_step n (snd (notifier_join ch r n))"
| ns_leave: "notifier_step n (notifier_leave ch e r n)" if "e \<in> set (watches n ch)"
| ns_read: "notifier_step n (notifier_read ch n)"
| ns_fail: "notifier_step n (reader_fails n)"
| ns_wait: "notifier_step n (snd (wait_for_message e n))"

definition notifier_ok :: "notifier \<Rightarrow> bool" where
  "notifier_ok n \<longleftrightarrow>
     is_dict (n_waiters n) \<and> (\<forall>ch. map_of (n_waiters n) ch \<noteq> Some []) \<and>
     (n_reader n \<noteq> None \<longleftrightarrow> n_waiters n \<noteq> []) \<and>
     (\<forall>ch. watches n ch \<noteq> [] \<longrightarrow> (\<exists>cs. n_pubsub n = Some cs \<and> ch \<in> set cs)) \<and>
     (\<forall>ch e. e \<in> set (watches n ch) \<longrightarrow> e < n_fresh n) \<and>
     (\<forall>ch ch' e. e \<in> set (watches n ch) \<longrightarrow> e \<in> set (watches n ch') \<longrightarrow> ch = ch')"

lemma notifier_okI:
  assumes "is_dict (n_waiters n)" "\<And>ch. map_of (n_waiters n) ch \<noteq> Some []"
    "n_reader n \<noteq> None \<longleftrightarrow> n_waiters n \<noteq> []"
    "\<And>ch. watches n ch \<noteq> [] \<Longrightarrow> \<exists>cs. n_pubsub n = Some cs \<and> ch \<in> set cs"
    "\<And>ch e. e \<in> set (watches n ch) \<Longrightarrow> e < n_fresh n"
    "\<And>ch ch' e. e \<in> set (watches n ch) \<Longrightarrow> e \<in> set (watches n ch') \<Longrightarrow> ch = ch'"
  shows "notifier_ok n"
  using assms unfolding notifier_ok_def by blast

lemma notifier_okD:
  assumes "notifier_ok n"
  shows "is_dict (n_waiters n)" "map_of (n_waiters n) ch \<noteq> Some []"
    "n_reader n \<noteq> None \<longleftrightarrow> n_waiters n \<noteq> []"
    "watches n ch \<noteq> [] \<Longrightarrow> \<exists>cs. n_pubsub n = Some cs \<and> ch \<in> set cs"
    "e \<in> set (watches n ch) \<Longrightarrow> e < n_fresh n"
    "e \<in> set (watches n ch) \<Longrightarrow> e \<in> set (watches n ch') \<Longrightarrow> ch = ch'"
  using assms unfolding notifier_ok_def by blast+

lemma watches_frame [simp]:
  "watches (n\<lparr>n_pubsub := cs\<rparr>) = watches n" "watches (n\<lparr>n_reader := r\<rparr>) = watches n"
  "watches (n\<lparr>n_set := es\<rparr>) = watches n" "watches (n\<lparr>n_fresh := k\<rparr>) = watches n"
  "watches (start_reader n) = watches n"
  by (simp_all add: watches_def fun_eq_iff start_reader_def)

lemma waiters_Nil: "n_waiters n = [] \<Longrightarrow> watches n ch = []"
  by (simp add: watches_def)

lemma watches_Nil: "notifier_ok n \<Longrightarrow> watches n ch = [] \<longleftrightarrow> map_of (n_waiters n) ch = None"
  using notifier_okD(2) [of n ch] by (auto simp: watches_def split: option.splits)

lemma map_of_delete: "map_of (AList.delete k d) = (map_of d)(k := None)"
  by (rule delete_conv')

lemma forget_fields [simp]:
  "n_pubsub (notifier_forget ch e n) = n_pubsub n" "n_reader (notifier_forget ch e n) = n_reader n"
  "n_fresh (notifier_forget ch e n) = n_fresh n" "n_set (notifier_forget ch e n) = n_set n"
  by (simp_all add: notifier_forget_def Let_def split: option.splits)

lemma forget_watches:
  assumes "is_dict (n_waiters n)" "\<And>c. map_of (n_waiters n) c \<noteq> Some []"
  shows "watches (notifier_forget ch e n) c = (if c = ch then removeAll e (watches n c) else watches n c)"
    "is_dict (n_waiters (notifier_forget ch e n))" "map_of (n_waiters (notifier_forget ch e n)) c \<noteq> Some []"
proof -
  have d: "is_dict (AList.delete ch (n_waiters n))"
    using assms(1) by (simp add: is_dict_def distinct_delete)
  show "watches (notifier_forget ch e n) c = (if c = ch then removeAll e (watches n c) else watches n c)"
    by (auto simp: notifier_forget_def watches_def Let_def map_of_delete split: option.splits)
  show "is_dict (n_waiters (notifier_forget ch e n))"
    using assms(1) d by (auto simp: notifier_forget_def Let_def split: option.splits)
  show "map_of (n_waiters (notifier_forget ch e n)) c \<noteq> Some []"
    using assms(2) [of c] by (auto simp: notifier_forget_def Let_def map_of_delete split: option.splits)
qed

lemma forget_last:
  assumes "notifier_ok n" "map_of (n_waiters (notifier_forget ch e n)) ch = None" "c \<noteq> ch"
  shows "watches (notifier_forget ch e n) c = watches n c"
  using forget_watches(1) [OF notifier_okD(1,2) [OF assms(1)]] assms(3) by simp

lemma join_ok:
  assumes "notifier_ok n"
  shows "notifier_ok (snd (notifier_join ch r n))"
proof -
  note D = notifier_okD [OF assms]
  define e where "e = n_fresh n"
  define n2 where "n2 = n\<lparr>n_fresh := e + 1, n_pubsub := Some (case n_pubsub n of None \<Rightarrow> [] | Some cs \<Rightarrow> cs),
    n_waiters := AList.update ch (watches n ch @ [e]) (n_waiters n)\<rparr>"
  have w2: "watches n2 c = (if c = ch then watches n ch @ [e] else watches n c)" for c
    by (simp add: n2_def watches_def)
  have dict2: "is_dict (n_waiters n2)" "map_of (n_waiters n2) c \<noteq> Some []" for c
    using D(1) D(2) [of c] by (auto simp: n2_def)
  have e_new: "e \<notin> set (watches n c)" for c using D(5) [of e c] by (auto simp: e_def)
  have join: "notifier_join ch r n =
      (if watches n ch = []
       then case r of Inl x \<Rightarrow> (Inl x, notifier_forget ch e n2)
            | Inr _ \<Rightarrow> (Inr e, start_reader (n2\<lparr>n_pubsub := map_option (\<lambda>cs. ch # cs) (n_pubsub n2)\<rparr>))
       else (Inr e, start_reader n2))"
    by (cases r; cases "map_of (n_waiters n) ch") (simp_all add: notifier_join_def Let_def n2_def e_def watches_def)
  have subs: "\<exists>cs. n_pubsub n2 = Some cs \<and> c \<in> set cs" if "watches n c \<noteq> []" for c
    using D(4) [OF that] by (auto simp: n2_def)
  have bound: "k < n_fresh n2" if "k \<in> set (watches n2 c)" for k c
  proof -
    have "k = e \<or> k < n_fresh n" using that D(5) [of k c] by (auto simp: w2 split: if_splits)
    then show ?thesis by (auto simp: n2_def e_def)
  qed
  have once: "c = c'" if "k \<in> set (watches n2 c)" "k \<in> set (watches n2 c')" for k c c'
    using that D(6) [of k] e_new by (auto simp: w2 split: if_splits)
  have joined: "notifier_ok (start_reader n3)"
    if n3: "n_waiters n3 = n_waiters n2" "n_fresh n3 = n_fresh n2" "n_reader n3 = n_reader n2"
      "\<And>c. watches n2 c \<noteq> [] \<Longrightarrow> \<exists>cs. n_pubsub n3 = Some cs \<and> c \<in> set cs" for n3
  proof -
    have w3: "watches n3 = watches n2" using n3(1) by (simp add: watches_def fun_eq_iff)
    have sel: "n_waiters (start_reader n3) = n_waiters n3" "n_fresh (start_reader n3) = n_fresh n3"
      "n_pubsub (start_reader n3) = n_pubsub n3" "n_reader (start_reader n3) \<noteq> None" by (simp_all add: start_reader_def)
    have "n_waiters n2 \<noteq> []" using dict2 by (simp add: n2_def)
    then show ?thesis
      using sel(4) dict2 n3(4) bound once
      by (intro notifier_okI) (simp_all only: sel(1-3) n3(1,2) w3 watches_frame simp_thms)
  qed
  show ?thesis
  proof (cases "watches n ch = []")
    case False
    then have "\<exists>cs. n_pubsub n2 = Some cs \<and> c \<in> set cs" if "watches n2 c \<noteq> []" for c
      using that subs [of c] subs [OF False] by (auto simp: w2 split: if_splits)
    then show ?thesis using False joined [of n2] by (simp add: join)
  next
    case True
    show ?thesis
    proof (cases r)
      case (Inr u)
      obtain cs where cs: "n_pubsub n2 = Some cs" by (simp add: n2_def)
      have "\<exists>cs. map_option (\<lambda>cs. ch # cs) (n_pubsub n2) = Some cs \<and> c \<in> set cs" if "watches n2 c \<noteq> []" for c
        using that subs [of c] by (cases "c = ch") (auto simp: w2 cs)
      then have "notifier_ok (start_reader (n2\<lparr>n_pubsub := map_option (\<lambda>cs. ch # cs) (n_pubsub n2)\<rparr>))"
        by (intro joined) simp_all
      then show ?thesis unfolding join using True Inr by simp
    next
      case (Inl x)
      let ?f = "notifier_forget ch e n2"
      note F = forget_watches [OF dict2, of ch e]
      have w: "watches ?f c = watches n c" for c using F(1) [of c] True w2 by auto
      have "map_of (n_waiters n) ch = None" using True watches_Nil [OF assms] by simp
      then have "map_of (n_waiters ?f) = map_of (n_waiters n)"
        using True by (auto simp: notifier_forget_def n2_def map_of_delete fun_eq_iff)
      then have "n_waiters ?f = [] \<longleftrightarrow> n_waiters n = []" by (metis map_of_eq_empty_iff)
      moreover have "n_reader n2 = n_reader n" "n_fresh n2 = Suc (n_fresh n)" by (simp_all add: n2_def e_def)
      moreover have "k < Suc (n_fresh n)" if "k \<in> set (watches n c)" for k c using D(5) [OF that] by simp
      ultimately have "notifier_ok ?f"
        using F(2,3) D(3,6) subs by (intro notifier_okI) (simp_all only: w forget_fields simp_thms)
      then show ?thesis unfolding join using True Inl by simp
    qed
  qed
qed

lemma leave_ok:
  assumes "notifier_ok n" "e \<in> set (watches n ch)"
  shows "notifier_ok (notifier_leave ch e r n)"
proof -
  note D = notifier_okD [OF assms(1)]
  let ?f = "notifier_forget ch e n"
  note F = forget_watches [OF D(1,2), of ch e]
  have sub: "set (watches ?f c) \<subseteq> set (watches n c)" for c using F(1) [of c] by auto
  have ne: "n_waiters n \<noteq> []" using assms(2) waiters_Nil by fastforce
  have base: "notifier_ok n'" if "n_waiters n' = n_waiters ?f" "n_fresh n' = n_fresh n" "n_reader n' = n_reader n"
    "n_waiters ?f \<noteq> []" "\<And>c. watches ?f c \<noteq> [] \<Longrightarrow> \<exists>cs. n_pubsub n' = Some cs \<and> c \<in> set cs" for n'
  proof -
    have w: "watches n' = watches ?f" using that(1) by (simp add: watches_def fun_eq_iff)
    have b: "k < n_fresh n" if "k \<in> set (watches ?f c)" for k c using D(5) sub that by blast
    have "c = c'" if "k \<in> set (watches ?f c)" "k \<in> set (watches ?f c')" for k c c' using D(6) sub that by blast
    with that F(2,3) D(3) ne b show ?thesis by (intro notifier_okI) (simp_all add: w)
  qed
  have pub: "\<exists>cs. n_pubsub n = Some cs \<and> c \<in> set cs" if "watches ?f c \<noteq> []" for c
  proof -
    have "watches n c \<noteq> []" using sub [of c] that by (cases "watches n c") auto
    then show ?thesis by (rule D(4))
  qed
  consider (more) "map_of (n_waiters ?f) ch \<noteq> None" | (other) "map_of (n_waiters ?f) ch = None" "n_waiters ?f \<noteq> []"
    | (last) "n_waiters ?f = []" by auto
  then show ?thesis
  proof cases
    case more
    then have "n_waiters ?f \<noteq> []" by auto
    with more base [of ?f] pub show ?thesis by (simp add: notifier_leave_def Let_def)
  next
    case other
    have "\<exists>cs. map_option (removeAll ch) (n_pubsub n) = Some cs \<and> c \<in> set cs" if "watches ?f c \<noteq> []" for c
      using pub [OF that] that other(1) by (cases "c = ch") (auto simp: watches_def)
    with other base [of ?f] base [of "?f\<lparr>n_pubsub := map_option (removeAll ch) (n_pubsub n)\<rparr>"] pub
    show ?thesis by (simp add: notifier_leave_def Let_def)
  next
    case last
    then have "notifier_ok (?f\<lparr>n_reader := None, n_pubsub := None\<rparr>)"
      by (intro notifier_okI) (simp_all add: waiters_Nil is_dict_def)
    with last show ?thesis by (simp add: notifier_leave_def Let_def)
  qed
qed

lemma notifier_ok_step: "notifier_step n n' \<Longrightarrow> notifier_ok n \<Longrightarrow> notifier_ok n'"
proof (induction rule: notifier_step.induct)
  case (ns_read n ch)
  then show ?case by (auto simp: notifier_read_def notifier_ok_def)
next
  case (ns_fail n)
  then show ?case by (auto simp: reader_fails_def notifier_ok_def)
next
  case (ns_wait n e)
  then show ?case by (auto simp: wait_for_message_def notifier_ok_def)
qed (use join_ok leave_ok in auto)

lemma notifier_ok_init: "notifier_ok Notifier_init"
  by (simp add: notifier_ok_def Notifier_init_def watches_def is_dict_def)

lemma notifier_ok_run: "notifier_step\<^sup>*\<^sup>* Notifier_init n \<Longrightarrow> notifier_ok n"
  by (induction rule: rtranclp_induct) (use notifier_ok_init notifier_ok_step in auto)

section \<open>Properties\<close>

text \<open>(C29) In every run of joins, leaves, messages and connection failures, with subscriptions and
  unsubscriptions that may fail: the reader task exists exactly while somebody waits, every
  channel somebody waits on is subscribed on an open connection, no channel is kept without a
  waiter, and no event is shared between channels.\<close>

theorem notifier_serves_its_waiters:
  assumes "notifier_step\<^sup>*\<^sup>* Notifier_init n"
  shows "(n_reader n \<noteq> None \<longleftrightarrow> n_waiters n \<noteq> []) \<and>
    (\<forall>ch. watches n ch \<noteq> [] \<longrightarrow> (\<exists>cs. n_pubsub n = Some cs \<and> ch \<in> set cs)) \<and>
    (\<forall>ch. map_of (n_waiters n) ch \<noteq> Some []) \<and>
    (\<forall>ch ch' e. e \<in> set (watches n ch) \<longrightarrow> e \<in> set (watches n ch') \<longrightarrow> ch = ch')"
  using notifier_ok_run [OF assms] unfolding notifier_ok_def by blast

text \<open>(C30) No wake-up is lost between subscribing and waiting: while the reader lives, a message on a
  channel sets the events of exactly the waiters that have joined it, and a waiter that then waits
  is woken at once.\<close>

theorem message_wakes_watchers:
  assumes "notifier_step\<^sup>*\<^sup>* Notifier_init n" "n_reader n \<noteq> Some ReaderStopped"
  shows "set (n_set (notifier_read ch n)) = set (n_set n) \<union> set (watches n ch) \<and>
    (\<forall>e \<in> set (watches n ch). fst (wait_for_message e (notifier_read ch n)))"
proof (cases "watches n ch = []")
  case True
  then show ?thesis by (auto simp: notifier_read_def watches_def split: option.splits)
next
  case False
  note D = notifier_okD [OF notifier_ok_run [OF assms(1)]]
  have "n_waiters n \<noteq> []" using False waiters_Nil by blast
  then have "n_reader n = Some ReaderAlive" using D(3) assms(2) by (cases "n_reader n"; cases "the (n_reader n)") auto
  with D(4) [OF False] have "notifier_read ch n = n\<lparr>n_set := n_set n @ watches n ch\<rparr>"
    by (simp add: notifier_read_def watches_def)
  then show ?thesis by (simp add: wait_for_message_def)
qed

text \<open>(C40) A reader that stopped on a broken connection is not replaced while anybody waits: a later
  \<open>join\<close> finds the finished task and keeps it, so messages wake nobody and every waiter falls back to
  polling, until the last one has left; the join after that starts a new reader.\<close>

theorem stopped_reader_is_not_replaced:
  assumes "n_reader n = Some ReaderStopped" "notifier_join ch subscribed n = (r, n')"
  shows "n_reader n' = Some ReaderStopped \<and> (\<forall>c. notifier_read c n' = n') \<and>
    (n_waiters (notifier_forget c e n') = [] \<longrightarrow>
       n_reader (snd (notifier_join c2 (Inr ()) (notifier_leave c e u n'))) = Some ReaderAlive)"
proof -
  have 1: "n_reader n' = Some ReaderStopped"
    using assms by (auto simp: notifier_join_def Let_def start_reader_def split: if_splits sum.splits)
  have "n_reader (notifier_leave c e u n') = None" if "n_waiters (notifier_forget c e n') = []"
    using that by (simp add: notifier_leave_def Let_def)
  with 1 show ?thesis by (auto simp: notifier_read_def notifier_join_def Let_def start_reader_def)
qed

text \<open>A first subscription that fails leaves the connection open with nobody waiting and nobody
  reading.\<close>

lemma failed_subscribe_keeps_connection:
  "\<exists>n'. notifier_join ch (Inl e) Notifier_init = (Inl e, n') \<and> n_pubsub n' = Some [] \<and> n_waiters n' = [] \<and>
     n_reader n' = None"
  by (simp add: notifier_join_def Notifier_init_def notifier_forget_def)

text \<open>Two waiters on one channel.\<close>

definition demo_notifier :: notifier where
  "demo_notifier = snd (notifier_join ''d'' (Inr ()) (snd (notifier_join ''d'' (Inr ()) Notifier_init)))"

lemma demo_notifier_run: "notifier_step\<^sup>*\<^sup>* Notifier_init demo_notifier"
proof -
  define n1 where "n1 = snd (notifier_join ''d'' (Inr ()) Notifier_init)"
  have "notifier_step Notifier_init n1" unfolding n1_def by (rule ns_join)
  moreover have "notifier_step n1 demo_notifier" unfolding demo_notifier_def n1_def by (rule ns_join)
  ultimately show ?thesis by (meson converse_rtranclp_into_rtranclp rtranclp.rtrancl_refl)
qed

theorem notifier_serves_its_waiters_witness:
  "n_reader demo_notifier \<noteq> None \<and> (\<exists>cs. n_pubsub demo_notifier = Some cs \<and> ''d'' \<in> set cs)"
proof -
  have "n_waiters demo_notifier \<noteq> []" "watches demo_notifier ''d'' \<noteq> []" by (code_simp, code_simp)
  with notifier_serves_its_waiters [OF demo_notifier_run] show ?thesis by blast
qed

theorem message_wakes_watchers_witness:
  "fst (wait_for_message 0 (notifier_read ''d'' demo_notifier)) \<and> fst (wait_for_message 1 (notifier_read ''d'' demo_notifier))"
proof -
  have "n_reader demo_notifier \<noteq> Some ReaderStopped" "set (watches demo_notifier ''d'') = {0, 1}" by (code_simp, code_simp)
  with message_wakes_watchers [OF demo_notifier_run, of "''d''"] show ?thesis by auto
qed

theorem stopped_reader_is_not_replaced_witness:
  "n_reader (snd (notifier_join ''x'' (Inr ()) (reader_fails demo_notifier))) = Some ReaderStopped"
proof -
  have s: "n_reader (reader_fails demo_notifier) = Some ReaderStopped" by code_simp
  obtain r n' where j: "notifier_join ''x'' (Inr ()) (reader_fails demo_notifier) = (r, n')" by force
  from stopped_reader_is_not_replaced [OF s j] j show ?thesis by simp
qed

end
