(* ===== verification/Recovery.thy ===== *)
theory Recovery
  imports Stores Pool_Leases
begin

text \<open>
  What the lease protocol gives the jobs of a crashed worker process: the reaper of a surviving
  peer, its worker loops and the handle that waits, composed over one Redis. The programs
  \<open>worker_crash_job_reclaimed.py\<close> and \<open>cancel_crosses_processes.py\<close> show the two stories.
\<close>

section \<open>Reclaimed jobs are served\<close>

text \<open>The records of ids a reap puts back still read as jobs that wait.\<close>

context codec
begin

lemma waits_requeued:
  assumes "waits_in S fits v i" "v i = Some m" "v' i = Some (requeued m)"
  shows "waits_in S fits v' i"
proof -
  obtain j where j: "jid j = i" "v i = job_view S j" "fits_job fits j" "\<not> terminal (status j)" "error j = None"
    "0 \<le> attempts j" "attempts j < max_attempts"
    using assms(1) by (auto simp: waits_in_def)
  have m: "job_view S j = Some m" using j(2) assms(2) by simp
  have st: "status j \<noteq> COMPLETED" using j(4) by (auto simp: terminal_def)
  show ?thesis
  proof (cases "status_in m RUNNING")
    case True
    have "job_view S (j\<lparr>status := QUEUED\<rparr>) = Some (requeued m)"
      using job_view_update(1) [OF m st, of QUEUED] True by (simp add: requeued_def)
    with j st assms(3) show ?thesis unfolding waits_in_def
      by (intro exI [of _ "j\<lparr>status := QUEUED\<rparr>"]) (auto simp: fits_job_def terminal_def)
  next
    case False
    then have "v' i = v i" using assms(2,3) by (simp add: requeued_def)
    with assms(1) show ?thesis by (simp add: waits_in_def)
  qed
qed

end

context redis_client
begin

lemma reap_then_serve:
  assumes "sim R s l" "lease_ok l" "\<And>i. active_job l i \<Longrightarrow> waits_in S fits (l_rec l) i"
  shows "\<exists>ids s1. rb_reap R c s = Some (Inr (int (length ids)), s1) \<and> distinct ids \<and>
    set ids = {i. \<exists>w. l_expired (worker_ttl c) l w \<and> i \<in> set (l_leases l w)} \<and>
    rb_waiting R s1 = l_queue l @ ids \<and>
    (\<forall>races. length races = length (l_queue l @ ids) \<longrightarrow> (\<forall>race \<in> set races. calm S race) \<longrightarrow>
       (\<exists>s2. worker_loop S (RedisBackend R c) reg races s1 = (Continue, s2) \<and> rb_waiting R s2 = [] \<and>
          (\<forall>i \<in> set (l_queue l @ ids). finished_in (rb_records R s2) i)))"
proof -
  note D = lease_okD [OF assms(2)]
  obtain ids s1 where r: "rb_reap R c s = Some (Inr (int (length ids)), s1)" "rb_valid R s1"
    "l_queue (lease_abs (r_view R s1)) = l_queue l @ ids" "distinct ids"
    "set ids = {i. \<exists>w. l_expired (worker_ttl c) l w \<and> i \<in> set (l_leases l w)}"
    "l_rec (lease_abs (r_view R s1)) = (\<lambda>i. if i \<in> set ids then map_option requeued (l_rec l i) else l_rec l i)"
    using reap_effect [OF assms(1,2), of c] unfolding Let_def by blast
  have w: "rb_waiting R s1 = (l_queue l @ ids) @ []" using r(3) by (simp only: rb_waiting_def append_Nil2)
  have v: "rb_records R s1 = (\<lambda>i. if i \<in> set ids then map_option requeued (l_rec l i) else l_rec l i)"
    using r(6) by (simp only: rb_records_def)
  have dq: "distinct (l_queue l @ ids)" using D(2,4) r(4,5) by auto
  have ready: "waits_in S fits (rb_records R s1) i" if "i \<in> set (l_queue l @ ids)" for i
  proof -
    have "placed l i" using that r(5) by (auto simp: placed_def)
    then have a: "active_job l i" using D(1) by simp
    then obtain m where m: "l_rec l i = Some m" by (auto simp: active_job_iff)
    show ?thesis
    proof (cases "i \<in> set ids")
      case True
      with m v have "rb_records R s1 i = Some (requeued m)" by simp
      with waits_requeued [OF assms(3) [OF a] m] show ?thesis by blast
    next
      case False
      with v have "rb_records R s1 i = l_rec l i" by simp
      with assms(3) [OF a] show ?thesis by (simp add: waits_in_def)
    qed
  qed
  have serve: "\<exists>s2. worker_loop S (RedisBackend R c) reg races s1 = (Continue, s2) \<and> rb_waiting R s2 = [] \<and>
          (\<forall>i \<in> set (l_queue l @ ids). finished_in (rb_records R s2) i)"
    if "length races = length (l_queue l @ ids)" "\<forall>race \<in> set races. calm S race" for races
    using loop_drains [OF r(2) w dq _ that, of reg] ready by blast
  show ?thesis
    by (rule exI [of _ ids], rule exI [of _ s1]) (use r(1,4,5) w serve in simp)
qed

text \<open>One job, in detail: redelivered with its attempt counted, and its result handed out.\<close>

lemma reap_then_result:
  assumes "sim R s l" "lease_ok l" "l_queue l = []"
    "{i. \<exists>w. l_expired (worker_ttl c) l w \<and> i \<in> set (l_leases l w)} = {jid j}"
    "l_rec l (jid j) = job_view S j" "fits_job fits j" "status j = RUNNING" "error j = None" "0 \<le> attempts j"
    "attempts j < max_attempts" "\<not> request_cancel j" "map_of reg (task_name j) \<noteq> None" "fits v"
    "h_job_id h = jid j" "h_job h = None"
  shows "\<exists>s1 s2 h' s3. rb_reap R c s = Some (Inr 1, s1) \<and>
    worker_iteration S (RedisBackend R c) reg (Ends (JobDone (Inr v))) s1 = (Continue, s2) \<and>
    rb_records R s2 (jid j) = job_view S ((norm_job norm j)\<lparr>attempts := attempts j + 1, status := COMPLETED, result := v\<rparr>) \<and>
    handle_result S (RedisBackend R c) h s2 = (Ready (Inr (norm v)), h', s3) \<and>
    rb_records R s3 (jid j) = None \<and> rb_waiting R s3 = []"
proof -
  obtain m where m: "job_view S j = Some m" using job_view_total [OF assms(6)] by blast
  obtain ids s1 where r: "rb_reap R c s = Some (Inr (int (length ids)), s1)" "rb_valid R s1"
    "l_queue (lease_abs (r_view R s1)) = l_queue l @ ids" "distinct ids"
    "set ids = {i. \<exists>w. l_expired (worker_ttl c) l w \<and> i \<in> set (l_leases l w)}"
    "l_rec (lease_abs (r_view R s1)) = (\<lambda>i. if i \<in> set ids then map_option requeued (l_rec l i) else l_rec l i)"
    using reap_effect [OF assms(1,2), of c] unfolding Let_def by blast
  have "set ids = {jid j}" using r(5) unfolding assms(4) .
  then have ids: "ids = [jid j]" using r(4) by (cases ids; cases "tl ids") auto
  let ?q = "j\<lparr>status := QUEUED\<rparr>"
  let ?c = "?q\<lparr>status := RUNNING, attempts := attempts ?q + 1\<rparr>"
  let ?d = "(norm_job norm ?c)\<lparr>result := v, status := COMPLETED\<rparr>"
  have "status_in m RUNNING" using job_view_fields(1) [OF m, of RUNNING] assms(7) by simp
  then have "job_view S ?q = Some (requeued m)"
    using job_view_update(1) [OF m, of QUEUED] assms(7) by (simp add: requeued_def)
  then have q: "rb_records R s1 (jid ?q) = job_view S ?q" "job_view S ?q \<noteq> None"
    using r(6) m assms(5) by (simp_all add: rb_records_def ids)
  have w: "rb_waiting R s1 = jid ?q # []" using r(3) assms(3) by (simp add: rb_waiting_def ids)
  have f: "fits_job fits ?q" "fits_job fits ?c" using assms(6,7) by (simp_all add: fits_job_def)
  have fin: "final_job S reg (norm_job norm ?c) (Ends (JobDone (Inr v))) = Some ?d"
    "\<not> stops_loop S reg (norm_job norm ?c) (Ends (JobDone (Inr v)))"
    using dumps_fits [OF assms(13)] assms(11,12)
    by (auto simp: final_job_def settled_job_def body_outcome_def stops_loop_def norm_job_def)
  obtain s2 where s2: "worker_iteration S (RedisBackend R c) reg (Ends (JobDone (Inr v))) s1 = (Continue, s2)"
    "rb_valid R s2" "rb_waiting R s2 = []" "rb_records R s2 = (rb_records R s1)(jid j := job_view S ?d)"
    using iteration_spec [OF r(2) w q f(1) _ _ _ _ refl, of reg "Ends (JobDone (Inr v))"] fin assms(8-10)
    by (auto simp: terminal_def)
  have d: "fits_job fits ?d" using fits_norm_job [OF f(2)] assms(13) by (simp add: fits_job_def)
  then have "job_view S ?d \<noteq> None" using job_view_total by auto
  then obtain h' s3 where "handle_result S (RedisBackend R c) h s2 = (Ready (job_outcome (jid j) (norm_job norm ?d)), h', s3)"
    "rb_records R s3 = (rb_records R s2)(jid j := None)" "rb_waiting R s3 = []"
    using result_finished [OF s2(2) d, of "jid j" h] s2(3,4) assms(14,15) by (auto simp: terminal_def)
  moreover have "job_outcome (jid j) (norm_job norm ?d) = Inr (norm v)" by (simp add: job_outcome_def norm_job_def)
  moreover have "?d = (norm_job norm j)\<lparr>attempts := attempts j + 1, status := COMPLETED, result := v\<rparr>"
    by (simp add: norm_job_def)
  ultimately show ?thesis using r(1) s2 by (intro exI conjI) (simp add: ids, assumption, simp_all)
qed

text \<open>A cancel flag set on a running record without a message, or by \<open>request_cancel\<close>: the stored
  state is the same, and the watcher's next reading of the record returns.\<close>

lemma silent_flag_reading:
  assumes "sim R s l" "runs_in S (l_rec l) j" "\<not> request_cancel j"
  shows "rb_wait_cancel R (jid j) s = Pending"
    "sim R (r_HSET R (job_key (jid j)) [(''request_cancel'', ''1'')] s) (l_cancel (jid j) l)"
    "sim R (snd (rb_request_cancel R (jid j) s)) (l_cancel (jid j) l)"
    "rb_wait_cancel R (jid j) (r_HSET R (job_key (jid j)) [(''request_cancel'', ''1'')] s) = Ready (Inr ())"
    "rb_wait_cancel R (jid j) (snd (rb_request_cancel R (jid j) s)) = Ready (Inr ())"
    "runs_in S (l_rec (l_cancel (jid j) l)) (j\<lparr>request_cancel := True\<rparr>)"
proof -
  obtain m where m: "l_rec l (jid j) = Some m" "job_view S j = Some m" using assms(2) by (auto simp: runs_in_def)
  have j: "status j = RUNNING" using assms(2) by (simp add: runs_in_def)
  have act: "\<not> terminal_in m" using job_view_fields(4) [OF m(2)] j by (simp add: terminal_def)
  have no: "m ''request_cancel'' = Some (Str ''0'')"
    using job_view_fields(3) [OF m(2)] str_of_int_0_1 assms(3) by simp
  show "rb_wait_cancel R (jid j) s = Pending" using wait_cancel_refines(2) [OF assms(1) m(1)] no by simp
  have c: "l_cancel (jid j) l = l_put (jid j) (m(''request_cancel'' \<mapsto> Str ''1'')) l"
    using m(1) act by (simp add: l_cancel_def flagged_def)
  show h: "sim R (r_HSET R (job_key (jid j)) [(''request_cancel'', ''1'')] s) (l_cancel (jid j) l)"
    unfolding c using sim_storable [OF assms(1) m(1)] storable_set_cancel [of m True]
    by (intro sim_HSET_field [OF assms(1) m(1)]) simp_all
  show p: "sim R (snd (rb_request_cancel R (jid j) s)) (l_cancel (jid j) l)"
    using cancel_script_refines [OF assms(1)] by (simp add: rb_request_cancel_def split: prod.splits) (metis snd_conv)
  have r: "l_rec (l_cancel (jid j) l) (jid j) = Some (m(''request_cancel'' \<mapsto> Str ''1''))" by (simp add: c l_put_def)
  show "rb_wait_cancel R (jid j) (r_HSET R (job_key (jid j)) [(''request_cancel'', ''1'')] s) = Ready (Inr ())"
    "rb_wait_cancel R (jid j) (snd (rb_request_cancel R (jid j) s)) = Ready (Inr ())"
    using wait_cancel_refines(2) [OF h r] wait_cancel_refines(2) [OF p r] by simp_all
  have "job_view S (j\<lparr>request_cancel := True\<rparr>) = Some (m(''request_cancel'' \<mapsto> Str ''1''))"
    using job_view_update(3) [OF m(2), of True] str_of_int_0_1 j by simp
  with r assms(2) show "runs_in S (l_rec (l_cancel (jid j) l)) (j\<lparr>request_cancel := True\<rparr>)"
    by (simp add: runs_in_def)
qed

text \<open>The worker that holds the job stores it as cancelled and acks its lease.\<close>

lemma watcher_cancels:
  assumes "sim R s l" "runs_in S (l_rec l) j0" "same_job j j0" "fits_job fits j" "job_view S j = Some (map_of r)"
    "\<not> request_cancel j" "map_of reg (task_name j) \<noteq> None" "h_job_id h = jid j" "h_job h = None"
  shows "\<exists>s2 h' s3. worker_serve S (RedisBackend R c) reg r (Ends (CancelSeen u)) s = (Continue, s2) \<and>
    l_leases (lease_abs (r_view R s2)) = (l_leases l)(instance_id c := remove1 (jid j) (l_leases l (instance_id c))) \<and>
    rb_waiting R s2 = l_queue l \<and>
    handle_result S (RedisBackend R c) h s2 =
      (Ready (Inl (JobCancelled (''job '' @ py_repr (jid j) @ '' was cancelled''))), h', s3) \<and>
    rb_valid R s2 \<and> rb_records R s2 (jid j) = job_view S ((norm_job norm j)\<lparr>status := CANCELLED\<rparr>) \<and>
    rb_valid R s3 \<and> rb_records R s3 (jid j) = None"
proof -
  let ?n = "norm_job norm j" and ?d = "(norm_job norm j)\<lparr>status := CANCELLED\<rparr>"
  note obs = sim_observed [OF assms(1)]
  have v: "rb_valid R s" and rec: "rb_records R s = l_rec l" and wq: "rb_waiting R s = l_queue l" using obs by simp_all
  obtain m where m: "l_rec l (jid j0) = Some m" using assms(2) by (auto simp: runs_in_def)
  have i: "jid j0 = jid j" "jid ?d = jid j" using assms(3) by (simp_all add: same_job_def norm_job_def)
  have fd: "fits_job fits ?d" using fits_norm_job [OF assms(4)] by (simp add: fits_job_def)
  obtain r' where r': "to_record S ?d = Inr r'" using to_record_total [OF fd] by blast
  have "0 \<le> attempts ?d" using assms(2,3) by (simp add: runs_in_def same_job_def norm_job_def)
  from finish_refines [OF assms(1) m to_record_is_dict [OF r'] to_record_storable [OF r' this] ttl_positive]
  obtain s2 where s2: "rb_save R c (jid j0) r' True s = (Inr (), s2)"
    "sim R s2 (l_finish (instance_id c) (jid j0) (map_of r') (result_ttl c) l)" by blast
  have save: "worker_save S (RedisBackend R c) ?d s = (Inr (), s2)"
    using s2(1) i by (simp add: worker_save_def r' RedisBackend_def)
  have n: "\<not> request_cancel ?n" "task_name ?n = task_name j" using assms(6) by (simp_all add: norm_job_def)
  obtain t where t: "map_of reg (task_name ?n) = Some t" using assms(7) n(2) by auto
  have srv: "worker_serve S (RedisBackend R c) reg r (Ends (CancelSeen u)) s = (Continue, s2)"
    using n t save
    by (simp add: worker_serve_def worker_process_def read_back [OF assms(4,5)] worker_run_def worker_settle_def
        worker_try_def worker_except_def)
  have lf: "l_leases (lease_abs (r_view R s2)) = (l_leases l)(instance_id c := remove1 (jid j) (l_leases l (instance_id c)))"
    "l_queue (lease_abs (r_view R s2)) = l_queue l"
    unfolding sim_abs [OF s2(2)] using m i by (simp_all add: l_finish_def l_expire_def l_drop_lease_def l_put_def)
  have same: "same_job ?n j0" using assms(3) by (simp add: same_job_def norm_job_def)
  from save_cancelled [OF v _ same fits_norm_job [OF assms(4)]] assms(2) rec
  obtain s2' where "worker_save S (RedisBackend R c) ?d s = (Inr (), s2')" "rb_valid R s2'" "rb_waiting R s2' = rb_waiting R s"
    "rb_records R s2' = (rb_records R s)(jid j0 := job_view S ?d)" by auto
  with save have o: "rb_valid R s2" "rb_records R s2 (jid j) = job_view S ?d" "rb_waiting R s2 = l_queue l" using i wq by auto
  have "job_view S ?d \<noteq> None" using job_view_total [OF fd] by auto
  with o(2) result_finished [OF o(1) fd, of "jid j" h] assms(8,9) obtain h' s3 where
    "handle_result S (RedisBackend R c) h s2 = (Ready (job_outcome (jid j) (norm_job norm ?d)), h', s3)"
    "rb_valid R s3" "rb_records R s3 (jid j) = None"
    by (auto simp: terminal_def)
  moreover have "job_outcome (jid j) (norm_job norm ?d) = Inl (JobCancelled (''job '' @ py_repr (jid j) @ '' was cancelled''))"
    by (simp add: job_outcome_def norm_job_def)
  ultimately show ?thesis using srv lf o by (intro exI conjI) (assumption, simp_all only:)
qed

end

section \<open>Properties\<close>

text \<open>A registered worker claimed the demo job and died; thirty seconds passed.\<close>

definition demo_job_record :: hrecord where
  "demo_job_record = (case to_record JSONSerializer demo_job of Inl e \<Rightarrow> [] | Inr r \<Rightarrow> r)"

definition mini_claim :: "string \<Rightarrow> hrecord \<Rightarrow> rstate" where
  "mini_claim i r = snd (rb_mark mini_redis i (snd (rb_lease mini_redis mini_config
     (snd (rb_heartbeat mini_redis mini_config (snd (rb_enqueue mini_redis mini_config i r mini_empty)))))))"

definition mini_claimed :: rstate where
  "mini_claimed = mini_claim ''f0'' demo_job_record"

definition mini_crashed :: rstate where
  "mini_crashed = advance 130 (tidy mini_claimed)"

definition demo_claimed :: job where
  "demo_claimed = demo_job\<lparr>status := RUNNING, attempts := 1\<rparr>"

lemma demo_job_record_ok:
  "to_record JSONSerializer demo_job = Inr demo_job_record" "is_dict demo_job_record" "storable (map_of demo_job_record)"
proof -
  obtain r where r: "to_record JSONSerializer demo_job = Inr r"
    using json.to_record_total [OF demo_job_fits] by blast
  then show e: "to_record JSONSerializer demo_job = Inr demo_job_record" by (simp add: demo_job_record_def)
  show "is_dict demo_job_record" by (rule to_record_is_dict [OF e])
  show "storable (map_of demo_job_record)" by (rule to_record_storable [OF e]) (simp add: demo_job_def Job_init_def)
qed

lemma demo_claimed_view:
  "job_view JSONSerializer demo_claimed =
     Some ((map_of demo_job_record)(''status'' \<mapsto> Str (status_value RUNNING), ''attempts'' \<mapsto> Str (str_of_int 1)))"
  "fits_job json_fits demo_claimed" "jid demo_claimed = ''f0''" "status demo_claimed = RUNNING" "error demo_claimed = None"
  "attempts demo_claimed = 1" "\<not> request_cancel demo_claimed" "map_of demo_reg (task_name demo_claimed) \<noteq> None"
proof -
  have jv: "job_view JSONSerializer demo_job = Some (map_of demo_job_record)"
    using demo_job_record_ok(1) by (auto simp: job_view_Some)
  have st: "status demo_job = CREATED" by (simp add: demo_job_def Job_init_def)
  have v1: "job_view JSONSerializer (demo_job\<lparr>status := RUNNING\<rparr>) = Some (set_status RUNNING (map_of demo_job_record))"
    using job_view_update(1) [OF jv, of RUNNING] st by simp
  show "job_view JSONSerializer demo_claimed =
     Some ((map_of demo_job_record)(''status'' \<mapsto> Str (status_value RUNNING), ''attempts'' \<mapsto> Str (str_of_int 1)))"
    using job_view_update(2) [OF v1, of 1] by (simp add: demo_claimed_def)
  show "fits_job json_fits demo_claimed" using demo_job_fits by (simp add: demo_claimed_def fits_job_def)
qed (simp_all add: demo_claimed_def demo_job_def Job_init_def demo_task_def demo_reg_def)

lemma mini_claim_sim:
  assumes "is_dict r" "storable (map_of r)" "map_of r ''attempts'' = Some (Str (str_of_int 0))"
  shows "\<exists>l. sim mini_redis (mini_claim i r) l \<and>
    l_rec l = [i \<mapsto> (map_of r)(''status'' \<mapsto> Str (status_value RUNNING), ''attempts'' \<mapsto> Str (str_of_int 1))] \<and>
    l_queue l = [] \<and> l_leases l = (\<lambda>w. if w = ''w1'' then [i] else []) \<and> l_beats l = [''w1'' \<mapsto> 100] \<and>
    (\<forall>i. l_ttl l i = None) \<and> l_now l = 100"
  "cluster_run mini_redis (mini_claim i r)"
proof -
  define s1 where "s1 = snd (rb_enqueue mini_redis mini_config i r mini_empty)"
  define s2 where "s2 = snd (rb_heartbeat mini_redis mini_config s1)"
  define s3 where "s3 = snd (rb_lease mini_redis mini_config s2)"
  define l0 where "l0 = lease_abs (r_view mini_redis mini_empty)"
  have w: "instance_id mini_config = ''w1''" by (simp add: mini_config_def)
  have l0: "l_rec l0 = Map.empty" "l_queue l0 = []" "\<And>w. l_leases l0 w = []" "l_beats l0 = Map.empty" "\<And>i. l_ttl l0 i = None"
    "l_now l0 = 100"
    by (simp_all add: l0_def mini_redis_def tidy_def mini_empty_def fun_eq_iff rb_view_def hash_at_def list_at_def zset_at_def)
  have 0: "sim mini_redis mini_empty l0"
    unfolding l0_def using mini.cluster_invariant [OF rtranclp.rtrancl_refl mini_empty_keys] by blast
  let ?l1 = "l_enqueue i (map_of r) l0" and ?m = "set_status QUEUED (map_of r)"
  have 1: "sim mini_redis s1 ?l1"
    using mini.enqueue_refines [OF 0 assms(1,2), of mini_config "i"] by (auto simp: s1_def)
  have 2: "sim mini_redis s2 (l_beat ''w1'' ?l1)"
    using mini.heartbeat_refines [OF 1, of mini_config] by (auto simp: s2_def w)
  have 3: "sim mini_redis s3 (l_lease ''w1'' (l_beat ''w1'' ?l1))"
    using mini.lease_refines [OF 2, of mini_config] by (auto simp: s3_def w)
  have l: "l_rec (l_lease ''w1'' (l_beat ''w1'' ?l1)) i = Some ?m"
    "i \<in> set (l_leases (l_lease ''w1'' (l_beat ''w1'' ?l1)) ''w1'')"
    "l_beats (l_beat ''w1'' ?l1) ''w1'' \<noteq> None"
    by (simp_all add: l_lease_def l_beat_def l_enqueue_def l0)
  have "?m ''attempts'' = Some (Str (str_of_int 0))"
    using assms(3) by simp
  then have 4: "sim mini_redis (mini_claim i r) (l_mark i 1 (l_lease ''w1'' (l_beat ''w1'' ?l1)))"
    using mini.mark_refines [OF 3 l(1), of 0] by (auto simp: mini_claim_def s1_def s2_def s3_def max_attempts_def)
  have "cluster_step mini_redis mini_empty s1" unfolding s1_def using assms(1,2) by (rule cs_enqueue)
  moreover have "cluster_step mini_redis s1 s2" unfolding s2_def by (rule cs_heartbeat)
  moreover have "cluster_step mini_redis s2 s3"
    unfolding s3_def by (rule cs_lease) (use l(3) in \<open>simp add: registered_def sim_reads(4) [OF 2] w\<close>)
  moreover have "cluster_step mini_redis s3 (mini_claim i r)"
    unfolding mini_claim_def s1_def [symmetric] s2_def [symmetric] s3_def [symmetric]
    by (rule cs_mark [of _ mini_config]) (use l(2) in \<open>simp add: holds_lease_def sim_reads(3) [OF 3] w\<close>)
  ultimately show "cluster_run mini_redis (mini_claim i r)"
    unfolding cluster_run_def using mini_empty_keys by (meson converse_rtranclp_into_rtranclp rtranclp.rtrancl_refl)
  let ?l = "l_mark i 1 (l_lease ''w1'' (l_beat ''w1'' ?l1))"
  have "l_rec ?l = [i \<mapsto> ?m(''status'' \<mapsto> Str (status_value RUNNING), ''attempts'' \<mapsto> Str (str_of_int 1))]"
    "l_queue ?l = []" "l_leases ?l = (\<lambda>w. if w = ''w1'' then [i] else [])"
    "l_beats ?l = [''w1'' \<mapsto> 100]" "\<And>i. l_ttl ?l i = None" "l_now ?l = 100"
    using l0 by (auto simp: l_mark_def l_lease_def l_beat_def l_enqueue_def fun_eq_iff)
  with 4 show "\<exists>l. sim mini_redis (mini_claim i r) l \<and> l_rec l = [i \<mapsto> (map_of r)(''status'' \<mapsto> Str (status_value RUNNING), ''attempts'' \<mapsto> Str (str_of_int 1))] \<and>
    l_queue l = [] \<and> l_leases l = (\<lambda>w. if w = ''w1'' then [i] else []) \<and> l_beats l = [''w1'' \<mapsto> 100] \<and>
    (\<forall>i. l_ttl l i = None) \<and> l_now l = 100"
    by (intro exI [of _ ?l]) simp
qed

lemma mini_claimed_sim:
  "\<exists>l. sim mini_redis mini_claimed l \<and> l_rec l = [''f0'' \<mapsto> the (job_view JSONSerializer demo_claimed)] \<and>
    l_queue l = [] \<and> l_leases l = (\<lambda>w. if w = ''w1'' then [''f0''] else []) \<and> l_beats l = [''w1'' \<mapsto> 100] \<and>
    (\<forall>i. l_ttl l i = None) \<and> l_now l = 100"
  "cluster_run mini_redis mini_claimed"
proof -
  have "map_of demo_job_record ''attempts'' = Some (Str (str_of_int 0))"
    using demo_job_record_ok(1) by (auto elim: to_record_fields simp: demo_job_def Job_init_def)
  note c = mini_claim_sim [OF demo_job_record_ok(2,3) this, of "''f0''", folded mini_claimed_def]
  show "cluster_run mini_redis mini_claimed" by (rule c(2))
  show "\<exists>l. sim mini_redis mini_claimed l \<and> l_rec l = [''f0'' \<mapsto> the (job_view JSONSerializer demo_claimed)] \<and>
    l_queue l = [] \<and> l_leases l = (\<lambda>w. if w = ''w1'' then [''f0''] else []) \<and> l_beats l = [''w1'' \<mapsto> 100] \<and>
    (\<forall>i. l_ttl l i = None) \<and> l_now l = 100"
    unfolding demo_claimed_view(1) option.sel by (rule c(1))
qed

text \<open>Thirty seconds later its last beat is as old as the TTL.\<close>

lemma mini_crashed_holds:
  "cluster_run mini_redis mini_crashed"
  "l_queue (lease_abs (r_view mini_redis mini_crashed)) = []"
  "{i. \<exists>w. l_expired (worker_ttl mini_config) (lease_abs (r_view mini_redis mini_crashed)) w \<and>
     i \<in> set (l_leases (lease_abs (r_view mini_redis mini_crashed)) w)} = {''f0''}"
  "l_rec (lease_abs (r_view mini_redis mini_crashed)) = [''f0'' \<mapsto> the (job_view JSONSerializer demo_claimed)]"
proof -
  obtain l where s: "sim mini_redis mini_claimed l" and l: "l_rec l = [''f0'' \<mapsto> the (job_view JSONSerializer demo_claimed)]"
    "l_queue l = []" "l_leases l = (\<lambda>w. if w = ''w1'' then [''f0''] else [])" "l_beats l = [''w1'' \<mapsto> 100]"
    "\<And>i. l_ttl l i = None" "l_now l = 100"
    using mini_claimed_sim(1) by blast
  have a: "r_view mini_redis mini_crashed = advance 130 (r_view mini_redis mini_claimed)"
    by (simp add: mini_redis_def mini_crashed_def)
  have la: "lease_abs (r_view mini_redis mini_crashed) = l_tick 130 l"
    unfolding a using lease_abs_advance sim_abs [OF s] sim_inv [OF s] by simp
  have "cluster_step mini_redis mini_claimed mini_crashed"
    by (rule cs_time [OF _ a]) (simp add: sim_reads(5) [OF s] l)
  with mini_claimed_sim(2) show "cluster_run mini_redis mini_crashed"
    unfolding cluster_run_def by (meson rtranclp.rtrancl_into_rtrancl)
  show "l_rec (lease_abs (r_view mini_redis mini_crashed)) = [''f0'' \<mapsto> the (job_view JSONSerializer demo_claimed)]"
    "l_queue (lease_abs (r_view mini_redis mini_crashed)) = []"
    unfolding la using l by (simp_all add: l_tick_def fun_eq_iff)
  have "worker_ttl mini_config = 30" by (simp add: mini_config_def DEFAULT_WORKER_TTL_SECONDS_def)
  then show "{i. \<exists>w. l_expired (worker_ttl mini_config) (lease_abs (r_view mini_redis mini_crashed)) w \<and>
     i \<in> set (l_leases (lease_abs (r_view mini_redis mini_crashed)) w)} = {''f0''}"
    unfolding la by (auto simp: l l_tick_def l_expired_def split: option.splits if_splits)
qed

text \<open>(C6) No job is lost with its worker. In any run whose active records read as jobs with
  attempts left, however many worker processes have died and wherever they stopped: one reap by a
  peer returns, and then one undisturbed turn of a worker loop per job finishes every job that
  waited and every job the dead processes had leased.\<close>

theorem crashed_jobs_are_finished:
  assumes "redis_client R c S canon fits" "cluster_run R s"
    "\<And>i. active_job (lease_abs (r_view R s)) i \<Longrightarrow> waits_in S fits (l_rec (lease_abs (r_view R s))) i"
  shows "\<exists>ids s1. rb_reap R c s = Some (Inr (int (length ids)), s1) \<and> distinct ids \<and>
    set ids = {i. \<exists>w. l_expired (worker_ttl c) (lease_abs (r_view R s)) w \<and> i \<in> set (l_leases (lease_abs (r_view R s)) w)} \<and>
    (\<forall>races. length races = length (l_queue (lease_abs (r_view R s)) @ ids) \<longrightarrow> (\<forall>race \<in> set races. calm S race) \<longrightarrow>
       (\<exists>s2. worker_loop S (RedisBackend R c) reg races s1 = (Continue, s2) \<and> rb_waiting R s2 = [] \<and>
          (\<forall>i \<in> set (l_queue (lease_abs (r_view R s)) @ ids). finished_in (rb_records R s2) i)))"
proof -
  have "redis_server R" using assms(1) by (simp add: redis_client_def redis_backend_def)
  note run = redis_server.cluster_run_sim [OF this assms(2)]
  from redis_client.reap_then_serve [OF assms(1) run assms(3), of reg] show ?thesis by blast
qed

lemma mini_crashed_waits:
  assumes "active_job (lease_abs (r_view mini_redis mini_crashed)) i"
  shows "waits_in JSONSerializer json_fits (l_rec (lease_abs (r_view mini_redis mini_crashed))) i"
proof -
  have "i = ''f0''"
    using assms unfolding active_job_iff mini_crashed_holds(4) by (auto split: if_splits)
  then show ?thesis
    unfolding waits_in_def mini_crashed_holds(4)
    using demo_claimed_view by (intro exI [of _ demo_claimed]) (auto simp: terminal_def max_attempts_def)
qed

theorem crashed_jobs_are_finished_witness:
  "\<exists>s1 s2. rb_reap mini_redis mini_config mini_crashed = Some (Inr 1, s1) \<and>
     worker_loop JSONSerializer (RedisBackend mini_redis mini_config) demo_reg [Ends (CancelSeen True)] s1 = (Continue, s2) \<and>
     finished_in (rb_records mini_redis s2) ''f0''"
proof -
  have th: "\<exists>ids s1. rb_reap mini_redis mini_config mini_crashed = Some (Inr (int (length ids)), s1) \<and> distinct ids \<and>
    set ids = {''f0''} \<and>
    (\<forall>races. length races = length ids \<longrightarrow> (\<forall>race \<in> set races. calm JSONSerializer race) \<longrightarrow>
       (\<exists>s2. worker_loop JSONSerializer (RedisBackend mini_redis mini_config) demo_reg races s1 = (Continue, s2) \<and>
          rb_waiting mini_redis s2 = [] \<and> (\<forall>i \<in> set ids. finished_in (rb_records mini_redis s2) i)))"
    by (rule crashed_jobs_are_finished [OF mini_client.redis_client_axioms mini_crashed_holds(1), of demo_reg,
          unfolded mini_crashed_holds(2,3) append_Nil]) (rule mini_crashed_waits)
  obtain ids s1 where "rb_reap mini_redis mini_config mini_crashed = Some (Inr (int (length ids)), s1) \<and> distinct ids \<and>
    set ids = {''f0''} \<and>
    (\<forall>races. length races = length ids \<longrightarrow> (\<forall>race \<in> set races. calm JSONSerializer race) \<longrightarrow>
       (\<exists>s2. worker_loop JSONSerializer (RedisBackend mini_redis mini_config) demo_reg races s1 = (Continue, s2) \<and>
          rb_waiting mini_redis s2 = [] \<and> (\<forall>i \<in> set ids. finished_in (rb_records mini_redis s2) i)))"
    using th by (elim exE) (rule that)
  note r = this [THEN conjunct1] this [THEN conjunct2, THEN conjunct1] this [THEN conjunct2, THEN conjunct2, THEN conjunct1]
    this [THEN conjunct2, THEN conjunct2, THEN conjunct2]
  have ids: "ids = [''f0'']" using r(2,3) by (cases ids; cases "tl ids") auto
  have "calm JSONSerializer (Ends (CancelSeen True))" by (simp add: calm_def)
  then obtain s2 where
    "worker_loop JSONSerializer (RedisBackend mini_redis mini_config) demo_reg [Ends (CancelSeen True)] s1 = (Continue, s2)"
    "finished_in (rb_records mini_redis s2) ''f0''"
    using r(4) [rule_format, of "[Ends (CancelSeen True)]"] unfolding ids by auto
  then show ?thesis using r(1) unfolding ids by auto
qed

text \<open>The story of one crash: a job is RUNNING in the hands of a worker that stopped beating a TTL
  ago. A peer's reap puts it back, one turn of a loop serves it with its second attempt counted,
  and the handle that has been waiting all along gets the value.\<close>

lemma crash_redelivers_with_result:
  assumes "redis_client R c S canon fits" "cluster_run R s"
    "l_queue (lease_abs (r_view R s)) = []"
    "{i. \<exists>w. l_expired (worker_ttl c) (lease_abs (r_view R s)) w \<and> i \<in> set (l_leases (lease_abs (r_view R s)) w)} = {jid j}"
    "l_rec (lease_abs (r_view R s)) (jid j) = job_view S j" "fits_job fits j" "status j = RUNNING" "error j = None"
    "0 \<le> attempts j" "attempts j < max_attempts" "\<not> request_cancel j" "map_of reg (task_name j) \<noteq> None" "fits v"
    "h_job_id h = jid j" "h_job h = None"
  shows "\<exists>s1 s2 h' s3. rb_reap R c s = Some (Inr 1, s1) \<and>
    worker_iteration S (RedisBackend R c) reg (Ends (JobDone (Inr v))) s1 = (Continue, s2) \<and>
    rb_records R s2 (jid j) = job_view S ((norm_job canon j)\<lparr>attempts := attempts j + 1, status := COMPLETED, result := v\<rparr>) \<and>
    handle_result S (RedisBackend R c) h s2 = (Ready (Inr (canon v)), h', s3) \<and>
    rb_records R s3 (jid j) = None \<and> rb_waiting R s3 = []"
proof -
  have "redis_server R" using assms(1) by (simp add: redis_client_def redis_backend_def)
  note run = redis_server.cluster_run_sim [OF this assms(2)]
  show ?thesis by (rule redis_client.reap_then_result [OF assms(1) run assms(3-15)])
qed

theorem crash_redelivers_with_result_witness:
  "\<exists>s1 s2 h' s3. rb_reap mini_redis mini_config mini_crashed = Some (Inr 1, s1) \<and>
    worker_iteration JSONSerializer (RedisBackend mini_redis mini_config) demo_reg (Ends (JobDone (Inr (PInt 15)))) s1 = (Continue, s2) \<and>
    handle_result JSONSerializer (RedisBackend mini_redis mini_config) (JobHandle_init ''f0'') s2 = (Ready (Inr (PInt 15)), h', s3)"
proof -
  have v: "{i. \<exists>w. l_expired (worker_ttl mini_config) (lease_abs (r_view mini_redis mini_crashed)) w \<and>
     i \<in> set (l_leases (lease_abs (r_view mini_redis mini_crashed)) w)} = {jid demo_claimed}"
    "l_rec (lease_abs (r_view mini_redis mini_crashed)) (jid demo_claimed) = job_view JSONSerializer demo_claimed"
    unfolding mini_crashed_holds(3,4) using demo_claimed_view(1) by (simp_all add: demo_claimed_view(3))
  have n: "0 \<le> attempts demo_claimed" "attempts demo_claimed < max_attempts" using demo_claimed_view(6) by (simp_all add: max_attempts_def)
  have h: "h_job_id (JobHandle_init ''f0'') = jid demo_claimed" "h_job (JobHandle_init ''f0'') = None"
    using demo_claimed_view(3) by (simp_all add: JobHandle_init_def)
  have f: "json_fits (PInt 15)" by simp
  show ?thesis
    using crash_redelivers_with_result [OF mini_client.redis_client_axioms mini_crashed_holds(1,2) v demo_claimed_view(2,4,5)
        n demo_claimed_view(7,8) f h] by auto
qed

text \<open>(C17) A cancellation does not depend on its message. Setting the flag in the record by hand leaves
  the same stored state as \<open>request_cancel\<close>, which publishes too. Either way the watcher, which
  did not return before, returns at its next reading of the record; the worker then stores the job
  as cancelled and gives up its lease, and the handle raises \<open>JobCancelled\<close>.\<close>

theorem flag_without_message_cancels:
  assumes "redis_client R c S canon fits" "cluster_run R s" "runs_in S (rb_records R s) j" "fits_job fits j"
    "\<not> request_cancel j" "job_view S j = Some (map_of r)" "map_of reg (task_name j) \<noteq> None"
    "h_job_id h = jid j" "h_job h = None"
    "s1 = r_HSET R (job_key (jid j)) [(''request_cancel'', ''1'')] s \<or> s1 = snd (rb_request_cancel R (jid j) s)"
  shows "rb_wait_cancel R (jid j) s = Pending \<and> rb_wait_cancel R (jid j) s1 = Ready (Inr ()) \<and>
    lease_abs (r_view R s1) = l_cancel (jid j) (lease_abs (r_view R s)) \<and>
    (\<exists>s2 h' s3. worker_serve S (RedisBackend R c) reg r (Ends (CancelSeen u)) s1 = (Continue, s2) \<and>
       jid j \<notin> set (l_leases (lease_abs (r_view R s2)) (instance_id c)) \<and> rb_waiting R s2 = rb_waiting R s \<and>
       handle_result S (RedisBackend R c) h s2 =
         (Ready (Inl (JobCancelled (''job '' @ py_repr (jid j) @ '' was cancelled''))), h', s3))"
proof -
  let ?l = "lease_abs (r_view R s)"
  have srv: "redis_server R" using assms(1) by (simp add: redis_client_def redis_backend_def)
  note run = redis_server.cluster_run_sim [OF srv assms(2)]
  have o: "rb_records R s = l_rec ?l" "rb_waiting R s = l_queue ?l" using sim_observed [OF run(1)] by simp_all
  have rj: "runs_in S (l_rec ?l) j" using assms(3) unfolding o(1) .
  note f = redis_client.silent_flag_reading [OF assms(1) run(1) rj assms(5)]
  have s1: "sim R s1 (l_cancel (jid j) ?l)" "rb_wait_cancel R (jid j) s1 = Ready (Inr ())"
    using assms(10) f(2-5) by auto
  have same: "same_job j (j\<lparr>request_cancel := True\<rparr>)" by (simp add: same_job_def)
  obtain s2 h' s3 where s2: "worker_serve S (RedisBackend R c) reg r (Ends (CancelSeen u)) s1 = (Continue, s2)"
    "l_leases (lease_abs (r_view R s2)) = (l_leases (l_cancel (jid j) ?l))(instance_id c :=
       remove1 (jid j) (l_leases (l_cancel (jid j) ?l) (instance_id c)))"
    "rb_waiting R s2 = l_queue (l_cancel (jid j) ?l)"
    "handle_result S (RedisBackend R c) h s2 =
       (Ready (Inl (JobCancelled (''job '' @ py_repr (jid j) @ '' was cancelled''))), h', s3)"
    using redis_client.watcher_cancels [OF assms(1) s1(1) f(6) same assms(4,6,5,7-9), of u] by blast
  have c: "l_leases (l_cancel (jid j) ?l) = l_leases ?l" "l_queue (l_cancel (jid j) ?l) = l_queue ?l"
    by (simp_all add: l_cancel_def l_put_def split: option.split del: lease_abs_reads)
  have d: "distinct (l_leases ?l (instance_id c))" using lease_okD(3) [OF run(2)] .
  have "jid j \<notin> set (l_leases (lease_abs (r_view R s2)) (instance_id c))"
    unfolding s2(2) c fun_upd_same using d by simp
  then show ?thesis using f(1) s1 s2(1,3,4) sim_abs [OF s1(1)] c(2) o(2)
    by (intro conjI exI [of _ s2] exI [of _ h'] exI [of _ s3]) simp_all
qed

theorem flag_without_message_cancels_witness:
  "\<exists>r s2 h' s3. worker_serve JSONSerializer (RedisBackend mini_redis mini_config) demo_reg r (Ends (CancelSeen True))
       (r_HSET mini_redis (job_key ''f0'') [(''request_cancel'', ''1'')] mini_claimed) = (Continue, s2) \<and>
     handle_result JSONSerializer (RedisBackend mini_redis mini_config) (JobHandle_init ''f0'') s2 =
       (Ready (Inl (JobCancelled (''job '' @ py_repr ''f0'' @ '' was cancelled''))), h', s3)"
proof -
  obtain l where l: "sim mini_redis mini_claimed l" "l_rec l = [''f0'' \<mapsto> the (job_view JSONSerializer demo_claimed)]"
    using mini_claimed_sim(1) by blast
  have "rb_records mini_redis mini_claimed (jid demo_claimed) = job_view JSONSerializer demo_claimed"
    using sim_observed [OF l(1)] l(2) demo_claimed_view(1,3) by simp
  then have rj: "runs_in JSONSerializer (rb_records mini_redis mini_claimed) demo_claimed"
    using demo_claimed_view(1,4-6) by (simp add: runs_in_def)
  obtain r where r: "job_view JSONSerializer demo_claimed = Some (map_of r)"
    using demo_claimed_view(1) job_view_Some [of JSONSerializer demo_claimed] by metis
  have h: "h_job_id (JobHandle_init ''f0'') = jid demo_claimed" "h_job (JobHandle_init ''f0'') = None"
    using demo_claimed_view(3) by (simp_all add: JobHandle_init_def)
  from flag_without_message_cancels [OF mini_client.redis_client_axioms mini_claimed_sim(2) rj demo_claimed_view(2,7) r
      demo_claimed_view(8) h disjI1 [OF refl], of True] demo_claimed_view(3)
  show ?thesis by auto
qed

end
