(* ===== verification/Nested_Scopes.thy ===== *)
theory Nested_Scopes
  imports Group_Properties Lease_Protocol
begin

text \<open>
  Jobs that are producers themselves: the body of a running job has a scope open and waits for the
  jobs it spawned, as \<open>check_inventory\<close> does in \<open>nested_scopes_cancel_on_failure.py\<close>. When such a
  job is flagged, its worker cancels the body, the body leaves its scope on the way out, and that
  flags the next level. The watchers come back in any order and at any time.
\<close>

section \<open>Unwinding\<close>

text \<open>A scope that is open, with the id of the job whose body is inside it.\<close>

type_synonym open_scope = "string \<times> group"

text \<open>The watcher of a job comes back, its body is cancelled and leaves one scope: inside the \<open>async with\<close>
  block or while it joins the children.\<close>

inductive unwind_step :: "'s backend \<Rightarrow> open_scope list \<times> 's \<Rightarrow> open_scope list \<times> 's \<Rightarrow> bool" for B where
  unwind: "unwind_step B (xs @ (i, g) # ys, s) (xs @ ys, s')"
    if "b_wait_cancel B i s = Ready (Inr ())"
      "(exc, how) \<in> {(Some CancelledError, JoinOn), (None, JoinCancelled)}"
      "group_exit B exc how g s = (ExitRaises CancelledError, g', s')"

definition owns :: "open_scope list \<Rightarrow> string \<Rightarrow> string \<Rightarrow> bool" where
  "owns scopes i k \<longleftrightarrow> (\<exists>g. (i, g) \<in> set scopes \<and> k \<in> handle_ids g)"

definition is_flagged :: "rec_view \<Rightarrow> bool" where
  "is_flagged m \<longleftrightarrow> m ''request_cancel'' = Some (Str ''1'')"

definition active_in :: "(string \<Rightarrow> rec_view option) \<Rightarrow> string \<Rightarrow> bool" where
  "active_in v i \<longleftrightarrow> (\<exists>m. v i = Some m \<and> \<not> terminal_in m)"

lemma flagged_active: "\<not> terminal_in m \<Longrightarrow> is_flagged (flagged m) \<and> \<not> terminal_in (flagged m)"
  by (simp add: flagged_def is_flagged_def)

lemma flagged_same: "is_flagged m \<Longrightarrow> flagged m = m"
  by (auto simp: is_flagged_def flagged_def)

text \<open>Every step closes a scope, so unwinding ends.\<close>

lemma unwind_shorter: "unwind_step B c c' \<Longrightarrow> length (fst c) = Suc (length (fst c'))"
  by (induction rule: unwind_step.induct) simp

lemma unwinding_ends: "\<exists>c'. (unwind_step B)\<^sup>*\<^sup>* c c' \<and> (\<nexists>d. unwind_step B c' d)"
proof (induction "length (fst c)" arbitrary: c rule: less_induct)
  case less
  show ?case
  proof (cases "\<exists>d. unwind_step B c d")
    case True
    then obtain d where d: "unwind_step B c d" by blast
    then have "length (fst d) < length (fst c)" using unwind_shorter by fastforce
    from less [OF this] obtain c' where "(unwind_step B)\<^sup>*\<^sup>* d c'" "\<nexists>e. unwind_step B c' e" by blast
    with d show ?thesis by (meson converse_rtranclp_into_rtranclp)
  qed blast
qed

lemma unwinding_bounded: "(unwind_step B ^^ n) c c' \<Longrightarrow> n + length (fst c') = length (fst c)"
proof (induction n arbitrary: c')
  case (Suc n)
  then obtain d where d: "(unwind_step B ^^ n) c d" "unwind_step B d c'" by auto
  from Suc.IH [OF d(1)] unwind_shorter [OF d(2)] show ?case by simp
qed simp

context backend_contract
begin

text \<open>Leaving a scope changes no record but by a flag.\<close>

lemma exit_only_flags:
  assumes "inv s"
  shows "\<exists>g' s'. cancel_and_raise B e g s = (ExitRaises e, g', s') \<and> inv s' \<and> waiting s' = waiting s \<and>
    (\<forall>i. view s' i = view s i \<or> view s' i = map_option flagged (view s i)) \<and>
    (\<forall>i \<in> handle_ids g. view s' i = map_option flagged (view s i))"
proof -
  obtain s1 where s1: "cancel_all_jobs B g s = (Inr (), s1)" "inv s1" "waiting s1 = waiting s"
    "view s1 = (\<lambda>i. if i \<in> handle_ids g then map_option flagged (view s i) else view s i)"
    using cancel_all_flags [OF assms] by blast
  obtain g' s' where s': "group_settle B g s1 = (g', s')" "inv s'" "waiting s' = waiting s1"
    "\<forall>i. view s' i = view s1 i \<or> view s' i = map_option flagged (view s1 i)"
    using settle_valid [OF s1(2)] by blast
  have twice: "map_option flagged (map_option flagged x) = map_option flagged x" for x
    by (cases x) simp_all
  have v: "view s' i = view s1 i \<or> view s' i = map_option flagged (view s1 i)" for i using s'(4) by blast
  have "view s' i = view s i \<or> view s' i = map_option flagged (view s i)" for i
    using v [of i] unfolding s1(4) by (cases "i \<in> handle_ids g") (simp_all add: twice)
  moreover have "view s' i = map_option flagged (view s i)" if "i \<in> handle_ids g" for i
    using v [of i] that unfolding s1(4) by (simp add: twice)
  ultimately show ?thesis using s1(1,3) s'(1-3) by (auto simp: cancel_and_raise_def)
qed

definition unwound :: "'s \<Rightarrow> open_scope list \<Rightarrow> open_scope list \<Rightarrow> 's \<Rightarrow> bool" where
  "unwound s scopes xs t \<longleftrightarrow> inv t \<and> waiting t = waiting s \<and> set xs \<subseteq> set scopes \<and>
     (\<forall>i. view t i = view s i \<or> view t i = map_option flagged (view s i)) \<and>
     (\<forall>i g k. (i, g) \<in> set scopes - set xs \<longrightarrow> k \<in> handle_ids g \<longrightarrow> view t k = map_option flagged (view s k))"

lemma unwound_step:
  assumes "unwound s scopes (fst c) (snd c)" "unwind_step B c c'"
  shows "unwound s scopes (fst c') (snd c')"
  using assms(2,1)
proof (induction rule: unwind_step.induct)
  case (unwind i t exc how g g' t' xs ys)
  note U = unwind(4) [unfolded unwound_def fst_conv snd_conv]
  have v: "view t j = view s j \<or> view t j = map_option flagged (view s j)" for j using U by blast
  have twice: "map_option flagged (map_option flagged x) = map_option flagged x" for x by (cases x) simp_all
  have "cancel_and_raise B CancelledError g t = (ExitRaises CancelledError, g', t')"
    using unwind(2,3) by (auto simp: group_exit_def split: if_splits)
  with exit_only_flags [of t CancelledError g] U have t': "inv t'" "waiting t' = waiting s"
    "\<And>j. view t' j = view t j \<or> view t' j = map_option flagged (view t j)"
    "\<And>j. j \<in> handle_ids g \<Longrightarrow> view t' j = map_option flagged (view t j)" by auto
  have keep: "view t' j = view s j \<or> view t' j = map_option flagged (view s j)" for j
    using v [of j] t'(3) [of j] by (auto simp: twice)
  have after: "view t' j = map_option flagged (view s j)" if "view t j = map_option flagged (view s j)" for j
    using t'(3) [of j] that by (auto simp: twice)
  have own: "view t' j = map_option flagged (view s j)" if "j \<in> handle_ids g" for j
    using v [of j] t'(4) [OF that] by (auto simp: twice)
  have closed: "view t' k = map_option flagged (view s k)"
    if "(l, h) \<in> set scopes - set (xs @ ys)" "k \<in> handle_ids h" for l h k
  proof (cases "(l, h) = (i, g)")
    case True
    with own that(2) show ?thesis by simp
  next
    case False
    with that(1) have "(l, h) \<in> set scopes - set (xs @ (i, g) # ys)" by auto
    with U that(2) have "view t k = map_option flagged (view s k)" by blast
    then show ?thesis by (rule after)
  qed
  show ?case
    unfolding unwound_def fst_conv snd_conv using U t'(1,2) keep closed by auto
qed

lemma unwound_run:
  assumes "inv s" "(unwind_step B)\<^sup>*\<^sup>* (scopes, s) c"
  shows "unwound s scopes (fst c) (snd c)"
  using assms(2)
proof (induction rule: rtranclp_induct)
  case base
  show ?case using assms(1) by (simp add: unwound_def)
next
  case (step c d)
  then show ?case using unwound_step by blast
qed

lemma flag_wakes:
  assumes "inv t" "view t i = Some m" "is_flagged m" "\<not> terminal_in m"
  shows "b_wait_cancel B i t = Ready (Inr ())"
  using wait_cancel_active [OF assms(1,2,4)] assms(3) by (simp add: is_flagged_def)

text \<open>When no watcher can come back any more, every active job below a flagged one is flagged too.\<close>

lemma unwinding_reaches:
  assumes "inv s" "(unwind_step B)\<^sup>*\<^sup>* (scopes, s) (xs, t)" "\<nexists>d. unwind_step B (xs, t) d"
    "\<forall>(i, g) \<in> set scopes. g_handles g \<noteq> [] \<and> active_in (view s) i"
    "view s r = Some m0" "is_flagged m0" "\<not> terminal_in m0"
    "(owns scopes)\<^sup>*\<^sup>* r k" "view s k = Some m" "\<not> terminal_in m"
  shows "view t k = Some (flagged m) \<and> b_wait_cancel B k t = Ready (Inr ()) \<and> (\<forall>g. (k, g) \<notin> set xs)"
proof -
  have U: "unwound s scopes xs t" using unwound_run [OF assms(1,2)] by simp
  then have t: "inv t" by (simp add: unwound_def)
  have stuck: "(i, g) \<notin> set xs" if i: "view t i = Some m'" "is_flagged m'" "\<not> terminal_in m'" for i g m'
  proof
    assume "(i, g) \<in> set xs"
    then obtain ys zs where xs: "xs = ys @ (i, g) # zs" by (meson split_list)
    have g: "g_handles g \<noteq> []" using U assms(4) \<open>(i, g) \<in> set xs\<close> by (auto simp: unwound_def)
    obtain g' t' where "cancel_and_raise B CancelledError g t = (ExitRaises CancelledError, g', t')"
      using exit_only_flags [OF t] by blast
    then have "group_exit B None JoinCancelled g t = (ExitRaises CancelledError, g', t')"
      using g by (simp add: group_exit_def)
    then have "unwind_step B (xs, t) (ys @ zs, t')"
      unfolding xs by (intro unwind_step.unwind [OF flag_wakes [OF t i]]) auto
    with assms(3) show False by blast
  qed
  have all: "active_in (view s) j \<Longrightarrow> view t j = map_option flagged (view s j)" if "(owns scopes)\<^sup>*\<^sup>* r j" for j
    using that
  proof (induction rule: rtranclp_induct)
    case base
    show ?case using U flagged_same [OF assms(6)] assms(5) unfolding unwound_def by (metis option.simps(9))
  next
    case (step i j)
    from step.hyps(2) obtain g where g: "(i, g) \<in> set scopes" "j \<in> handle_ids g" by (auto simp: owns_def)
    then have act: "active_in (view s) i" using assms(4) by auto
    then obtain m1 where m1: "view s i = Some m1" "\<not> terminal_in m1" by (auto simp: active_in_def)
    with step.IH [OF act] have "view t i = Some (flagged m1)" by simp
    with stuck flagged_active [OF m1(2)] have "(i, g) \<notin> set xs" by blast
    with U g show ?case by (auto simp: unwound_def)
  qed
  have "view t k = Some (flagged m)"
    using all [OF assms(8)] assms(9,10) by (simp add: active_in_def)
  with stuck [of k "flagged m"] flag_wakes [OF t, of k "flagged m"] flagged_active [OF assms(10)] show ?thesis by blast
qed

end

section \<open>Properties\<close>

text \<open>(C8) Cancellation crosses job boundaries. Jobs may be producers, each inside scopes of its own, to any
  depth. Once one of them is flagged, by a handle, by a fan-out or by an enclosing scope, their
  bodies unwind in any order the event loops and processes choose; that ends, after at most one
  step per open scope, and then every active job below the flagged one is flagged, its watcher has
  come back, and no scope of it is open any more.\<close>

theorem cancellation_reaches_descendants:
  assumes "backend_contract B valid view waiting" "valid s"
    "(unwind_step B)\<^sup>*\<^sup>* (scopes, s) (xs, t)" "\<nexists>d. unwind_step B (xs, t) d"
    "\<forall>(i, g) \<in> set scopes. g_handles g \<noteq> [] \<and> active_in (view s) i"
    "view s r = Some m0" "is_flagged m0" "\<not> terminal_in m0"
    "(owns scopes)\<^sup>*\<^sup>* r k" "view s k = Some m" "\<not> terminal_in m"
  shows "view t k = Some (flagged m) \<and> b_wait_cancel B k t = Ready (Inr ()) \<and> (\<forall>g. (k, g) \<notin> set xs)"
  by (rule backend_contract.unwinding_reaches [OF assms])

text \<open>Three levels in the in-memory store: a flagged producer, its child, and a grandchild.\<close>

definition demo_tree :: mem where
  "demo_tree = snd (mem_request_cancel ''p'' (snd (mem_enqueue ''d'' demo_record
     (snd (mem_enqueue ''c'' demo_record (snd (mem_enqueue ''p'' demo_record mem_init)))))))"

definition demo_scopes :: "open_scope list" where
  "demo_scopes = [(''p'', group_register (JobHandle_init ''c'') demo_group), (''c'', group_register (JobHandle_init ''d'') demo_group)]"

lemma demo_tree_holds:
  "mem_inv demo_tree"
  "mem_view demo_tree = (let m = (map_of demo_record)(''status'' \<mapsto> Str (status_value QUEUED))
     in [''p'' \<mapsto> m(''request_cancel'' \<mapsto> Str ''1''), ''c'' \<mapsto> m, ''d'' \<mapsto> m])"
proof -
  let ?m = "(map_of demo_record)(''status'' \<mapsto> Str (status_value QUEUED))"
  have z: "map_of demo_record ''request_cancel'' = Some (Str ''0'')" by (simp add: demo_record_def)
  have e0: "mem_view mem_init = Map.empty" by (simp add: mem_view_def mem_init_def fun_eq_iff)
  note enq = memory.enqueue_new [OF _ _ demo_record_ok z, unfolded MemoryBackend_def, simplified]
  obtain s1 where s1: "mem_enqueue ''p'' demo_record mem_init = (Inr (), s1)" "mem_inv s1" "mem_view s1 = [''p'' \<mapsto> ?m]"
    using enq [OF mem_inv_init, of "''p''"] e0 by auto
  obtain s2 where s2: "mem_enqueue ''c'' demo_record s1 = (Inr (), s2)" "mem_inv s2" "mem_view s2 = [''p'' \<mapsto> ?m, ''c'' \<mapsto> ?m]"
    using enq [OF s1(2), of "''c''"] s1(3) by auto
  obtain s3 where s3: "mem_enqueue ''d'' demo_record s2 = (Inr (), s3)" "mem_inv s3"
    "mem_view s3 = [''p'' \<mapsto> ?m, ''c'' \<mapsto> ?m, ''d'' \<mapsto> ?m]"
    using enq [OF s2(2), of "''d''"] s2(3) by auto
  have n: "\<not> terminal_in ?m" by simp
  have "\<exists>s4. b_request_cancel MemoryBackend ''p'' s3 = (Inr (), s4) \<and> mem_inv s4 \<and>
    mem_view s4 = (mem_view s3)(''p'' \<mapsto> ?m(''request_cancel'' \<mapsto> Str ''1'')) \<and> m_queue s4 = m_queue s3"
    by (rule memory.cancel_active [OF s3(2) _ n]) (simp add: s3(3))
  then obtain s4 where "mem_request_cancel ''p'' s3 = (Inr (), s4)" "mem_inv s4"
    "mem_view s4 = (mem_view s3)(''p'' \<mapsto> ?m(''request_cancel'' \<mapsto> Str ''1''))"
    by (auto simp: MemoryBackend_def)
  then show "mem_inv demo_tree" "mem_view demo_tree = (let m = ?m
     in [''p'' \<mapsto> m(''request_cancel'' \<mapsto> Str ''1''), ''c'' \<mapsto> m, ''d'' \<mapsto> m])"
    using s1(1) s2(1) s3(1,3) by (auto simp: demo_tree_def Let_def fun_eq_iff)
qed

theorem cancellation_reaches_descendants_witness:
  "\<exists>xs t. (unwind_step MemoryBackend)\<^sup>*\<^sup>* (demo_scopes, demo_tree) (xs, t) \<and> b_wait_cancel MemoryBackend ''d'' t = Ready (Inr ())"
proof -
  let ?m = "(map_of demo_record)(''status'' \<mapsto> Str (status_value QUEUED))"
  obtain xs t where run: "(unwind_step MemoryBackend)\<^sup>*\<^sup>* (demo_scopes, demo_tree) (xs, t)"
    "\<nexists>d. unwind_step MemoryBackend (xs, t) d"
    using unwinding_ends [of MemoryBackend "(demo_scopes, demo_tree)"] by auto
  have h: "g_handles (group_register (JobHandle_init i) demo_group) = [(i, JobHandle_init i)]" for i
    by (simp add: group_register_def demo_group_def group_enter_def JobHandle_init_def Let_def)
  have n: "\<not> terminal_in ?m" "\<not> terminal_in (?m(''request_cancel'' \<mapsto> Str ''1''))" by simp_all
  have v: "mem_view demo_tree ''p'' = Some (?m(''request_cancel'' \<mapsto> Str ''1''))" "mem_view demo_tree ''c'' = Some ?m"
    "mem_view demo_tree ''d'' = Some ?m"
    by (simp_all add: demo_tree_holds(2) Let_def)
  have a: "\<forall>(i, g) \<in> set demo_scopes. g_handles g \<noteq> [] \<and> active_in (mem_view demo_tree) i"
    using v n h by (auto simp: demo_scopes_def active_in_def)
  have "owns demo_scopes ''p'' ''c''" "owns demo_scopes ''c'' ''d''"
    using h by (auto simp: owns_def demo_scopes_def handle_ids_def JobHandle_init_def)
  then have o: "(owns demo_scopes)\<^sup>*\<^sup>* ''p'' ''d''" by (meson converse_rtranclp_into_rtranclp rtranclp.rtrancl_refl)
  have f: "is_flagged (?m(''request_cancel'' \<mapsto> Str ''1''))" by (simp add: is_flagged_def)
  from cancellation_reaches_descendants [OF memory.backend_contract_axioms demo_tree_holds(1) run a v(1) f n(2) o v(3) n(1)] run(1)
  show ?thesis by blast
qed

end
