(* ===== verification/Fan_Out.thy ===== *)
theory Fan_Out
  imports Group_Properties
begin

text \<open>
  A scope from end to end: the body of an \<open>async with q.group()\<close> spawns one job per call, worker
  loops serve them, the waiters of the scope get their outcomes, the scope is left, and the handles
  give their results again. This is the program that every producer writes (\<open>fan_out\<close> and
  \<open>collect_errors\<close> in \<open>scope_semantics_tour.py\<close>), composed from the operations of the group, the
  worker and the handles over any store that keeps the contract.
\<close>

section \<open>The producer's side\<close>

text \<open>A call of a task with the fresh id its job gets.\<close>

record spawn_call =
  c_task :: task_obj
  c_fresh :: string
  c_args :: "pyval list"
  c_kwargs :: "(string \<times> pyval) list"

text \<open>\<open>[await g.spawn(task, ...) for ...]\<close>\<close>

fun spawn_all ::
  "serializer \<Rightarrow> 's backend \<Rightarrow> datetime \<Rightarrow> job_context option \<Rightarrow> spawn_call list \<Rightarrow> group \<Rightarrow> 's
   \<Rightarrow> job_handle list res \<times> job_context option \<times> group \<times> 's" where
  "spawn_all S B now current [] g s = (Inr [], current, g, s)"
| "spawn_all S B now current (c # cs) g s =
     (case group_spawn S B (c_task c) (c_fresh c) now current (c_args c) (c_kwargs c) g s of
        (Inl e, current', g', s') \<Rightarrow> (Inl e, current', g', s')
      | (Inr h, current', g', s') \<Rightarrow>
          (case spawn_all S B now current' cs g' s' of
             (Inl e, rest) \<Rightarrow> (Inl e, rest)
           | (Inr hs, rest) \<Rightarrow> (Inr (h # hs), rest)))"

text \<open>Each waiter task of the scope awaits \<open>handle.result()\<close> once; the handle keeps the job it consumed.\<close>

fun run_waiters ::
  "serializer \<Rightarrow> 's backend \<Rightarrow> nat \<Rightarrow> job_handle list \<Rightarrow> group \<Rightarrow> 's \<Rightarrow> job_handle list \<times> group \<times> 's" where
  "run_waiters S B k [] g s = ([], g, s)"
| "run_waiters S B k (h # hs) g s =
     (case handle_result S B h s of
        (Pending, h', s') \<Rightarrow> (case run_waiters S B (Suc k) hs g s' of (hs', rest) \<Rightarrow> (h' # hs', rest))
      | (Ready r, h', s') \<Rightarrow> (case run_waiters S B (Suc k) hs (waiter_done k r g) s' of (hs', rest) \<Rightarrow> (h' # hs', rest)))"

text \<open>\<open>for handle in handles: await handle.result()\<close>\<close>

fun results :: "serializer \<Rightarrow> 's backend \<Rightarrow> job_handle list \<Rightarrow> 's \<Rightarrow> pyval list await \<times> job_handle list \<times> 's" where
  "results S B [] s = (Ready (Inr []), [], s)"
| "results S B (h # hs) s =
     (case handle_result S B h s of
        (Pending, h', s') \<Rightarrow> (Pending, h' # hs, s')
      | (Ready (Inl e), h', s') \<Rightarrow> (Ready (Inl e), h' # hs, s')
      | (Ready (Inr v), h', s') \<Rightarrow>
          (case results S B hs s' of
             (Ready (Inr vs), hs', s'') \<Rightarrow> (Ready (Inr (v # vs)), h' # hs', s'')
           | (out, hs', s'') \<Rightarrow> (out, h' # hs', s'')))"

definition call_job :: "string option \<Rightarrow> datetime \<Rightarrow> spawn_call \<Rightarrow> job" where
  "call_job gid now c = Job_init (c_fresh c) now (t_name (c_task c)) None (c_args c) (c_kwargs c) gid"

section \<open>What each job comes to\<close>

text \<open>A race whose body ends with a value the serializer represents, with an ordinary exception, or
  cancelled by the watcher.\<close>

definition settles :: "(pyval \<Rightarrow> bool) \<Rightarrow> race \<Rightarrow> bool" where
  "settles fits race \<longleftrightarrow>
     (let ok = (\<lambda>r. case r of Inl e \<Rightarrow> is_Exception e | Inr v \<Rightarrow> fits v)
      in case race of
           Ends ending \<Rightarrow> (case ending of JobDone r \<Rightarrow> ok r | WatcherDied e r \<Rightarrow> ok r | CancelSeen u \<Rightarrow> True)
         | _ \<Rightarrow> False)"

definition done_job :: "serializer \<Rightarrow> (pyval \<Rightarrow> pyval) \<Rightarrow> task_obj pydict \<Rightarrow> job \<Rightarrow> race \<Rightarrow> job" where
  "done_job S canon reg j race =
     the (final_job S reg (norm_job canon (j\<lparr>status := RUNNING, attempts := attempts j + 1\<rparr>)) race)"

text \<open>What the producer gets for one call.\<close>

definition call_outcome ::
  "serializer \<Rightarrow> (pyval \<Rightarrow> pyval) \<Rightarrow> task_obj pydict \<Rightarrow> spawn_call \<Rightarrow> race \<Rightarrow> pyval res" where
  "call_outcome S canon reg c race =
     (let failed = (\<lambda>t. Inl (RuntimeError (''job '' @ py_repr (c_fresh c) @ '' failed: '' @ t)));
          body = (\<lambda>r. case r of Inl e \<Rightarrow> failed (py_str_exc e) | Inr v \<Rightarrow> Inr (canon v))
      in if map_of reg (t_name (c_task c)) = None
         then failed (''no task is registered under the name '' @ py_repr (t_name (c_task c)))
         else case race of
           Ends (JobDone r) \<Rightarrow> body r
         | Ends (WatcherDied e r) \<Rightarrow> body r
         | _ \<Rightarrow> Inl (JobCancelled (''job '' @ py_repr (c_fresh c) @ '' was cancelled'')))"

definition errors_of :: "pyval res list \<Rightarrow> pyexc list" where
  "errors_of outs = concat (map (\<lambda>r. case r of Inl e \<Rightarrow> [e] | Inr v \<Rightarrow> []) outs)"

text \<open>The status a handle reports once it holds that outcome.\<close>

definition outcome_status :: "pyval res \<Rightarrow> JobStatus" where
  "outcome_status out =
     (case out of Inr v \<Rightarrow> COMPLETED | Inl e \<Rightarrow> (case e of JobCancelled m \<Rightarrow> CANCELLED | _ \<Rightarrow> FAILED))"

lemma outcome_status_terminal: "terminal (status j) \<Longrightarrow> outcome_status (job_outcome i (norm_job canon j)) = status j"
  by (auto simp: outcome_status_def job_outcome_def norm_job_def terminal_def)

section \<open>The group's side\<close>

lemma update_new: "k \<notin> fst ` set d \<Longrightarrow> AList.update k v d = d @ [(k, v)]"
  by (induction d) auto

lemma register_all:
  assumes "g_entered g"
  shows "g_waiters (fold group_register hs g) = g_waiters g @ map (\<lambda>h. (h_job_id h, Waiting)) hs"
    "g_entered (fold group_register hs g)" "g_id (fold group_register hs g) = g_id g"
    "g_on_error (fold group_register hs g) = g_on_error g" "g_failures (fold group_register hs g) = g_failures g"
    "hs \<noteq> [] \<Longrightarrow> g_handles (fold group_register hs g) \<noteq> []"
    "g_cancelling (fold group_register hs g) = g_cancelling g"
proof -
  have ne: "g_handles (fold group_register xs f) \<noteq> []" if "g_handles f \<noteq> []" for xs f
    using that
  proof (induction xs arbitrary: f)
    case (Cons x xs)
    have "AList.update k v d \<noteq> []" for k v and d :: "job_handle pydict" by (cases d) auto
    then have "g_handles (group_register x f) \<noteq> []" by (simp add: group_register_def Let_def)
    with Cons.IH show ?case by simp
  qed simp
  have u: "AList.update k v d \<noteq> []" for k v and d :: "job_handle pydict" by (cases d) auto
  show "hs \<noteq> [] \<Longrightarrow> g_handles (fold group_register hs g) \<noteq> []"
    using ne u by (cases hs) (auto simp: group_register_def Let_def)
  show "g_waiters (fold group_register hs g) = g_waiters g @ map (\<lambda>h. (h_job_id h, Waiting)) hs"
    "g_entered (fold group_register hs g)" "g_id (fold group_register hs g) = g_id g"
    "g_on_error (fold group_register hs g) = g_on_error g" "g_failures (fold group_register hs g) = g_failures g"
    "g_cancelling (fold group_register hs g) = g_cancelling g"
    using assms by (induction hs arbitrary: g) (simp_all add: group_register_def Let_def)
qed

text \<open>The waiters from position \<open>k\<close> on end one after the other.\<close>

fun finish_from :: "nat \<Rightarrow> pyval res list \<Rightarrow> group \<Rightarrow> group" where
  "finish_from k [] g = g"
| "finish_from k (r # rs) g = finish_from (Suc k) rs (waiter_done k r g)"

lemma finish_frame:
  "g_handles (finish_from k rs g) = g_handles g" "g_id (finish_from k rs g) = g_id g"
  "g_on_error (finish_from k rs g) = g_on_error g" "g_failures (finish_from k rs g) = g_failures g"
  "g_cancelling (finish_from k rs g) = g_cancelling g"
  "g_callbacks (finish_from k rs g) = g_callbacks g @ (if g_on_error g = CANCEL_SIBLINGS then [k..<k + length rs] else [])"
  by (induction rs arbitrary: k g) (auto simp: waiter_done_def upt_conv_Cons simp del: upt_Suc)

lemma finish_waiters:
  assumes "g_waiters g = done @ map (\<lambda>i. (i, Waiting)) ids @ rest" "length done = k" "length rs = length ids"
  shows "g_waiters (finish_from k rs g) = done @ map2 (\<lambda>i r. (i, Finished r)) ids rs @ rest"
  using assms
proof (induction rs arbitrary: k g "done" ids)
  case (Cons r rs)
  then obtain i js where ids: "ids = i # js" by (cases ids) auto
  have "g_waiters (waiter_done k r g) = (done @ [(i, Finished r)]) @ map (\<lambda>i. (i, Waiting)) js @ rest"
    using Cons.prems by (simp add: waiter_done_def ids nth_append list_update_append)
  from Cons.IH [OF this] Cons.prems show ?case by (simp add: ids)
qed simp

text \<open>The verdict of a scope whose jobs have all ended.\<close>

lemma all_ended_exit:
  assumes "g_waiters g = map2 (\<lambda>i r. (i, Finished r)) ids outs" "length ids = length outs" "outs \<noteq> []"
    "g_handles g \<noteq> []" "g_failures g = []"
  shows "all_done g"
    "fst (group_exit B None JoinOn g s) =
      (case g_on_error g of
         IGNORE \<Rightarrow> ExitNormal | CANCEL_SIBLINGS \<Rightarrow> ExitNormal
       | COLLECT \<Rightarrow> if errors_of outs = [] then ExitNormal
           else ExitGroup (''one or more jobs in group '' @ g_id g @ '' failed'') (errors_of outs))"
proof -
  show d: "all_done g" unfolding all_done_def assms(1) by (auto simp: list_all_iff dest: set_zip_leftD)
  have "concat (map (\<lambda>(i, w). case w of Finished (Inl e) \<Rightarrow> [e] | Dropped \<Rightarrow> [CancelledError] | _ \<Rightarrow> [])
      (map2 (\<lambda>i r. (i, Finished r)) is os)) = errors_of os" if "length is = length os"
    for "is" :: "string list" and os
    using that by (induction "is" os rule: list_induct2) (auto simp: errors_of_def split: sum.splits)
  then have e: "gather_errors g = errors_of outs" using assms(1,2) by (simp add: gather_errors_def)
  have w: "g_waiters g \<noteq> []" using assms(1-3) by (cases ids; cases outs) auto
  show "fst (group_exit B None JoinOn g s) =
      (case g_on_error g of
         IGNORE \<Rightarrow> ExitNormal | CANCEL_SIBLINGS \<Rightarrow> ExitNormal
       | COLLECT \<Rightarrow> if errors_of outs = [] then ExitNormal
           else ExitGroup (''one or more jobs in group '' @ g_id g @ '' failed'') (errors_of outs))"
    using d e w assms(4,5)
    by (cases "g_on_error g") (auto simp: group_exit_def group_join_def ignore_mode_def collect_mode_def
        cancel_siblings_mode_def wait_first_exception_def split: prod.splits)
qed

text \<open>While a child still waits and none has failed, the scope does not end.\<close>

lemma waiting_exit:
  assumes "g_waiters g = map (\<lambda>i. (i, Waiting)) ids" "ids \<noteq> []" "g_handles g \<noteq> []"
  shows "fst (group_exit B None JoinOn g s) = ExitWaits"
proof -
  have "\<not> all_done g" "\<not> list_ex (\<lambda>(i, w). waiter_failure w \<noteq> None) (g_waiters g)" "g_waiters g \<noteq> []"
    using assms(1,2) by (auto simp: all_done_def list_all_iff list_ex_iff neq_Nil_conv)
  with assms(3) show ?thesis
    by (cases "g_on_error g") (simp_all add: group_exit_def group_join_def ignore_mode_def collect_mode_def
        cancel_siblings_mode_def wait_first_exception_def)
qed

section \<open>The store's side\<close>

context client
begin

lemma body_of_fitting:
  assumes "case r of Inl e \<Rightarrow> is_Exception e | Inr v \<Rightarrow> fits v"
  shows "body_outcome S j r =
    Some (case r of Inl e \<Rightarrow> j\<lparr>error := Some (py_str_exc e), status := FAILED\<rparr> | Inr v \<Rightarrow> j\<lparr>result := v, status := COMPLETED\<rparr>)"
proof (cases r)
  case (Inr v)
  then obtain b where "dumps S v = Inr b" using assms dumps_fits by force
  with Inr show ?thesis by (simp add: body_outcome_def)
qed (use assms in \<open>simp add: body_outcome_def\<close>)

lemma settles_final:
  assumes "settles fits race" "fits_job fits j"
  shows "\<exists>j'. final_job S reg j race = Some j' \<and> \<not> stops_loop S reg j race \<and> fits_job fits j' \<and> terminal (status j') \<and> jid j' = jid j"
proof -
  have out: "\<exists>j'. body_outcome S j r = Some j' \<and> fits_job fits j' \<and> terminal (status j') \<and> jid j' = jid j"
    if "case r of Inl e \<Rightarrow> is_Exception e | Inr v \<Rightarrow> fits v" for r
    using that assms(2) unfolding body_of_fitting [OF that] by (cases r) (simp_all add: fits_job_def terminal_def)
  have "\<exists>j'. settled_job S reg j ending = Some j' \<and> fits_job fits j' \<and> terminal (status j') \<and> jid j' = jid j"
    if "case ending of JobDone r \<Rightarrow> (case r of Inl e \<Rightarrow> is_Exception e | Inr v \<Rightarrow> fits v)
      | WatcherDied e r \<Rightarrow> (case r of Inl e \<Rightarrow> is_Exception e | Inr v \<Rightarrow> fits v) | CancelSeen u \<Rightarrow> True" for ending
  proof -
    have "fits_job fits (j\<lparr>status := CANCELLED\<rparr>)" "fits_job fits (j\<lparr>error := x, status := FAILED\<rparr>)" for x
      using assms(2) by (simp_all add: fits_job_def)
    with that out show ?thesis by (cases ending) (auto simp: settled_job_def terminal_def)
  qed
  moreover obtain ending where e: "race = Ends ending" "case ending of JobDone r \<Rightarrow> (case r of Inl e \<Rightarrow> is_Exception e | Inr v \<Rightarrow> fits v)
      | WatcherDied e r \<Rightarrow> (case r of Inl e \<Rightarrow> is_Exception e | Inr v \<Rightarrow> fits v) | CancelSeen u \<Rightarrow> True"
    using assms(1) by (cases race) (auto simp: settles_def Let_def)
  ultimately show ?thesis by (fastforce simp: final_job_def stops_loop_def)
qed

text \<open>A job that was just spawned, served: it is finished, and its outcome is the one of the call.\<close>

lemma call_done:
  assumes "settles fits race" "fits_job fits (call_job gid now c)" "j = (call_job gid now c)\<lparr>status := QUEUED\<rparr>"
  shows "fits_job fits (done_job S norm reg j race)" "terminal (status (done_job S norm reg j race))"
    "jid (done_job S norm reg j race) = c_fresh c"
    "final_job S reg (norm_job norm (j\<lparr>status := RUNNING, attempts := attempts j + 1\<rparr>)) race = Some (done_job S norm reg j race)"
    "\<not> stops_loop S reg (norm_job norm (j\<lparr>status := RUNNING, attempts := attempts j + 1\<rparr>)) race"
    "job_outcome (c_fresh c) (norm_job norm (done_job S norm reg j race)) = call_outcome S norm reg c race"
proof -
  let ?c = "norm_job norm (j\<lparr>status := RUNNING, attempts := attempts j + 1\<rparr>)"
  have "fits_job fits (j\<lparr>status := RUNNING, attempts := attempts j + 1\<rparr>)"
    using assms(2) by (simp add: assms(3) fits_job_def)
  from settles_final [OF assms(1) fits_norm_job [OF this], of reg] obtain j' where
    j': "final_job S reg ?c race = Some j'" "\<not> stops_loop S reg ?c race" "fits_job fits j'" "terminal (status j')" "jid j' = jid ?c"
    by blast
  have d: "done_job S norm reg j race = j'" using j'(1) by (simp add: done_job_def)
  show "fits_job fits (done_job S norm reg j race)" "terminal (status (done_job S norm reg j race))"
    "final_job S reg ?c race = Some (done_job S norm reg j race)" "\<not> stops_loop S reg ?c race"
    using j' by (simp_all add: d)
  have i: "jid j = c_fresh c" by (simp add: assms(3) call_job_def Job_init_def)
  then show "jid (done_job S norm reg j race) = c_fresh c" using j'(5) by (simp add: d norm_job_def)
  have f: "\<not> request_cancel ?c" "task_name ?c = t_name (c_task c)"
    by (simp_all add: assms(3) call_job_def Job_init_def norm_job_def)
  have body: "job_outcome (c_fresh c) (norm_job norm x) =
      (case r of Inl e \<Rightarrow> Inl (RuntimeError (''job '' @ py_repr (c_fresh c) @ '' failed: '' @ py_str_exc e)) | Inr v \<Rightarrow> Inr (norm v))"
    if "body_outcome S ?c r = Some x" "case r of Inl e \<Rightarrow> is_Exception e | Inr v \<Rightarrow> fits v" for r x
    using that(1) unfolding body_of_fitting [OF that(2)] by (cases r) (auto simp: job_outcome_def norm_job_def)
  obtain ending where e: "race = Ends ending" using assms(1) by (cases race) (auto simp: settles_def Let_def)
  show "job_outcome (c_fresh c) (norm_job norm (done_job S norm reg j race)) = call_outcome S norm reg c race"
  proof (cases "map_of reg (t_name (c_task c)) = None")
    case True
    with j'(1) f have "j' = ?c\<lparr>error := Some (''no task is registered under the name '' @ py_repr (t_name (c_task c))), status := FAILED\<rparr>"
      by (simp add: e final_job_def settled_job_def)
    then show ?thesis using True unfolding d by (simp add: call_outcome_def Let_def job_outcome_def norm_job_def)
  next
    case False
    then obtain t where t: "map_of reg (t_name (c_task c)) = Some t" by auto
    show ?thesis
    proof (cases ending)
      case (JobDone r)
      with t j'(1) f have "body_outcome S ?c r = Some j'" by (simp add: e final_job_def settled_job_def)
      moreover have "case r of Inl e \<Rightarrow> is_Exception e | Inr v \<Rightarrow> fits v"
        using assms(1) by (simp add: settles_def Let_def e JobDone)
      ultimately have o: "job_outcome (c_fresh c) (norm_job norm j') =
        (case r of Inl e \<Rightarrow> Inl (RuntimeError (''job '' @ py_repr (c_fresh c) @ '' failed: '' @ py_str_exc e)) | Inr v \<Rightarrow> Inr (norm v))"
        by (rule body)
      show ?thesis unfolding d o using t by (simp add: call_outcome_def Let_def e JobDone split: sum.split)
    next
      case (WatcherDied x r)
      with t j'(1) f have "body_outcome S ?c r = Some j'" by (simp add: e final_job_def settled_job_def)
      moreover have "case r of Inl e \<Rightarrow> is_Exception e | Inr v \<Rightarrow> fits v"
        using assms(1) by (simp add: settles_def Let_def e WatcherDied)
      ultimately have o: "job_outcome (c_fresh c) (norm_job norm j') =
        (case r of Inl e \<Rightarrow> Inl (RuntimeError (''job '' @ py_repr (c_fresh c) @ '' failed: '' @ py_str_exc e)) | Inr v \<Rightarrow> Inr (norm v))"
        by (rule body)
      show ?thesis unfolding d o using t by (simp add: call_outcome_def Let_def e WatcherDied split: sum.split)
    next
      case (CancelSeen u)
      with t j'(1) f have "j' = ?c\<lparr>status := CANCELLED\<rparr>" by (auto simp: e final_job_def settled_job_def)
      then show ?thesis using t unfolding d by (simp add: call_outcome_def Let_def job_outcome_def norm_job_def e CancelSeen)
    qed
  qed
qed

text \<open>Spawning a list of calls whose ids are new.\<close>

lemma spawn_all_new:
  assumes "inv s" "g_entered g" "distinct (map c_fresh cs)"
    "\<forall>c \<in> set cs. view s (c_fresh c) = None \<and> fits_job fits (call_job (Some (g_id g)) now c)"
  shows "\<exists>s'. spawn_all S B now None cs g s =
      (Inr (map (\<lambda>c. JobHandle_init (c_fresh c)) cs), None, fold group_register (map (\<lambda>c. JobHandle_init (c_fresh c)) cs) g, s') \<and>
    inv s' \<and> waiting s' = waiting s @ map c_fresh cs \<and>
    (\<forall>c \<in> set cs. view s' (c_fresh c) = job_view S ((call_job (Some (g_id g)) now c)\<lparr>status := QUEUED\<rparr>)) \<and>
    (\<forall>i. i \<notin> c_fresh ` set cs \<longrightarrow> view s' i = view s i)"
  using assms
proof (induction cs arbitrary: g s)
  case (Cons c cs)
  let ?j = "call_job (Some (g_id g)) now c" and ?h = "JobHandle_init (c_fresh c)"
  have i: "jid ?j = c_fresh c" by (simp add: call_job_def Job_init_def)
  have vj: "view s (jid ?j) = None" "fits_job fits ?j" using Cons.prems(4) i by simp_all
  obtain s1 where s1: "submit S B (c_task c) (c_fresh c) now (Some (g_id g)) None (c_args c) (c_kwargs c) s = (Inr ?h, s1)"
    "inv s1" "waiting s1 = waiting s @ [c_fresh c]" "view s1 = (view s)(c_fresh c := job_view S (?j\<lparr>status := QUEUED\<rparr>))"
    using submit_new [OF Cons.prems(1) vj call_job_def] unfolding i by blast
  have g1: "group_spawn S B (c_task c) (c_fresh c) now None (c_args c) (c_kwargs c) g s = (Inr ?h, None, group_register ?h g, s1)"
    using s1(1) Cons.prems(2) by (simp add: group_spawn_def child_id_def)
  have e: "g_entered (group_register ?h g)" "g_id (group_register ?h g) = g_id g"
    using Cons.prems(2) by (simp_all add: group_register_def Let_def)
  have d: "distinct (map c_fresh cs)" "c_fresh c \<notin> c_fresh ` set cs" using Cons.prems(3) by simp_all
  have ne: "\<forall>x \<in> set cs. c_fresh x \<noteq> c_fresh c" using d(2) by (metis imageI)
  have rest: "\<forall>x \<in> set cs. view s1 (c_fresh x) = None \<and> fits_job fits (call_job (Some (g_id (group_register ?h g))) now x)"
    using Cons.prems(4) ne by (simp add: s1(4) e(2))
  from Cons.IH [OF s1(2) e(1) d(1) rest] obtain s' where s': "spawn_all S B now None cs (group_register ?h g) s1 =
      (Inr (map (\<lambda>c. JobHandle_init (c_fresh c)) cs), None,
       fold group_register (map (\<lambda>c. JobHandle_init (c_fresh c)) cs) (group_register ?h g), s')"
    "inv s'" "waiting s' = waiting s1 @ map c_fresh cs"
    "\<forall>x \<in> set cs. view s' (c_fresh x) = job_view S ((call_job (Some (g_id g)) now x)\<lparr>status := QUEUED\<rparr>)"
    "\<forall>i. i \<notin> c_fresh ` set cs \<longrightarrow> view s' i = view s1 i"
    unfolding e(2) by blast
  have "view s' (c_fresh c) = job_view S (?j\<lparr>status := QUEUED\<rparr>)" using s'(5) d(2) by (simp add: s1(4))
  then show ?case using s' s1(3) g1 by (intro exI [of _ s']) (auto simp: s1(4))
qed simp

text \<open>A loop that serves a list of waiting jobs leaves each as its race made it.\<close>

lemma loop_outcomes:
  assumes "inv s" "waiting s = map jid js @ q" "distinct (map jid js)" "length races = length js"
    "\<forall>j \<in> set js. view s (jid j) = job_view S j \<and> fits_job fits j \<and> \<not> terminal (status j) \<and> error j = None \<and>
       0 \<le> attempts j \<and> attempts j < max_attempts"
    "\<forall>race \<in> set races. settles fits race"
  shows "\<exists>s'. worker_loop S B reg races s = (Continue, s') \<and> inv s' \<and> waiting s' = q \<and>
    (\<forall>(j, race) \<in> set (zip js races). view s' (jid j) = job_view S (done_job S norm reg j race)) \<and>
    (\<forall>i. i \<notin> jid ` set js \<longrightarrow> view s' i = view s i)"
  using assms
proof (induction js arbitrary: s races)
  case (Cons j js)
  obtain race races' where races: "races = race # races'" using Cons.prems(4) by (cases races) auto
  let ?c = "j\<lparr>status := RUNNING, attempts := attempts j + 1\<rparr>" and ?d = "done_job S norm reg j race"
  have j: "view s (jid j) = job_view S j" "fits_job fits j" "\<not> terminal (status j)" "error j = None" "0 \<le> attempts j"
    "attempts j < max_attempts" using Cons.prems(5) by simp_all
  have jv: "job_view S j \<noteq> None" using job_view_total [OF j(2)] by auto
  have "fits_job fits ?c" using j(2) by (simp add: fits_job_def)
  from settles_final [OF _ fits_norm_job [OF this], of race reg] Cons.prems(6) races obtain j' where
    "final_job S reg (norm_job norm ?c) race = Some j'" "\<not> stops_loop S reg (norm_job norm ?c) race" by auto
  then have f: "final_job S reg (norm_job norm ?c) race = Some ?d" "\<not> stops_loop S reg (norm_job norm ?c) race"
    by (simp_all add: done_job_def)
  obtain s1 where s1: "worker_iteration S B reg race s = (Continue, s1)" "inv s1" "waiting s1 = map jid js @ q"
    "view s1 = (view s)(jid j := job_view S ?d)"
    using iteration_spec [OF Cons.prems(1) _ j(1) jv j(2-6) refl, of "map jid js @ q" reg race] Cons.prems(2) f by auto
  have n: "jid j \<notin> jid ` set js" and dj: "distinct (map jid js)" using Cons.prems(3) by simp_all
  have v: "\<forall>x \<in> set js. view s1 (jid x) = job_view S x \<and> fits_job fits x \<and> \<not> terminal (status x) \<and> error x = None \<and>
       0 \<le> attempts x \<and> attempts x < max_attempts"
  proof
    fix x assume x: "x \<in> set js"
    then have "jid x \<noteq> jid j" using n by (metis imageI)
    with Cons.prems(5) x show "view s1 (jid x) = job_view S x \<and> fits_job fits x \<and> \<not> terminal (status x) \<and> error x = None \<and>
       0 \<le> attempts x \<and> attempts x < max_attempts" by (simp add: s1(4))
  qed
  have l: "length races' = length js" "\<forall>race \<in> set races'. settles fits race" using Cons.prems(4,6) races by simp_all
  from Cons.IH [OF s1(2,3) dj l(1) v l(2)] obtain s' where s': "worker_loop S B reg races' s1 = (Continue, s')" "inv s'" "waiting s' = q"
    "\<forall>(x, r) \<in> set (zip js races'). view s' (jid x) = job_view S (done_job S norm reg x r)"
    "\<forall>i. i \<notin> jid ` set js \<longrightarrow> view s' i = view s1 i" by blast
  have "view s' (jid j) = job_view S ?d" using s'(5) n by (simp add: s1(4))
  then show ?case using s' s1(1) by (intro exI [of _ s']) (auto simp: races s1(4))
qed simp

text \<open>The waiters of finished jobs: each gets its outcome, frees its record, and leaves a handle that
  answers by itself from then on.\<close>

lemma waiters_collect:
  assumes "inv s" "distinct is" "length js = length is"
    "\<forall>(i, j) \<in> set (zip is js). view s i = job_view S j \<and> fits_job fits j \<and> terminal (status j)"
    "outs = map2 (\<lambda>i j. job_outcome i (norm_job norm j)) is js"
  shows "\<exists>hs s'. run_waiters S B k (map JobHandle_init is) g s = (hs, finish_from k outs g, s') \<and> inv s' \<and>
    waiting s' = waiting s \<and> view s' = (\<lambda>i. if i \<in> set is then None else view s i) \<and> length hs = length is \<and>
    (\<forall>t. map (\<lambda>h. handle_result S B h t) hs = map2 (\<lambda>out h. (Ready out, h, t)) outs hs) \<and>
    (\<forall>t. map (\<lambda>h. handle_status B h t) hs = map (\<lambda>out. Inr (outcome_status out)) outs)"
  using assms
proof (induction "is" arbitrary: js outs k g s)
  case (Cons i "is")
  obtain j js' where js: "js = j # js'" using Cons.prems(3) by (cases js) auto
  let ?out = "job_outcome i (norm_job norm j)"
  have j: "view s i = job_view S j" "fits_job fits j" "terminal (status j)" using Cons.prems(4) js by simp_all
  have jv: "view s i \<noteq> None" using job_view_total [OF j(2)] j(1) by auto
  obtain h s1 where s1: "handle_result S B (JobHandle_init i) s = (Ready ?out, h, s1)" "inv s1" "view s1 = (view s)(i := None)"
    "waiting s1 = waiting s" "\<forall>t. handle_result S B h t = (Ready ?out, h, t)" "\<forall>t. handle_status B h t = Inr (outcome_status ?out)"
    unfolding outcome_status_terminal [OF j(3)]
    using result_finished [OF Cons.prems(1) j(2,1) jv j(3), of "JobHandle_init i"] by (auto simp: JobHandle_init_def)
  have d: "i \<notin> set is" "distinct is" using Cons.prems(2) by simp_all
  have v: "\<forall>(x, y) \<in> set (zip is js'). view s1 x = job_view S y \<and> fits_job fits y \<and> terminal (status y)"
    using Cons.prems(4) d(1) by (auto simp: js s1(3) dest: set_zip_leftD)
  have l: "length js' = length is" using Cons.prems(3) js by simp
  from Cons.IH [OF s1(2) d(2) l v refl, of "Suc k" "waiter_done k ?out g"] obtain hs s' where
    s': "run_waiters S B (Suc k) (map JobHandle_init is) (waiter_done k ?out g) s1 =
      (hs, finish_from (Suc k) (map2 (\<lambda>i j. job_outcome i (norm_job norm j)) is js') (waiter_done k ?out g), s')"
    "inv s'" "waiting s' = waiting s1" "view s' = (\<lambda>x. if x \<in> set is then None else view s1 x)" "length hs = length is"
    "\<forall>t. map (\<lambda>h. handle_result S B h t) hs =
       map2 (\<lambda>out h. (Ready out, h, t)) (map2 (\<lambda>i j. job_outcome i (norm_job norm j)) is js') hs"
    "\<forall>t. map (\<lambda>h. handle_status B h t) hs =
       map (\<lambda>out. Inr (outcome_status out)) (map2 (\<lambda>i j. job_outcome i (norm_job norm j)) is js')" by blast
  show ?case
    by (intro exI [of _ "h # hs"] exI [of _ s'] conjI) (use s' s1 in \<open>auto simp: Cons.prems(5) js fun_eq_iff\<close>)
qed simp

text \<open>Serving the spawned jobs leaves each finished with the outcome of its call.\<close>

lemma serve_calls:
  assumes "inv s" "waiting s = map c_fresh cs" "distinct (map c_fresh cs)"
    "\<forall>c \<in> set cs. view s (c_fresh c) = job_view S ((call_job gid now c)\<lparr>status := QUEUED\<rparr>) \<and> fits_job fits (call_job gid now c)"
    "length races = length cs" "\<forall>race \<in> set races. settles fits race"
    "ds = map2 (\<lambda>c race. done_job S norm reg ((call_job gid now c)\<lparr>status := QUEUED\<rparr>) race) cs races"
  shows "\<exists>s'. worker_loop S B reg races s = (Continue, s') \<and> inv s' \<and> waiting s' = [] \<and>
    (\<forall>(i, j) \<in> set (zip (map c_fresh cs) ds). view s' i = job_view S j \<and> fits_job fits j \<and> terminal (status j)) \<and>
    (\<forall>i. i \<notin> c_fresh ` set cs \<longrightarrow> view s' i = view s i)"
proof -
  let ?js = "map (\<lambda>c. (call_job gid now c)\<lparr>status := QUEUED\<rparr>) cs"
  have ids: "map jid ?js = map c_fresh cs" by (simp add: call_job_def Job_init_def)
  then have im: "jid ` set ?js = c_fresh ` set cs" by (metis set_map)
  have wait: "waiting s = map jid ?js @ []" "distinct (map jid ?js)" unfolding ids using assms(2,3) by simp_all
  have js: "\<forall>j \<in> set ?js. view s (jid j) = job_view S j \<and> fits_job fits j \<and> \<not> terminal (status j) \<and> error j = None \<and>
       0 \<le> attempts j \<and> attempts j < max_attempts"
  proof
    fix j assume "j \<in> set ?js"
    then obtain c where c: "c \<in> set cs" "j = (call_job gid now c)\<lparr>status := QUEUED\<rparr>" by auto
    have "fits_job fits j" using assms(4) c by (simp add: fits_job_def)
    with assms(4) c show "view s (jid j) = job_view S j \<and> fits_job fits j \<and> \<not> terminal (status j) \<and> error j = None \<and>
       0 \<le> attempts j \<and> attempts j < max_attempts"
      by (simp add: call_job_def Job_init_def terminal_def max_attempts_def)
  qed
  have len: "length races = length ?js" using assms(5) by simp
  obtain s2 where s2: "worker_loop S B reg races s = (Continue, s2)" "inv s2" "waiting s2 = []"
    "\<forall>(j, race) \<in> set (zip ?js races). view s2 (jid j) = job_view S (done_job S norm reg j race)"
    "\<forall>i. i \<notin> jid ` set ?js \<longrightarrow> view s2 i = view s i"
    using loop_outcomes [OF assms(1) wait len js assms(6), of reg] by blast
  have "\<forall>(i, j) \<in> set (zip (map c_fresh cs) ds). view s2 i = job_view S j \<and> fits_job fits j \<and> terminal (status j)"
  proof (intro ballI, clarsimp simp: set_zip assms(7))
    fix k assume k: "k < length cs" "k < length races"
    let ?j = "(call_job gid now (cs ! k))\<lparr>status := QUEUED\<rparr>"
    have "(?j, races ! k) \<in> set (zip ?js races)" using k by (auto simp: set_zip intro!: exI [of _ k])
    then have "view s2 (jid ?j) = job_view S (done_job S norm reg ?j (races ! k))" using s2(4) by fast
    moreover have "jid ?j = c_fresh (cs ! k)" by (simp add: call_job_def Job_init_def)
    ultimately show "view s2 (c_fresh (cs ! k)) = job_view S (done_job S norm reg ?j (races ! k)) \<and>
        fits_job fits (done_job S norm reg ?j (races ! k)) \<and> terminal (status (done_job S norm reg ?j (races ! k)))"
      using call_done(1,2) [of "races ! k" gid now "cs ! k" _ reg, OF _ _ refl] assms(4,6) k by simp
  qed
  with s2(1-3,5) show ?thesis unfolding im by (intro exI [of _ s2]) simp
qed

lemma call_outcomes:
  assumes "length races = length cs" "\<forall>race \<in> set races. settles fits race" "\<forall>c \<in> set cs. fits_job fits (call_job gid now c)"
  shows "map2 (call_outcome S norm reg) cs races = map2 (\<lambda>i j. job_outcome i (norm_job norm j)) (map c_fresh cs)
    (map2 (\<lambda>c race. done_job S norm reg ((call_job gid now c)\<lparr>status := QUEUED\<rparr>) race) cs races)"
proof (rule nth_equalityI)
  fix k assume "k < length (map2 (call_outcome S norm reg) cs races)"
  then have k: "k < length cs" "k < length races" by simp_all
  with call_done(6) [of "races ! k" gid now "cs ! k" _ reg, OF _ _ refl] assms(2,3)
  show "map2 (call_outcome S norm reg) cs races ! k = map2 (\<lambda>i j. job_outcome i (norm_job norm j)) (map c_fresh cs)
    (map2 (\<lambda>c race. done_job S norm reg ((call_job gid now c)\<lparr>status := QUEUED\<rparr>) race) cs races) ! k" by simp
qed (use assms(1) in simp)

text \<open>Spawning, serving and collecting: the store is as before, and the outcomes are those of the calls.\<close>

lemma spawn_serve_collect:
  assumes "inv s" "waiting s = []" "g_entered g" "distinct (map c_fresh cs)"
    "\<forall>c \<in> set cs. view s (c_fresh c) = None \<and> fits_job fits (call_job (Some (g_id g)) now c)"
    "length races = length cs" "\<forall>race \<in> set races. settles fits race" "outs = map2 (call_outcome S norm reg) cs races"
    "hs = map (\<lambda>c. JobHandle_init (c_fresh c)) cs" "g1 = fold group_register hs g"
  shows "\<exists>s1 s2 hs' s3. spawn_all S B now None cs g s = (Inr hs, None, g1, s1) \<and>
    worker_loop S B reg races s1 = (Continue, s2) \<and>
    run_waiters S B 0 hs g1 s2 = (hs', finish_from 0 outs g1, s3) \<and> inv s3 \<and> view s3 = view s \<and> waiting s3 = [] \<and>
    length hs' = length cs \<and> (\<forall>t. map (\<lambda>h. handle_result S B h t) hs' = map2 (\<lambda>out h. (Ready out, h, t)) outs hs') \<and>
    (\<forall>t. map (\<lambda>h. handle_status B h t) hs' = map (\<lambda>out. Inr (outcome_status out)) outs)"
proof -
  obtain s1 where s1: "spawn_all S B now None cs g s = (Inr hs, None, g1, s1)" "inv s1" "waiting s1 = map c_fresh cs"
    "\<forall>c \<in> set cs. view s1 (c_fresh c) = job_view S ((call_job (Some (g_id g)) now c)\<lparr>status := QUEUED\<rparr>)"
    "\<forall>i. i \<notin> c_fresh ` set cs \<longrightarrow> view s1 i = view s i"
    using spawn_all_new [OF assms(1,3-5)] assms(2,9,10) by auto
  let ?ds = "map2 (\<lambda>c race. done_job S norm reg ((call_job (Some (g_id g)) now c)\<lparr>status := QUEUED\<rparr>) race) cs races"
  have v1: "\<forall>c \<in> set cs. view s1 (c_fresh c) = job_view S ((call_job (Some (g_id g)) now c)\<lparr>status := QUEUED\<rparr>) \<and>
      fits_job fits (call_job (Some (g_id g)) now c)" using s1(4) assms(5) by blast
  obtain s2 where s2: "worker_loop S B reg races s1 = (Continue, s2)" "inv s2" "waiting s2 = []"
    "\<forall>(i, j) \<in> set (zip (map c_fresh cs) ?ds). view s2 i = job_view S j \<and> fits_job fits j \<and> terminal (status j)"
    "\<forall>i. i \<notin> c_fresh ` set cs \<longrightarrow> view s2 i = view s1 i"
    using serve_calls [OF s1(2,3) assms(4) v1 assms(6,7) refl, of reg] by blast
  have lds: "length ?ds = length (map c_fresh cs)" using assms(6) by simp
  have outs: "outs = map2 (\<lambda>i j. job_outcome i (norm_job norm j)) (map c_fresh cs) ?ds"
    unfolding assms(8) by (rule call_outcomes) (use assms(5-7) in auto)
  obtain hs' s3 where s3: "run_waiters S B 0 (map JobHandle_init (map c_fresh cs)) g1 s2 = (hs', finish_from 0 outs g1, s3)"
    "inv s3" "waiting s3 = waiting s2" "view s3 = (\<lambda>i. if i \<in> set (map c_fresh cs) then None else view s2 i)"
    "length hs' = length (map c_fresh cs)"
    "\<forall>t. map (\<lambda>h. handle_result S B h t) hs' = map2 (\<lambda>out h. (Ready out, h, t)) outs hs'"
    "\<forall>t. map (\<lambda>h. handle_status B h t) hs' = map (\<lambda>out. Inr (outcome_status out)) outs"
    using waiters_collect [OF s2(2) assms(4) lds s2(4) outs, of 0 g1] by blast
  have hs: "map JobHandle_init (map c_fresh cs) = hs" using assms(9) by simp
  have "view s3 = view s"
  proof
    fix i
    show "view s3 i = view s i" using assms(5) s1(5) s2(5) by (cases "i \<in> c_fresh ` set cs") (auto simp: s3(4))
  qed
  with s1(1) s2(1,3) s3(2,3,5,6,7) s3(1) [unfolded hs] show ?thesis by (intro exI conjI) (assumption+, simp_all)
qed

end

text \<open>Answers that handles keep are read off in order.\<close>

lemma results_kept:
  assumes "\<forall>t. map (\<lambda>h. handle_result S B h t) hs = map2 (\<lambda>out h. (Ready out, h, t)) (map Inr vs) hs" "length hs = length vs"
  shows "results S B hs t = (Ready (Inr vs), hs, t)"
  using assms(2,1)
proof (induction hs vs arbitrary: t rule: list_induct2)
  case (Cons h hs v vs)
  from Cons(3) have h: "handle_result S B h t = (Ready (Inr v), h, t)" for t by simp
  have "\<forall>t. map (\<lambda>h. handle_result S B h t) hs = map2 (\<lambda>out h. (Ready out, h, t)) (map Inr vs) hs" using Cons(3) by simp
  from Cons(2) [OF this] h show ?case by simp
qed simp

section \<open>Properties\<close>

text \<open>The composition of the parts, for the property below and for the programs that use it.\<close>

lemma scope_verdict:
  assumes "g_entered g" "g_id g = gid" "g_waiters g = []" "g_failures g = []" "Inr (g_on_error g) = OnError_of mode"
    "g1 = fold group_register hs g" "hs = map (\<lambda>c. JobHandle_init (c_fresh c)) cs" "cs \<noteq> []" "length races = length cs"
    "outs = map2 (call_outcome S canon reg) cs races" "mode = ''cancel_siblings'' \<longrightarrow> errors_of outs = []"
  shows "fst (group_exit B None JoinOn (finish_from 0 outs g1) s) =
      (if mode = ''collect'' \<and> errors_of outs \<noteq> []
       then ExitGroup (''one or more jobs in group '' @ gid @ '' failed'') (errors_of outs) else ExitNormal)"
proof -
  note reg1 = register_all [OF assms(1), of hs, folded assms(6)]
  have w1: "g_waiters g1 = map (\<lambda>i. (i, Waiting)) (map c_fresh cs)" using reg1(1) assms(3,7) by (simp add: JobHandle_init_def comp_def)
  have h1: "g_handles g1 \<noteq> []" using reg1(6) assms(7,8) by simp
  let ?g2 = "finish_from 0 outs g1"
  have lo: "length outs = length (map c_fresh cs)" "outs \<noteq> []" using assms(8,9,10) by auto
  have w2: "g_waiters ?g2 = map2 (\<lambda>i r. (i, Finished r)) (map c_fresh cs) outs"
    using finish_waiters [of g1 "[]" "map c_fresh cs" "[]" 0 outs] w1 lo by simp
  have f2: "g_handles ?g2 \<noteq> []" "g_failures ?g2 = []" "g_id ?g2 = gid" "g_on_error ?g2 = g_on_error g"
    using h1 reg1(3-5) assms(2,4) by (simp_all add: finish_frame)
  show ?thesis
    unfolding all_ended_exit(2) [OF w2 lo(1) [symmetric] lo(2) f2(1,2)] f2(3,4)
    using assms(5,11) by (cases "g_on_error g") (auto simp: OnError_of_def split: if_splits)
qed

lemma scope_runs:
  assumes "client B valid view waiting S canon fits" "valid s" "waiting s = []"
    "JobGroup_init gid mode deadline = Inr g0" "g = group_enter clk g0" "cs \<noteq> []" "distinct (map c_fresh cs)"
    "\<forall>c \<in> set cs. view s (c_fresh c) = None \<and> fits_job fits (call_job (Some gid) now c)"
    "length races = length cs" "\<forall>race \<in> set races. settles fits race"
    "outs = map2 (call_outcome S canon reg) cs races" "mode = ''cancel_siblings'' \<longrightarrow> errors_of outs = []"
  shows "\<exists>hs g1 s1 s2 hs' g2 s3. spawn_all S B now None cs g s = (Inr hs, None, g1, s1) \<and>
    fst (group_exit B None JoinOn g1 s1) = ExitWaits \<and>
    worker_loop S B reg races s1 = (Continue, s2) \<and>
    run_waiters S B 0 hs g1 s2 = (hs', g2, s3) \<and> valid s3 \<and> view s3 = view s \<and> waiting s3 = [] \<and>
    fst (group_exit B None JoinOn g2 s3) =
      (if mode = ''collect'' \<and> errors_of outs \<noteq> []
       then ExitGroup (''one or more jobs in group '' @ gid @ '' failed'') (errors_of outs) else ExitNormal) \<and>
    length hs' = length cs \<and> (\<forall>t. map (\<lambda>h. handle_result S B h t) hs' = map2 (\<lambda>out h. (Ready out, h, t)) outs hs') \<and>
    (\<forall>t. map (\<lambda>h. handle_status B h t) hs' = map (\<lambda>out. Inr (outcome_status out)) outs)"
proof -
  let ?hs = "map (\<lambda>c. JobHandle_init (c_fresh c)) cs" and ?g1 = "fold group_register (map (\<lambda>c. JobHandle_init (c_fresh c)) cs) g"
  have g: "g_entered g" "g_id g = gid" "g_waiters g = []" "g_failures g = []" "Inr (g_on_error g) = OnError_of mode"
    using assms(4,5) by (auto simp: JobGroup_init_def group_enter_def rbind_Inr_iff)
  obtain s1 s2 hs' s3 where s: "spawn_all S B now None cs g s = (Inr ?hs, None, ?g1, s1)"
    "worker_loop S B reg races s1 = (Continue, s2)" "run_waiters S B 0 ?hs ?g1 s2 = (hs', finish_from 0 outs ?g1, s3)"
    "valid s3" "view s3 = view s" "waiting s3 = []" "length hs' = length cs"
    "\<forall>t. map (\<lambda>h. handle_result S B h t) hs' = map2 (\<lambda>out h. (Ready out, h, t)) outs hs'"
    "\<forall>t. map (\<lambda>h. handle_status B h t) hs' = map (\<lambda>out. Inr (outcome_status out)) outs"
    using client.spawn_serve_collect [OF assms(1-3) g(1) assms(7) _ assms(9-11) refl refl, of now] assms(8) g(2) by blast
  have reg1: "g_waiters ?g1 = map (\<lambda>i. (i, Waiting)) (map c_fresh cs)" "g_handles ?g1 \<noteq> []"
    using register_all(1,6) [OF g(1), of ?hs] g(3) assms(6) by (simp_all add: JobHandle_init_def comp_def)
  have exit1: "fst (group_exit B None JoinOn ?g1 s1) = ExitWaits" using waiting_exit [OF reg1(1) _ reg1(2)] assms(6) by simp
  let ?g2 = "finish_from 0 outs ?g1"
  have "fst (group_exit B None JoinOn ?g2 s3) =
      (if mode = ''collect'' \<and> errors_of outs \<noteq> []
       then ExitGroup (''one or more jobs in group '' @ gid @ '' failed'') (errors_of outs) else ExitNormal)"
    by (rule scope_verdict [OF g refl refl assms(6,9,11,12)])
  with s exit1 show ?thesis
    by (intro exI [of _ ?hs] exI [of _ ?g1] exI [of _ s1] exI [of _ s2] exI [of _ hs'] exI [of _ ?g2] exI [of _ s3] conjI)
qed

text \<open>(C5) A scope from end to end, over any store, in every mode. The body spawns any number of jobs; the scope
  waits while they run; worker loops serve them in order, with any mix of results, exceptions,
  unknown tasks and cancellations (in a \<open>cancel_siblings\<close> scope: results); the scope then ends,
  normally or, in \<open>collect\<close> mode, with exactly the failures in the order of the spawns. Every
  handle has the outcome and the status of its own call, the store is as it was before the scope,
  and later calls of \<open>result()\<close> and \<open>status()\<close> answer without it.\<close>

theorem scope_round_trip:
  assumes "client B valid view waiting S canon fits" "valid s" "waiting s = []"
    "JobGroup_init gid mode deadline = Inr g0" "g = group_enter clk g0" "cs \<noteq> []" "distinct (map c_fresh cs)"
    "\<forall>c \<in> set cs. view s (c_fresh c) = None \<and> fits_job fits (call_job (Some gid) now c)"
    "length races = length cs" "\<forall>race \<in> set races. settles fits race"
    "outs = map2 (call_outcome S canon reg) cs races" "mode = ''cancel_siblings'' \<longrightarrow> errors_of outs = []"
  shows "\<exists>hs g1 s1 s2 hs' g2 s3. spawn_all S B now None cs g s = (Inr hs, None, g1, s1) \<and>
    fst (group_exit B None JoinOn g1 s1) = ExitWaits \<and>
    worker_loop S B reg races s1 = (Continue, s2) \<and>
    run_waiters S B 0 hs g1 s2 = (hs', g2, s3) \<and> valid s3 \<and> view s3 = view s \<and> waiting s3 = [] \<and>
    fst (group_exit B None JoinOn g2 s3) =
      (if mode = ''collect'' \<and> errors_of outs \<noteq> []
       then ExitGroup (''one or more jobs in group '' @ gid @ '' failed'') (errors_of outs) else ExitNormal) \<and>
    length hs' = length cs \<and> (\<forall>t. map (\<lambda>h. handle_result S B h t) hs' = map2 (\<lambda>out h. (Ready out, h, t)) outs hs') \<and>
    (\<forall>t. map (\<lambda>h. handle_status B h t) hs' = map (\<lambda>out. Inr (outcome_status out)) outs)"
  by (rule scope_runs [OF assms])

definition demo_calls :: "spawn_call list" where
  "demo_calls = [\<lparr>c_task = demo_task, c_fresh = ''f1'', c_args = [PInt 4, PInt 11], c_kwargs = []\<rparr>,
     \<lparr>c_task = demo_task, c_fresh = ''f2'', c_args = [PStr ''x''], c_kwargs = []\<rparr>]"

lemma demo_calls_fit:
  "\<forall>c \<in> set demo_calls. mem_view mem_init (c_fresh c) = None \<and> fits_job json_fits (call_job gid demo_now c)"
  by (auto simp: demo_calls_def call_job_def Job_init_def fits_job_def demo_now_def valid_datetime_def days_in_month_def
      is_leap_def is_dict_def mem_view_def mem_init_def)

theorem scope_round_trip_witness:
  "\<exists>hs g1 s1 s2 hs' g2 s3. spawn_all JSONSerializer MemoryBackend demo_now None demo_calls
      (group_enter 0 \<lparr>g_id = ''g'', g_on_error = COLLECT, g_deadline = None, g_deadline_at = None, g_handles = [], g_waiters = [],
         g_failures = [], g_entered = False, g_cancelling = False, g_fanout = None, g_fanned = False, g_callbacks = []\<rparr>) mem_init =
      (Inr hs, None, g1, s1) \<and>
    worker_loop JSONSerializer MemoryBackend demo_reg
      [Ends (JobDone (Inr (PInt 15))), Ends (JobDone (Inl (ValueError ''no'')))] s1 = (Continue, s2) \<and>
    run_waiters JSONSerializer MemoryBackend 0 hs g1 s2 = (hs', g2, s3) \<and>
    fst (group_exit MemoryBackend None JoinOn g2 s3) =
      ExitGroup ''one or more jobs in group g failed'' [RuntimeError (''job '' @ py_repr ''f2'' @ '' failed: no'')]"
proof -
  let ?g0 = "\<lparr>g_id = ''g'', g_on_error = COLLECT, g_deadline = None, g_deadline_at = None, g_handles = [], g_waiters = [],
         g_failures = [], g_entered = False, g_cancelling = False, g_fanout = None, g_fanned = False, g_callbacks = []\<rparr>"
  let ?races = "[Ends (JobDone (Inr (PInt 15))), Ends (JobDone (Inl (ValueError ''no'')))]"
  have i: "JobGroup_init ''g'' ''collect'' None = Inr ?g0" by (simp add: JobGroup_init_def OnError_of_def)
  have w: "m_queue mem_init = []" by (simp add: mem_init_def)
  have c: "demo_calls \<noteq> []" "distinct (map c_fresh demo_calls)" "length ?races = length demo_calls" by (simp_all add: demo_calls_def)
  have r: "\<forall>race \<in> set ?races. settles json_fits race" by (simp add: settles_def)
  have o: "map2 (call_outcome JSONSerializer json_norm demo_reg) demo_calls ?races =
      [Inr (PInt 15), Inl (RuntimeError (''job '' @ py_repr ''f2'' @ '' failed: no''))]"
    by (simp add: demo_calls_def call_outcome_def demo_reg_def demo_task_def Let_def)
  have e: "errors_of [Inr (PInt 15), Inl (RuntimeError m)] = [RuntimeError m]" for m by (simp add: errors_of_def)
  note st = scope_round_trip [where reg = demo_reg and clk = 0, OF mem_client.client_axioms mem_inv_init w i refl c(1,2) demo_calls_fit c(3) r refl,
      unfolded o e]
  from st
  show ?thesis by auto
qed

end
