(* ===== verification/Fail_Fast.thy ===== *)
theory Fail_Fast
  imports Fan_Out
begin

text \<open>
  What \<open>cancel_siblings\<close> is for, from end to end: the jobs of a scope run on their workers, one of them
  fails, and the others are stopped. Composed from the worker, the done callback of the waiters, the
  fan-out, the watchers and the exit of the scope, over any store that keeps the contract
  (\<open>fail_fast\<close> in \<open>scope_semantics_tour.py\<close>, run 2 of \<open>nested_scopes_cancel_on_failure.py\<close>).
\<close>

section \<open>Loops that serve side by side\<close>

text \<open>Several loops of a pool, each with a claimed record in hand, end one after the other.\<close>

fun serve_all ::
  "serializer \<Rightarrow> 's backend \<Rightarrow> task_obj pydict \<Rightarrow> (hrecord \<times> race) list \<Rightarrow> 's \<Rightarrow> control list \<times> 's" where
  "serve_all S B reg [] s = ([], s)"
| "serve_all S B reg ((r, race) # xs) s =
     (case worker_serve S B reg r race s of
        (c, s') \<Rightarrow> (case serve_all S B reg xs s' of (cs, s'') \<Rightarrow> (c # cs, s'')))"

text \<open>A job that runs: its record was claimed, nobody has cancelled it, and its task is known.\<close>

definition held ::
  "serializer \<Rightarrow> (pyval \<Rightarrow> bool) \<Rightarrow> task_obj pydict \<Rightarrow> (string \<Rightarrow> rec_view option) \<Rightarrow> job \<Rightarrow> hrecord \<Rightarrow> bool" where
  "held S fits reg v j r \<longleftrightarrow> runs_in S v j \<and> fits_job fits j \<and> \<not> request_cancel j \<and>
     map_of reg (task_name j) \<noteq> None \<and> job_view S j = Some (map_of r)"

text \<open>A job that waits: nobody has claimed it, and nobody has cancelled it.\<close>

definition queued_in ::
  "serializer \<Rightarrow> (pyval \<Rightarrow> bool) \<Rightarrow> (string \<Rightarrow> rec_view option) \<Rightarrow> job \<Rightarrow> bool" where
  "queued_in S fits v j \<longleftrightarrow> v (jid j) = job_view S j \<and> fits_job fits j \<and> status j = QUEUED \<and> error j = None \<and>
     0 \<le> attempts j \<and> attempts j < max_attempts"

text \<open>Free loops of the pool, one after the other, each claim a job.\<close>

fun claim_all :: "'s backend \<Rightarrow> nat \<Rightarrow> 's \<Rightarrow> hrecord list \<times> 's" where
  "claim_all B 0 s = ([], s)"
| "claim_all B (Suc n) s =
     (case b_claim B s of
        (Inr (Some r), s') \<Rightarrow> (case claim_all B n s' of (rs, s'') \<Rightarrow> (r # rs, s''))
      | (_, s') \<Rightarrow> ([], s'))"

definition queued_call :: "string \<Rightarrow> datetime \<Rightarrow> spawn_call \<Rightarrow> job" where
  "queued_call gid now c = (call_job (Some gid) now c)\<lparr>status := QUEUED\<rparr>"

definition running_call :: "string \<Rightarrow> datetime \<Rightarrow> spawn_call \<Rightarrow> job" where
  "running_call gid now c = (call_job (Some gid) now c)\<lparr>status := RUNNING, attempts := 1\<rparr>"

definition cancelled_outcome :: "string \<Rightarrow> pyval res" where
  "cancelled_outcome i = Inl (JobCancelled (''job '' @ py_repr i @ '' was cancelled''))"

context client
begin

lemma claim_waiting:
  assumes "inv s" "waiting s = jid j # q" "view s (jid j) = job_view S j" "fits_job fits j" "\<not> terminal (status j)"
    "attempts j < max_attempts" "c = j\<lparr>status := RUNNING, attempts := attempts j + 1\<rparr>"
  shows "\<exists>r s'. b_claim B s = (Inr (Some r), s') \<and> inv s' \<and> waiting s' = q \<and> job_view S c = Some (map_of r) \<and>
    view s' = (view s)(jid j := job_view S c)"
proof -
  obtain m where m: "job_view S j = Some m" using job_view_total [OF assms(4)] by blast
  have st: "status j \<noteq> COMPLETED" using assms(5) by (auto simp: terminal_def)
  have act: "\<not> terminal_in m" using job_view_fields(4) [OF m] assms(5) by simp
  have v: "job_view S (j\<lparr>status := RUNNING\<rparr>) = Some (m(''status'' \<mapsto> Str (status_value RUNNING)))"
    using job_view_update(1) [OF m st] by simp
  have c: "job_view S c = Some (m(''status'' \<mapsto> Str (status_value RUNNING), ''attempts'' \<mapsto> Str (str_of_int (attempts j + 1))))"
    using job_view_update(2) [OF v, of "attempts j + 1"] by (simp add: assms(7))
  show ?thesis
    using claim_some [OF assms(1,2) _ act job_view_fields(2) [OF m] assms(6)] assms(3) m c by auto
qed

lemma claim_call:
  assumes "inv s" "waiting s = c_fresh c # q" "view s (c_fresh c) = job_view S ((call_job (Some gid) now c)\<lparr>status := QUEUED\<rparr>)"
    "fits_job fits (call_job (Some gid) now c)" "map_of reg (t_name (c_task c)) \<noteq> None"
  shows "\<exists>r s'. b_claim B s = (Inr (Some r), s') \<and> inv s' \<and> waiting s' = q \<and>
    held S fits reg (view s') (running_call gid now c) r \<and> (\<forall>i. i \<noteq> c_fresh c \<longrightarrow> view s' i = view s i)"
proof -
  let ?j = "(call_job (Some gid) now c)\<lparr>status := QUEUED\<rparr>" and ?c = "running_call gid now c"
  have j: "jid ?j = c_fresh c" "\<not> terminal (status ?j)" "attempts ?j < max_attempts"
    "?c = ?j\<lparr>status := RUNNING, attempts := attempts ?j + 1\<rparr>" "fits_job fits ?j" "fits_job fits ?c"
    using assms(4) by (simp_all add: call_job_def Job_init_def terminal_def max_attempts_def running_call_def fits_job_def)
  obtain r s' where s': "b_claim B s = (Inr (Some r), s')" "inv s'" "waiting s' = q" "job_view S ?c = Some (map_of r)"
    "view s' = (view s)(c_fresh c := job_view S ?c)"
    using claim_waiting [OF assms(1), of ?j q ?c] assms(2,3) j unfolding j(1) by blast
  have "held S fits reg (view s') ?c r"
    using s'(4,5) j(6) assms(5) by (simp add: held_def runs_in_def running_call_def call_job_def Job_init_def)
  with s' show ?thesis by auto
qed

lemma held_cong: "v (jid j) = w (jid j) \<Longrightarrow> held S fits reg v j r = held S fits reg w j r"
  by (simp add: held_def runs_in_def)

text \<open>Spawned jobs, once as many loops have claimed.\<close>

lemma claim_calls:
  assumes "inv s" "waiting s = map c_fresh cs @ q" "distinct (map c_fresh cs)"
    "\<forall>c \<in> set cs. view s (c_fresh c) = job_view S ((call_job (Some gid) now c)\<lparr>status := QUEUED\<rparr>) \<and>
       fits_job fits (call_job (Some gid) now c) \<and> map_of reg (t_name (c_task c)) \<noteq> None"
  shows "\<exists>rs s'. claim_all B (length cs) s = (rs, s') \<and> length rs = length cs \<and> inv s' \<and> waiting s' = q \<and>
    list_all2 (\<lambda>c r. held S fits reg (view s') (running_call gid now c) r) cs rs \<and>
    (\<forall>i. i \<notin> c_fresh ` set cs \<longrightarrow> view s' i = view s i)"
  using assms
proof (induction cs arbitrary: s)
  case (Cons c cs)
  have c: "view s (c_fresh c) = job_view S ((call_job (Some gid) now c)\<lparr>status := QUEUED\<rparr>)"
    "fits_job fits (call_job (Some gid) now c)" "map_of reg (t_name (c_task c)) \<noteq> None" using Cons.prems(4) by simp_all
  have w: "waiting s = c_fresh c # map c_fresh cs @ q" using Cons.prems(2) by simp
  obtain r s1 where s1: "b_claim B s = (Inr (Some r), s1)" "inv s1" "waiting s1 = map c_fresh cs @ q"
    "held S fits reg (view s1) (running_call gid now c) r" "\<forall>i. i \<noteq> c_fresh c \<longrightarrow> view s1 i = view s i"
    using claim_call [OF Cons.prems(1) w c] by blast
  have n: "c_fresh c \<notin> c_fresh ` set cs" "distinct (map c_fresh cs)" using Cons.prems(3) by simp_all
  have "\<forall>x \<in> set cs. view s1 (c_fresh x) = job_view S ((call_job (Some gid) now x)\<lparr>status := QUEUED\<rparr>) \<and>
      fits_job fits (call_job (Some gid) now x) \<and> map_of reg (t_name (c_task x)) \<noteq> None"
  proof
    fix x assume x: "x \<in> set cs"
    then have "c_fresh x \<noteq> c_fresh c" using n(1) by (metis imageI)
    with Cons.prems(4) x s1(5) show "view s1 (c_fresh x) = job_view S ((call_job (Some gid) now x)\<lparr>status := QUEUED\<rparr>) \<and>
      fits_job fits (call_job (Some gid) now x) \<and> map_of reg (t_name (c_task x)) \<noteq> None" by simp
  qed
  from Cons.IH [OF s1(2,3) n(2) this] obtain rs s' where s': "claim_all B (length cs) s1 = (rs, s')" "length rs = length cs"
    "inv s'" "waiting s' = q" "list_all2 (\<lambda>c r. held S fits reg (view s') (running_call gid now c) r) cs rs"
    "\<forall>i. i \<notin> c_fresh ` set cs \<longrightarrow> view s' i = view s1 i" by blast
  have "view s' (jid (running_call gid now c)) = view s1 (jid (running_call gid now c))"
    using s'(6) n(1) by (simp add: running_call_def call_job_def Job_init_def)
  then have "held S fits reg (view s') (running_call gid now c) r" using s1(4) held_cong [of "view s'" _ "view s1"] by blast
  with s' s1(1,5) show ?case by (intro exI [of _ "r # rs"] exI [of _ s']) simp
qed simp

lemma scope_starts:
  assumes "inv s" "waiting s = []" "g_entered g" "g_id g = gid" "distinct (map c_fresh (cs @ zs))"
    "\<forall>x \<in> set (cs @ zs). view s (c_fresh x) = None \<and> fits_job fits (call_job (Some gid) now x) \<and>
       map_of reg (t_name (c_task x)) \<noteq> None"
    "hs = map (\<lambda>c. JobHandle_init (c_fresh c)) (cs @ zs)" "g1 = fold group_register hs g"
  shows "\<exists>s0 rs s1. spawn_all S B now None (cs @ zs) g s = (Inr hs, None, g1, s0) \<and>
    claim_all B (length cs) s0 = (rs, s1) \<and> length rs = length cs \<and> inv s1 \<and> waiting s1 = map c_fresh zs \<and>
    list_all2 (\<lambda>x r. held S fits reg (view s1) (running_call gid now x) r) cs rs \<and>
    (\<forall>x \<in> set zs. queued_in S fits (view s1) (queued_call gid now x)) \<and>
    (\<forall>i. i \<notin> c_fresh ` set (cs @ zs) \<longrightarrow> view s1 i = view s i)"
proof -
  let ?cs = "cs @ zs"
  have fit: "\<forall>x \<in> set ?cs. view s (c_fresh x) = None \<and> fits_job fits (call_job (Some (g_id g)) now x)"
    using assms(6) unfolding assms(4) by blast
  obtain s0 where s0: "spawn_all S B now None ?cs g s = (Inr hs, None, g1, s0)"
    "inv s0" "waiting s0 = map c_fresh ?cs"
    "\<forall>x \<in> set ?cs. view s0 (c_fresh x) = job_view S ((call_job (Some gid) now x)\<lparr>status := QUEUED\<rparr>)"
    "\<forall>i. i \<notin> c_fresh ` set ?cs \<longrightarrow> view s0 i = view s i"
    using spawn_all_new [OF assms(1,3,5) fit] unfolding assms(2,4,7,8) append_Nil by blast
  have q: "\<forall>x \<in> set cs. view s0 (c_fresh x) = job_view S ((call_job (Some gid) now x)\<lparr>status := QUEUED\<rparr>) \<and>
      fits_job fits (call_job (Some gid) now x) \<and> map_of reg (t_name (c_task x)) \<noteq> None"
    using s0(4) assms(6) by (simp add: ball_Un)
  have w: "waiting s0 = map c_fresh cs @ map c_fresh zs" and d: "distinct (map c_fresh cs)"
    and sep: "c_fresh ` set cs \<inter> c_fresh ` set zs = {}" using s0(3) assms(5) by auto
  obtain rs s1 where s1: "claim_all B (length cs) s0 = (rs, s1)" "length rs = length cs" "inv s1" "waiting s1 = map c_fresh zs"
    "list_all2 (\<lambda>x r. held S fits reg (view s1) (running_call gid now x) r) cs rs" "\<forall>i. i \<notin> c_fresh ` set cs \<longrightarrow> view s1 i = view s0 i"
    using claim_calls [OF s0(2) w d q] by blast
  have z: "\<forall>x \<in> set zs. queued_in S fits (view s1) (queued_call gid now x)"
  proof
    fix x assume x: "x \<in> set zs"
    then have "c_fresh x \<notin> c_fresh ` set cs" using sep by blast
    then have "view s1 (c_fresh x) = job_view S (queued_call gid now x)" using s1(6) s0(4) x by (simp add: queued_call_def)
    then show "queued_in S fits (view s1) (queued_call gid now x)"
      using assms(6) x by (simp add: queued_in_def queued_call_def call_job_def Job_init_def fits_job_def max_attempts_def ball_Un)
  qed
  have "\<forall>i. i \<notin> c_fresh ` set ?cs \<longrightarrow> view s1 i = view s i" using s1(6) s0(5) by (simp add: image_Un)
  with s0(1) s1(1-5) z show ?thesis by (intro exI [of _ s0] exI [of _ rs] exI [of _ s1] conjI)
qed

lemma serve_failed:
  assumes "inv s" "held S fits reg (view s) j r" "is_Exception e"
    "d = (norm_job norm j)\<lparr>error := Some (py_str_exc e), status := FAILED\<rparr>"
  shows "\<exists>s'. worker_serve S B reg r (Ends (JobDone (Inl e))) s = (Continue, s') \<and> inv s' \<and> waiting s' = waiting s \<and>
    view s' = (view s)(jid j := job_view S d)"
proof -
  from assms(2) obtain t where h: "runs_in S (view s) j" "fits_job fits j" "job_view S j = Some (map_of r)"
    "\<not> request_cancel (norm_job norm j)" "map_of reg (task_name (norm_job norm j)) = Some t"
    by (auto simp: held_def norm_job_def)
  have "final_job S reg (norm_job norm j) (Ends (JobDone (Inl e))) = Some d"
    using h(4,5) assms(3) by (simp add: final_job_def settled_job_def body_outcome_def assms(4))
  with serve_spec [OF assms(1) h(1) same_job_refl h(2,3), of reg "Ends (JobDone (Inl e))"]
  show ?thesis by (auto simp: stops_loop_def)
qed

text \<open>A job that was flagged while it ran, once its watcher has come back.\<close>

lemma serve_watched:
  assumes "inv s" "view s (jid j) = job_view S (j\<lparr>request_cancel := True\<rparr>)" "held S fits reg v j r"
  shows "\<exists>s'. worker_serve S B reg r (Ends (CancelSeen u)) s = (Continue, s') \<and> inv s' \<and> waiting s' = waiting s \<and>
    view s' = (view s)(jid j := job_view S ((norm_job norm j)\<lparr>status := CANCELLED\<rparr>))"
proof -
  let ?f = "j\<lparr>request_cancel := True\<rparr>"
  from assms(3) obtain t where h: "status j = RUNNING" "error j = None" "0 \<le> attempts j" "fits_job fits j"
    "job_view S j = Some (map_of r)" "\<not> request_cancel (norm_job norm j)" "map_of reg (task_name (norm_job norm j)) = Some t"
    by (auto simp: held_def runs_in_def norm_job_def)
  have "fits_job fits ?f" using h(4) by (simp add: fits_job_def)
  then have "job_view S ?f \<noteq> None" using job_view_total by auto
  then have r: "runs_in S (view s) ?f" using assms(2) h(1-3) by (simp add: runs_in_def)
  have same: "same_job j ?f" by (simp add: same_job_def)
  have "final_job S reg (norm_job norm j) (Ends (CancelSeen u)) = Some ((norm_job norm j)\<lparr>status := CANCELLED\<rparr>)"
    using h(6,7) by (simp add: final_job_def settled_job_def)
  with serve_spec [OF assms(1) r same h(4,5), of reg "Ends (CancelSeen u)"]
  show ?thesis by (auto simp: stops_loop_def)
qed

lemma serve_watched_all:
  assumes "inv s" "distinct (map jid js)"
    "\<forall>j \<in> set js. view s (jid j) = job_view S (j\<lparr>request_cancel := True\<rparr>) \<and> held S fits reg v j (rec j)"
  shows "\<exists>s'. serve_all S B reg (map (\<lambda>j. (rec j, Ends (CancelSeen (u j)))) js) s = (replicate (length js) Continue, s') \<and>
    inv s' \<and> waiting s' = waiting s \<and>
    (\<forall>j \<in> set js. view s' (jid j) = job_view S ((norm_job norm j)\<lparr>status := CANCELLED\<rparr>)) \<and>
    (\<forall>i. i \<notin> jid ` set js \<longrightarrow> view s' i = view s i)"
  using assms
proof (induction js arbitrary: s)
  case (Cons j js)
  have j: "view s (jid j) = job_view S (j\<lparr>request_cancel := True\<rparr>)" "held S fits reg v j (rec j)"
    using Cons.prems(3) by simp_all
  obtain s1 where s1: "worker_serve S B reg (rec j) (Ends (CancelSeen (u j))) s = (Continue, s1)" "inv s1" "waiting s1 = waiting s"
    "view s1 = (view s)(jid j := job_view S ((norm_job norm j)\<lparr>status := CANCELLED\<rparr>))"
    using serve_watched [OF Cons.prems(1) j] by blast
  have n: "jid j \<notin> jid ` set js" "distinct (map jid js)" using Cons.prems(2) by simp_all
  have "\<forall>x \<in> set js. view s1 (jid x) = job_view S (x\<lparr>request_cancel := True\<rparr>) \<and> held S fits reg v x (rec x)"
  proof
    fix x assume x: "x \<in> set js"
    then have "jid x \<noteq> jid j" using n(1) by (metis imageI)
    with Cons.prems(3) x show "view s1 (jid x) = job_view S (x\<lparr>request_cancel := True\<rparr>) \<and> held S fits reg v x (rec x)"
      by (simp add: s1(4))
  qed
  from Cons.IH [OF s1(2) n(2) this] obtain s' where s':
    "serve_all S B reg (map (\<lambda>j. (rec j, Ends (CancelSeen (u j)))) js) s1 = (replicate (length js) Continue, s')"
    "inv s'" "waiting s' = waiting s1" "\<forall>j \<in> set js. view s' (jid j) = job_view S ((norm_job norm j)\<lparr>status := CANCELLED\<rparr>)"
    "\<forall>i. i \<notin> jid ` set js \<longrightarrow> view s' i = view s1 i" by blast
  have "view s' (jid j) = job_view S ((norm_job norm j)\<lparr>status := CANCELLED\<rparr>)" using s'(5) n(1) by (simp add: s1(4))
  with s' s1 show ?case by (intro exI [of _ s']) simp
qed simp

text \<open>The batch request of the fan-out flags unfinished jobs, and the watchers of those that run come back.\<close>

lemma flag_all:
  assumes "inv s" "\<forall>j \<in> set js. view s (jid j) = job_view S j \<and> fits_job fits j \<and> \<not> terminal (status j)"
  shows "\<exists>s'. b_request_cancel_many B (map jid js) s = (Inr (), s') \<and> inv s' \<and> waiting s' = waiting s \<and>
    (\<forall>j \<in> set js. view s' (jid j) = job_view S (j\<lparr>request_cancel := True\<rparr>) \<and> b_wait_cancel B (jid j) s' = Ready (Inr ())) \<and>
    (\<forall>i. i \<notin> jid ` set js \<longrightarrow> view s' i = view s i)"
proof -
  obtain s' where s': "b_request_cancel_many B (map jid js) s = (Inr (), s')" "inv s'" "waiting s' = waiting s"
    "view s' = (\<lambda>i. if i \<in> set (map jid js) then map_option flagged (view s i) else view s i)"
    using request_cancel_many_flags [OF assms(1)] by blast
  have "view s' (jid j) = job_view S (j\<lparr>request_cancel := True\<rparr>) \<and> b_wait_cancel B (jid j) s' = Ready (Inr ())"
    if j: "j \<in> set js" for j
  proof -
    have st: "\<not> terminal (status j)" "fits_job fits j" using assms(2) j by blast+
    obtain m where m: "view s (jid j) = Some m" "job_view S j = Some m"
      using assms(2) j job_view_total [OF st(2)] by auto
    have act: "\<not> terminal_in m" using job_view_fields(4) [OF m(2)] st(1) by simp
    then have f: "view s' (jid j) = Some (m(''request_cancel'' \<mapsto> Str ''1''))"
      using m(1) j s'(4) by (simp add: flagged_def)
    moreover have "status j \<noteq> COMPLETED" using st(1) by (auto simp: terminal_def)
    then have "job_view S (j\<lparr>request_cancel := True\<rparr>) = Some (m(''request_cancel'' \<mapsto> Str ''1''))"
      using job_view_update(3) [OF m(2), of True] str_of_int_0_1 by simp
    moreover have "b_wait_cancel B (jid j) s' = Ready (Inr ())" using wait_cancel_active [OF s'(2) f] act by simp
    ultimately show ?thesis by simp
  qed
  with s' show ?thesis by (intro exI [of _ s']) simp
qed

text \<open>Flagged jobs that wait are stored as cancelled by the turns that claim them, whatever their races.\<close>

lemma flagged_queue_ends:
  assumes "inv s" "waiting s = map jid zs" "distinct (map jid zs)" "length races = length zs" "\<forall>race \<in> set races. settles fits race"
    "\<forall>z \<in> set zs. view s (jid z) = job_view S (z\<lparr>request_cancel := True\<rparr>) \<and> queued_in S fits v z"
  shows "\<exists>s'. worker_loop S B reg races s = (Continue, s') \<and> inv s' \<and> waiting s' = [] \<and>
    (\<forall>z \<in> set zs. view s' (jid z) =
       job_view S ((norm_job norm (z\<lparr>request_cancel := True, status := RUNNING, attempts := attempts z + 1\<rparr>))\<lparr>status := CANCELLED\<rparr>)) \<and>
    (\<forall>i. i \<notin> jid ` set zs \<longrightarrow> view s' i = view s i)"
proof -
  let ?f = "\<lambda>z :: job. z\<lparr>request_cancel := True\<rparr>"
  let ?d = "\<lambda>z :: job. (norm_job norm (z\<lparr>request_cancel := True, status := RUNNING, attempts := attempts z + 1\<rparr>))\<lparr>status := CANCELLED\<rparr>"
  have m: "map jid (map ?f zs) = map jid zs" by simp
  have w: "waiting s = map jid (map ?f zs) @ []" "distinct (map jid (map ?f zs))" "length races = length (map ?f zs)"
    unfolding m using assms(2-4) by simp_all
  have f: "\<forall>j \<in> set (map ?f zs). view s (jid j) = job_view S j \<and> fits_job fits j \<and> \<not> terminal (status j) \<and> error j = None \<and>
       0 \<le> attempts j \<and> attempts j < max_attempts"
    using assms(6) by (auto simp: queued_in_def fits_job_def terminal_def)
  obtain s' where s': "worker_loop S B reg races s = (Continue, s')" "inv s'" "waiting s' = []"
    "\<forall>(j, race) \<in> set (zip (map ?f zs) races). view s' (jid j) = job_view S (done_job S norm reg j race)"
    "\<forall>i. i \<notin> jid ` set (map ?f zs) \<longrightarrow> view s' i = view s i"
    using loop_outcomes [OF assms(1) w f assms(5), of reg] by blast
  have "view s' (jid z) = job_view S (?d z)" if "z \<in> set zs" for z
  proof -
    from that obtain k where k: "k < length zs" "z = zs ! k" by (auto simp: in_set_conv_nth)
    then have p: "(?f z, races ! k) \<in> set (zip (map ?f zs) races)" using assms(4) by (auto simp: set_zip intro!: exI [of _ k])
    have "settles fits (races ! k)" using k assms(4,5) by simp
    then obtain e where "races ! k = Ends e" by (cases "races ! k") (simp_all add: settles_def)
    then have "done_job S norm reg (?f z) (races ! k) = ?d z"
      by (simp add: done_job_def final_job_def settled_job_def norm_job_def)
    with s'(4) p show ?thesis by fastforce
  qed
  moreover have "jid ` set (map ?f zs) = jid ` set zs" by (simp add: image_image)
  ultimately show ?thesis using s'(1-3,5) by (intro exI [of _ s']) simp
qed

end

section \<open>The group when its first job fails\<close>

lemma first_failure:
  assumes "g_on_error g = CANCEL_SIBLINGS" "g_waiters g = map (\<lambda>i. (i, Waiting)) (is @ i # ks)" "g_callbacks g = []" "g_failures g = []"
    "\<not> g_cancelling g" "g_fanout g = None" "is_Exception e" "g' = run_callback (waiter_done (length is) (Inl e) g)"
  shows "g_waiters g' = map (\<lambda>k. (k, Waiting)) is @ (i, Finished (Inl e)) # map (\<lambda>k. (k, Waiting)) ks"
    "g_failures g' = [e]" "g_cancelling g'" "g_fanout g' = Some (is @ ks)" "g_callbacks g' = []" "g_fanned g' = g_fanned g"
    "g_on_error g' = CANCEL_SIBLINGS" "g_id g' = g_id g" "g_handles g' = g_handles g"
proof -
  have w: "(g_waiters g)[length is := (fst (g_waiters g ! length is), Finished (Inl e))] =
      map (\<lambda>k. (k, Waiting)) is @ (i, Finished (Inl e)) # map (\<lambda>k. (k, Waiting)) ks"
    by (simp add: assms(2) nth_append list_update_append)
  have wd: "waiter_done (length is) (Inl e) g =
      g\<lparr>g_waiters := map (\<lambda>k. (k, Waiting)) is @ (i, Finished (Inl e)) # map (\<lambda>k. (k, Waiting)) ks, g_callbacks := [length is]\<rparr>"
    unfolding waiter_done_def w by (simp add: assms(1,3))
  have st: "snd ((map (\<lambda>k. (k, Waiting)) is @ (i, Finished (Inl e)) # map (\<lambda>k. (k, Waiting)) ks) ! length is) = Finished (Inl e)"
    by (simp add: nth_append)
  show "g_waiters g' = map (\<lambda>k. (k, Waiting)) is @ (i, Finished (Inl e)) # map (\<lambda>k. (k, Waiting)) ks"
    "g_failures g' = [e]" "g_cancelling g'" "g_fanout g' = Some (is @ ks)" "g_callbacks g' = []" "g_fanned g' = g_fanned g"
    "g_on_error g' = CANCEL_SIBLINGS" "g_id g' = g_id g" "g_handles g' = g_handles g"
    using assms(1,4-7) st unfolding assms(8) wd
    by (simp_all add: run_callback_def job_finished_def still_running_def Let_def comp_def)
qed

text \<open>Cancelled siblings end a scope that is already cancelling: their callbacks change nothing.\<close>

lemma late_callbacks:
  assumes "g_cancelling g" "\<forall>k \<in> set (g_callbacks g). \<exists>m. snd (g_waiters g ! k) = Finished (Inl (JobCancelled m))"
  shows "(run_callback ^^ length (g_callbacks g)) g = g\<lparr>g_callbacks := []\<rparr>"
  using assms
proof (induction "g_callbacks g" arbitrary: g)
  case Nil
  then show ?case by simp
next
  case (Cons k ks)
  obtain m where "snd (g_waiters g ! k) = Finished (Inl (JobCancelled m))" using Cons.prems(2) Cons.hyps(2) by (metis list.set_intros(1))
  then have r: "run_callback g = g\<lparr>g_callbacks := ks\<rparr>"
    using Cons.prems(1) Cons.hyps(2) [symmetric] by (simp add: run_callback_def job_finished_def is_JobCancelled_def is_Exception_def)
  have "(run_callback ^^ length ks) (g\<lparr>g_callbacks := ks\<rparr>) = g\<lparr>g_callbacks := []\<rparr>"
    using Cons.hyps(1) [of "g\<lparr>g_callbacks := ks\<rparr>"] Cons.prems Cons.hyps(2) [symmetric] by simp
  then show ?case by (simp add: Cons.hyps(2) [symmetric] funpow_swap1 r del: funpow.simps) (simp add: r funpow_Suc_right del: funpow.simps)
qed

text \<open>A scope whose first failure is known and whose other jobs were cancelled raises that failure alone.\<close>

lemma cancelled_scope_exit:
  assumes "g_on_error g = CANCEL_SIBLINGS" "g_failures g = [e]" "g_handles g \<noteq> []" "g_waiters g \<noteq> []" "all_done g"
  shows "fst (group_exit B None JoinOn g s) = ExitGroup (''one or more jobs in group '' @ g_id g @ '' failed'') [e]"
  using assms group_join_done [OF assms(1,4,5), of B s] by (simp add: group_exit_def)

lemma siblings_end:
  assumes "g_on_error g = CANCEL_SIBLINGS" "g_cancelling g" "g_callbacks g = []" "g_failures g = [e]" "g_handles g \<noteq> []"
    "g_waiters g = map (\<lambda>k. (k, Waiting)) is @ (i, Finished r) # map (\<lambda>k. (k, Waiting)) ks"
    "gy = finish_from (Suc (length is)) (map cancelled_outcome ks) (finish_from 0 (map cancelled_outcome is) g)"
  shows "fst (group_exit B None JoinOn ((run_callback ^^ (length is + length ks)) gy) s) =
    ExitGroup (''one or more jobs in group '' @ g_id g @ '' failed'') [e]"
proof -
  let ?fin = "map (\<lambda>k. (k, Finished (cancelled_outcome k)))"
  have z: "map2 (\<lambda>i r. (i, Finished r)) js (map cancelled_outcome js) = ?fin js" for js by (induction js) simp_all
  have "g_waiters (finish_from 0 (map cancelled_outcome is) g) = ?fin is @ (i, Finished r) # map (\<lambda>k. (k, Waiting)) ks"
    using finish_waiters [of g "[]" "is" "(i, Finished r) # map (\<lambda>k. (k, Waiting)) ks" 0 "map cancelled_outcome is"] assms(6)
    by (simp add: z)
  then have w: "g_waiters gy = ?fin is @ (i, Finished r) # ?fin ks"
    using finish_waiters [of "finish_from 0 (map cancelled_outcome is) g" "?fin is @ [(i, Finished r)]" ks "[]" "Suc (length is)"
        "map cancelled_outcome ks"] by (simp add: z assms(7))
  have f: "g_on_error gy = CANCEL_SIBLINGS" "g_cancelling gy" "g_failures gy = [e]" "g_handles gy \<noteq> []" "g_id gy = g_id g"
    "g_callbacks gy = [0..<length is] @ [Suc (length is)..<Suc (length is + length ks)]"
    using assms(1-5) by (simp_all add: assms(7) finish_frame)
  have c: "\<exists>m. snd (g_waiters gy ! k) = Finished (Inl (JobCancelled m))" if "k \<in> set (g_callbacks gy)" for k
    using that by (auto simp: f(6) w nth_append nth_Cons cancelled_outcome_def split: nat.splits)
  have l: "length (g_callbacks gy) = length is + length ks" by (simp add: f(6) del: upt_Suc)
  have e: "(run_callback ^^ (length is + length ks)) gy = gy\<lparr>g_callbacks := []\<rparr>"
    using late_callbacks [of gy] f(2) c unfolding l by blast
  have "all_done (gy\<lparr>g_callbacks := []\<rparr>)" by (auto simp: all_done_def w list_all_iff)
  with cancelled_scope_exit [of "gy\<lparr>g_callbacks := []\<rparr>" e B s] f w show ?thesis unfolding e by simp
qed

section \<open>From the failure to the verdict\<close>

context client
begin

text \<open>One waiter whose job has failed.\<close>

lemma failed_waiter:
  assumes "inv s" "fits_job fits j" "d = (norm_job norm j)\<lparr>error := Some m, status := FAILED\<rparr>" "view s (jid j) = job_view S d"
    "err = RuntimeError (''job '' @ py_repr (jid j) @ '' failed: '' @ m)"
  shows "\<exists>h s'. run_waiters S B k [JobHandle_init (jid j)] g s = ([h], waiter_done k (Inl err) g, s') \<and> inv s' \<and>
    waiting s' = waiting s \<and> view s' = (view s)(jid j := None) \<and> (\<forall>t. handle_result S B h t = (Ready (Inl err), h, t)) \<and>
    (\<forall>t. handle_status B h t = Inr FAILED)"
proof -
  have d: "fits_job fits d" using fits_norm_job [OF assms(2)] by (simp add: assms(3) fits_job_def)
  then have jv: "view s (jid j) \<noteq> None" using job_view_total assms(4) by auto
  have o: "job_outcome (jid j) (norm_job norm d) = Inl err" by (simp add: assms(3,5) job_outcome_def norm_job_def)
  from result_finished [OF assms(1) d assms(4) jv, of "JobHandle_init (jid j)"] show ?thesis
    unfolding o by (auto simp: assms(3) terminal_def JobHandle_init_def)
qed

text \<open>The waiters of cancelled jobs.\<close>

lemma cancelled_waiters:
  assumes "inv s" "distinct (map jid js)"
    "\<forall>j \<in> set js. view s (jid j) = job_view S ((norm_job norm j)\<lparr>status := CANCELLED\<rparr>) \<and> fits_job fits j"
  shows "\<exists>hs s'. run_waiters S B k (map (\<lambda>j. JobHandle_init (jid j)) js) g s =
      (hs, finish_from k (map cancelled_outcome (map jid js)) g, s') \<and> inv s' \<and> waiting s' = waiting s \<and>
    view s' = (\<lambda>i. if i \<in> jid ` set js then None else view s i) \<and>
    (\<forall>t. map (\<lambda>h. fst (handle_result S B h t)) hs = map (\<lambda>j. Ready (cancelled_outcome (jid j))) js) \<and>
    (\<forall>t. map (\<lambda>h. handle_status B h t) hs = map (\<lambda>j. Inr CANCELLED) js)"
proof -
  let ?ds = "map (\<lambda>j. (norm_job norm j)\<lparr>status := CANCELLED\<rparr>) js" and ?outs = "map cancelled_outcome (map jid js)"
  have len: "length ?ds = length (map jid js)" by simp
  have v: "\<forall>(i, j) \<in> set (zip (map jid js) ?ds). view s i = job_view S j \<and> fits_job fits j \<and> terminal (status j)"
  proof (intro ballI, clarsimp simp: set_zip)
    fix k assume k: "k < length js"
    let ?d = "(norm_job norm (js ! k))\<lparr>status := CANCELLED\<rparr>"
    have "js ! k \<in> set js" using k by simp
    with assms(3) have x: "view s (jid (js ! k)) = job_view S ?d" "fits_job fits (js ! k)" by auto
    have "fits_job fits ?d" using fits_norm_job [OF x(2)] by (simp add: fits_job_def)
    then show "view s (jid (js ! k)) = job_view S ?d \<and> fits_job fits ?d \<and> terminal CANCELLED"
      using x(1) by (simp add: terminal_def)
  qed
  have c: "cancelled_outcome i = job_outcome i (norm_job norm (j\<lparr>status := CANCELLED\<rparr>))" for i j
    by (simp add: cancelled_outcome_def job_outcome_def norm_job_def)
  have o: "?outs = map2 (\<lambda>i j. job_outcome i (norm_job norm j)) (map jid js) ?ds"
    by (induction js) (simp_all only: list.map zip_Cons_Cons zip_Nil prod.case c [symmetric])
  from waiters_collect [OF assms(1,2) len v o, of k g] obtain hs s' where s':
    "run_waiters S B k (map JobHandle_init (map jid js)) g s = (hs, finish_from k ?outs g, s')" "inv s'" "waiting s' = waiting s"
    "view s' = (\<lambda>i. if i \<in> set (map jid js) then None else view s i)" "length hs = length (map jid js)"
    "\<forall>t. map (\<lambda>h. handle_result S B h t) hs = map2 (\<lambda>out h. (Ready out, h, t)) ?outs hs"
    "\<forall>t. map (\<lambda>h. handle_status B h t) hs = map (\<lambda>out. Inr (outcome_status out)) ?outs" by blast
  have st: "\<forall>t. map (\<lambda>h. handle_status B h t) hs = map (\<lambda>j. Inr CANCELLED) js"
    using s'(7) by (simp add: comp_def cancelled_outcome_def outcome_status_def)
  have "map (\<lambda>h. fst (handle_result S B h t)) hs = map (\<lambda>j. Ready (cancelled_outcome (jid j))) js" for t
  proof -
    have "map fst (map (\<lambda>h. handle_result S B h t) hs) = map fst (map2 (\<lambda>out h. (Ready out, h, t)) ?outs hs)"
      using s'(6) by simp
    also have "\<dots> = map Ready ?outs" by (rule nth_equalityI) (use s'(5) in auto)
    finally show ?thesis by (simp add: comp_def)
  qed
  moreover have m: "map JobHandle_init (map jid js) = map (\<lambda>j. JobHandle_init (jid j)) js" by simp
  ultimately show ?thesis using s'(1) [unfolded m] s'(2,3) s'(4) [unfolded set_map] st by blast
qed

text \<open>From the failure of one job to the flags of its siblings.\<close>

lemma failure_fans_out:
  assumes "inv s" "g_on_error g = CANCEL_SIBLINGS" "g_waiters g = map (\<lambda>i. (jid i, Waiting)) (xs @ j # ys)"
    "g_callbacks g = []" "g_failures g = []" "\<not> g_cancelling g" "g_fanout g = None" "\<not> g_fanned g"
    "distinct (map jid (xs @ j # ys))" "held S fits reg (view s) j (rec j)"
    "\<forall>i \<in> set (xs @ ys). view s (jid i) = job_view S i \<and> fits_job fits i \<and> \<not> terminal (status i)" "is_Exception e"
    "err = RuntimeError (''job '' @ py_repr (jid j) @ '' failed: '' @ py_str_exc e)" "g1 = waiter_done (length xs) (Inl err) g"
  shows "\<exists>s1 h s2 s3.
    worker_serve S B reg (rec j) (Ends (JobDone (Inl e))) s = (Continue, s1) \<and>
    run_waiters S B (length xs) [JobHandle_init (jid j)] g s1 = ([h], g1, s2) \<and>
    run_fanout B (run_callback g1) s2 = ((run_callback g1)\<lparr>g_fanned := True\<rparr>, s3) \<and> inv s3 \<and> waiting s3 = waiting s \<and>
    (\<forall>i \<in> set (xs @ ys). view s3 (jid i) = job_view S (i\<lparr>request_cancel := True\<rparr>) \<and> b_wait_cancel B (jid i) s3 = Ready (Inr ())) \<and>
    (\<forall>i. i \<notin> jid ` set (xs @ ys) \<longrightarrow> view s3 i = (if i = jid j then None else view s i)) \<and>
    (\<forall>t. handle_result S B h t = (Ready (Inl err), h, t)) \<and> (\<forall>t. handle_status B h t = Inr FAILED)"
proof -
  let ?d = "(norm_job norm j)\<lparr>error := Some (py_str_exc e), status := FAILED\<rparr>" and ?o = "xs @ ys"
  have hj: "held S fits reg (view s) j (rec j)" by (rule assms(10))
  then have fj: "fits_job fits j" by (simp add: held_def)
  have nj: "jid j \<notin> jid ` set ?o" using assms(9) by auto
  obtain s1 where s1: "worker_serve S B reg (rec j) (Ends (JobDone (Inl e))) s = (Continue, s1)" "inv s1" "waiting s1 = waiting s"
    "view s1 = (view s)(jid j := job_view S ?d)"
    using serve_failed [OF assms(1) hj assms(12) refl] by blast
  have v1: "view s1 (jid j) = job_view S ?d" by (simp add: s1(4))
  obtain h s2 where s2: "run_waiters S B (length xs) [JobHandle_init (jid j)] g s1 = ([h], g1, s2)" "inv s2" "waiting s2 = waiting s1"
    "view s2 = (view s1)(jid j := None)" "\<forall>t. handle_result S B h t = (Ready (Inl err), h, t)" "\<forall>t. handle_status B h t = Inr FAILED"
    using failed_waiter [OF s1(2) fj refl v1 assms(13), of "length xs" g] unfolding assms(14) by blast
  have w: "g_waiters g = map (\<lambda>i. (i, Waiting)) (map jid xs @ jid j # map jid ys)" using assms(3) by simp
  have ex: "is_Exception err" by (simp add: assms(13))
  have gf: "run_callback g1 = run_callback (waiter_done (length (map jid xs)) (Inl err) g)" by (simp add: assms(14))
  note F = first_failure [OF assms(2) w assms(4-7) ex gf]
  have h2: "\<forall>i \<in> set ?o. view s2 (jid i) = job_view S i \<and> fits_job fits i \<and> \<not> terminal (status i)"
  proof
    fix i assume i: "i \<in> set ?o"
    then have "jid i \<noteq> jid j" using nj by (metis imageI)
    then have "view s2 (jid i) = view s (jid i)" by (simp add: s2(4) s1(4))
    with assms(11) i show "view s2 (jid i) = job_view S i \<and> fits_job fits i \<and> \<not> terminal (status i)" by simp
  qed
  obtain s3 where s3: "b_request_cancel_many B (map jid ?o) s2 = (Inr (), s3)" "inv s3" "waiting s3 = waiting s2"
    "\<forall>i \<in> set ?o. view s3 (jid i) = job_view S (i\<lparr>request_cancel := True\<rparr>) \<and> b_wait_cancel B (jid i) s3 = Ready (Inr ())"
    "\<forall>i. i \<notin> jid ` set ?o \<longrightarrow> view s3 i = view s2 i"
    using flag_all [OF s2(2) h2] by blast
  have fan: "run_fanout B (run_callback g1) s2 = ((run_callback g1)\<lparr>g_fanned := True\<rparr>, s3)"
    using F(4,6) assms(8) s3(1) by (simp add: run_fanout_def)
  have fr: "\<forall>i. i \<notin> jid ` set ?o \<longrightarrow> view s3 i = (if i = jid j then None else view s i)"
    using s3(5) by (simp add: s2(4) s1(4))
  have wq: "waiting s3 = waiting s" using s3(3) s2(3) s1(3) by simp
  show ?thesis
    by (rule exI [of _ s1], rule exI [of _ h], rule exI [of _ s2], rule exI [of _ s3])
      (intro conjI s1(1) s2(1) fan s3(2) wq s3(4) fr s2(5,6))
qed

text \<open>From the flags of the siblings to the verdict of the scope.\<close>

lemma siblings_served:
  assumes "inv s" "distinct (map jid (xs @ zs))" "waiting s = map jid zs"
    "\<forall>i \<in> set xs. view s (jid i) = job_view S (i\<lparr>request_cancel := True\<rparr>) \<and> held S fits reg v i (rec i)"
    "\<forall>z \<in> set zs. view s (jid z) = job_view S (z\<lparr>request_cancel := True\<rparr>) \<and> queued_in S fits v z"
    "length races = length zs" "\<forall>race \<in> set races. settles fits race"
  shows "\<exists>s4 s5 js. serve_all S B reg (map (\<lambda>i. (rec i, Ends (CancelSeen (u i)))) xs) s = (replicate (length xs) Continue, s4) \<and>
    worker_loop S B reg races s4 = (Continue, s5) \<and> inv s5 \<and> waiting s5 = [] \<and> map jid js = map jid zs \<and>
    (\<forall>i \<in> set (xs @ js). view s5 (jid i) = job_view S ((norm_job norm i)\<lparr>status := CANCELLED\<rparr>) \<and> fits_job fits i) \<and>
    (\<forall>i. i \<notin> jid ` set (xs @ zs) \<longrightarrow> view s5 i = view s i)"
proof -
  let ?z = "\<lambda>z :: job. z\<lparr>request_cancel := True, status := RUNNING, attempts := attempts z + 1\<rparr>"
  let ?c = "\<lambda>i. job_view S ((norm_job norm i)\<lparr>status := CANCELLED\<rparr>)"
  have d0: "distinct (map jid xs)" "distinct (map jid zs)" and sz: "jid ` set xs \<inter> jid ` set zs = {}" using assms(2) by auto
  obtain s4 where s4: "serve_all S B reg (map (\<lambda>i. (rec i, Ends (CancelSeen (u i)))) xs) s = (replicate (length xs) Continue, s4)"
    "inv s4" "waiting s4 = waiting s" "\<forall>i \<in> set xs. view s4 (jid i) = ?c i" "\<forall>i. i \<notin> jid ` set xs \<longrightarrow> view s4 i = view s i"
    using serve_watched_all [OF assms(1) d0(1) assms(4), of u] by blast
  have z4: "\<forall>z \<in> set zs. view s4 (jid z) = job_view S (z\<lparr>request_cancel := True\<rparr>) \<and> queued_in S fits v z"
  proof
    fix z assume z: "z \<in> set zs"
    then have "jid z \<notin> jid ` set xs" using sz by blast
    then have "view s4 (jid z) = view s (jid z)" using s4(5) by blast
    with assms(5) z show "view s4 (jid z) = job_view S (z\<lparr>request_cancel := True\<rparr>) \<and> queued_in S fits v z" by simp
  qed
  have w4: "waiting s4 = map jid zs" using s4(3) assms(3) by simp
  obtain s5 where s5: "worker_loop S B reg races s4 = (Continue, s5)" "inv s5" "waiting s5 = []"
    "\<forall>z \<in> set zs. view s5 (jid z) = ?c (?z z)" "\<forall>i. i \<notin> jid ` set zs \<longrightarrow> view s5 i = view s4 i"
    using flagged_queue_ends [OF s4(2) w4 d0(2) assms(6,7) z4] by blast
  have x: "view s5 (jid i) = ?c i \<and> fits_job fits i" if i: "i \<in> set xs" for i
  proof -
    have "jid i \<notin> jid ` set zs" using i sz by blast
    with s5(5) s4(4) assms(4) i show ?thesis by (simp add: held_def)
  qed
  have z: "view s5 (jid (?z z)) = ?c (?z z) \<and> fits_job fits (?z z)" if "z \<in> set zs" for z
    using that s5(4) assms(5) by (simp add: queued_in_def fits_job_def)
  have "\<forall>i \<in> set (xs @ map ?z zs). view s5 (jid i) = ?c i \<and> fits_job fits i"
    unfolding set_append ball_Un set_map using x z by blast
  moreover have "map jid (map ?z zs) = map jid zs" by simp
  moreover have "\<forall>i. i \<notin> jid ` set (xs @ zs) \<longrightarrow> view s5 i = view s i" using s4(5) s5(5) by (simp add: image_Un)
  ultimately show ?thesis using s4(1) s5(1-3) by blast
qed

lemma siblings_stop:
  assumes "inv s" "distinct (map jid (xs @ ys @ zs))" "waiting s = map jid zs"
    "\<forall>i \<in> set (xs @ ys). view s (jid i) = job_view S (i\<lparr>request_cancel := True\<rparr>) \<and> held S fits reg v i (rec i)"
    "\<forall>z \<in> set zs. view s (jid z) = job_view S (z\<lparr>request_cancel := True\<rparr>) \<and> queued_in S fits v z"
    "length races = length zs" "\<forall>race \<in> set races. settles fits race"
    "g_on_error g = CANCEL_SIBLINGS" "g_cancelling g" "g_callbacks g = []" "g_failures g = [err]" "g_handles g \<noteq> []"
    "g_waiters g = map (\<lambda>k. (k, Waiting)) (map jid xs) @ (i, Finished r) # map (\<lambda>k. (k, Waiting)) (map jid (ys @ zs))"
  shows "\<exists>s4 s5 hx gx s6 hy gy s7.
    serve_all S B reg (map (\<lambda>i. (rec i, Ends (CancelSeen (u i)))) (xs @ ys)) s = (replicate (length (xs @ ys)) Continue, s4) \<and>
    worker_loop S B reg races s4 = (Continue, s5) \<and>
    run_waiters S B 0 (map (\<lambda>i. JobHandle_init (jid i)) xs) g s5 = (hx, gx, s6) \<and>
    run_waiters S B (Suc (length xs)) (map (\<lambda>i. JobHandle_init (jid i)) (ys @ zs)) gx s6 = (hy, gy, s7) \<and>
    fst (group_exit B None JoinOn ((run_callback ^^ length (xs @ ys @ zs)) gy) s7) =
      ExitGroup (''one or more jobs in group '' @ g_id g @ '' failed'') [err] \<and>
    (\<forall>t. map (\<lambda>h. fst (handle_result S B h t)) (hx @ hy) = map (\<lambda>i. Ready (cancelled_outcome (jid i))) (xs @ ys @ zs)) \<and>
    (\<forall>t. map (\<lambda>h. handle_status B h t) (hx @ hy) = map (\<lambda>i. Inr CANCELLED) (xs @ ys @ zs)) \<and>
    inv s7 \<and> waiting s7 = [] \<and> view s7 = (\<lambda>i. if i \<in> jid ` set (xs @ ys @ zs) then None else view s i)"
proof -
  have da: "distinct (map jid ((xs @ ys) @ zs))" using assms(2) by simp
  obtain s4 s5 js where s5:
    "serve_all S B reg (map (\<lambda>i. (rec i, Ends (CancelSeen (u i)))) (xs @ ys)) s = (replicate (length (xs @ ys)) Continue, s4)"
    "worker_loop S B reg races s4 = (Continue, s5)" "inv s5" "waiting s5 = []" "map jid js = map jid zs"
    "\<forall>i \<in> set ((xs @ ys) @ js). view s5 (jid i) = job_view S ((norm_job norm i)\<lparr>status := CANCELLED\<rparr>) \<and> fits_job fits i"
    "\<forall>i. i \<notin> jid ` set ((xs @ ys) @ zs) \<longrightarrow> view s5 i = view s i"
    using siblings_served [OF assms(1) da assms(3-7), of u] by blast
  let ?yz = "ys @ js"
  have m: "map jid ?yz = map jid (ys @ zs)" using s5(5) by simp
  have mm: "map (\<lambda>i. f (jid i)) ?yz = map (\<lambda>i. f (jid i)) (ys @ zs)" for f :: "string \<Rightarrow> 'x"
    using arg_cong [OF m, of "map f"] by (simp only: map_map comp_def)
  have im: "jid ` set ?yz = jid ` set (ys @ zs)" using m by (metis set_map)
  have d: "distinct (map jid xs)" "distinct (map jid ?yz)" and sep: "jid ` set xs \<inter> jid ` set ?yz = {}"
    unfolding im m using assms(2) by auto
  let ?gx = "finish_from 0 (map cancelled_outcome (map jid xs)) g"
  let ?gy = "finish_from (Suc (length xs)) (map cancelled_outcome (map jid (ys @ zs))) ?gx"
  have vx: "\<forall>i \<in> set xs. view s5 (jid i) = job_view S ((norm_job norm i)\<lparr>status := CANCELLED\<rparr>) \<and> fits_job fits i"
    using s5(6) by simp
  obtain hx s6 where s6: "run_waiters S B 0 (map (\<lambda>i. JobHandle_init (jid i)) xs) g s5 = (hx, ?gx, s6)" "inv s6"
    "waiting s6 = waiting s5" "view s6 = (\<lambda>i. if i \<in> jid ` set xs then None else view s5 i)"
    "\<forall>t. map (\<lambda>h. fst (handle_result S B h t)) hx = map (\<lambda>i. Ready (cancelled_outcome (jid i))) xs"
    "\<forall>t. map (\<lambda>h. handle_status B h t) hx = map (\<lambda>i. Inr CANCELLED) xs"
    using cancelled_waiters [OF s5(3) d(1) vx, of 0 g] by blast
  have vy: "\<forall>i \<in> set ?yz. view s6 (jid i) = job_view S ((norm_job norm i)\<lparr>status := CANCELLED\<rparr>) \<and> fits_job fits i"
  proof
    fix i assume i: "i \<in> set ?yz"
    then have "view s6 (jid i) = view s5 (jid i)" using sep by (auto simp: s6(4))
    moreover have "view s5 (jid i) = job_view S ((norm_job norm i)\<lparr>status := CANCELLED\<rparr>) \<and> fits_job fits i"
      using i s5(6) by auto
    ultimately show "view s6 (jid i) = job_view S ((norm_job norm i)\<lparr>status := CANCELLED\<rparr>) \<and> fits_job fits i" by simp
  qed
  obtain hy s7 where s7: "run_waiters S B (Suc (length xs)) (map (\<lambda>i. JobHandle_init (jid i)) (ys @ zs)) ?gx s6 = (hy, ?gy, s7)" "inv s7"
    "waiting s7 = waiting s6" "view s7 = (\<lambda>i. if i \<in> jid ` set ?yz then None else view s6 i)"
    "\<forall>t. map (\<lambda>h. fst (handle_result S B h t)) hy = map (\<lambda>i. Ready (cancelled_outcome (jid i))) (ys @ zs)"
    "\<forall>t. map (\<lambda>h. handle_status B h t) hy = map (\<lambda>i. Inr CANCELLED) (ys @ zs)"
    using cancelled_waiters [OF s6(2) d(2) vy, of "Suc (length xs)" ?gx] unfolding m mm [of JobHandle_init]
      mm [of "\<lambda>i. Ready (cancelled_outcome i)"] mm [of "\<lambda>i. Inr CANCELLED"] by blast
  have verdict: "fst (group_exit B None JoinOn ((run_callback ^^ length (xs @ ys @ zs)) ?gy) s7) =
      ExitGroup (''one or more jobs in group '' @ g_id g @ '' failed'') [err]"
    using siblings_end [OF assms(8-13), of ?gy B s7] by simp
  have out: "\<forall>t. map (\<lambda>h. fst (handle_result S B h t)) (hx @ hy) = map (\<lambda>i. Ready (cancelled_outcome (jid i))) (xs @ ys @ zs)"
    using s6(5) s7(5) by simp
  have sts: "\<forall>t. map (\<lambda>h. handle_status B h t) (hx @ hy) = map (\<lambda>i. Inr CANCELLED) (xs @ ys @ zs)"
    using s6(6) s7(6) by simp
  have v7: "view s7 = (\<lambda>i. if i \<in> jid ` set (xs @ ys @ zs) then None else view s i)"
    using s5(7) unfolding s7(4) s6(4) im by (auto simp: fun_eq_iff)
  have wq: "waiting s7 = []" using s7(3) s6(3) s5(4) by simp
  show ?thesis
    by (rule exI [of _ s4], rule exI [of _ s5], rule exI [of _ hx], rule exI [of _ ?gx], rule exI [of _ s6], rule exI [of _ hy],
        rule exI [of _ ?gy], rule exI [of _ s7]) (intro conjI s5(1,2) s6(1) s7(1) verdict out sts s7(2) wq v7)
qed

end

section \<open>From the open scope to the verdict\<close>

lemma zip_read:
  assumes "distinct (map f (xs @ y # ys))" "length rx = length xs" "length ry = length ys"
    "m = map_of (zip (map f (xs @ y # ys)) (rx @ r # ry))"
  shows "m (f y) = Some r" "map (\<lambda>x. (the (m (f x)), b x)) (xs @ ys) = map2 (\<lambda>x r. (r, b x)) (xs @ ys) (rx @ ry)"
proof -
  let ?zs = "xs @ y # ys" and ?rs = "rx @ r # ry"
  have l: "length (map f ?zs) = length ?rs" using assms(2,3) by simp
  have at: "m (f (?zs ! k)) = Some (?rs ! k)" if "k < length ?zs" for k
    unfolding assms(4) using map_of_zip_nth [OF l assms(1), of k] that l by (simp del: map_append list.map)
  show "m (f y) = Some r" using at [of "length xs"] assms(2) by (simp add: nth_append)
  have x: "the (m (f (xs ! k))) = rx ! k" if "k < length xs" for k
    using at [of k] that assms(2) by (simp add: nth_append)
  have yy: "the (m (f (ys ! k))) = ry ! k" if "k < length ys" for k
    using at [of "length xs + Suc k"] that assms(2) by (simp add: nth_append)
  show "map (\<lambda>x. (the (m (f x)), b x)) (xs @ ys) = map2 (\<lambda>x r. (r, b x)) (xs @ ys) (rx @ ry)"
    by (rule nth_equalityI) (use x yy assms(2,3) in \<open>auto simp: nth_append\<close>)
qed

lemma zip_held:
  assumes "list_all2 P cs rs" "distinct (map f cs)" "m = map_of (zip (map f cs) rs)"
  shows "\<forall>c \<in> set cs. P c (the (m (f c)))"
proof -
  have l: "length (map f cs) = length rs" using list_all2_lengthD [OF assms(1)] by simp
  have "P (cs ! k) (the (m (f (cs ! k))))" if "k < length cs" for k
    using list_all2_nthD [OF assms(1) that] map_of_zip_nth [OF l assms(2), of k] that l by (simp add: assms(3))
  then show ?thesis by (metis in_set_conv_nth)
qed

text \<open>Jobs of a scope, some running and the rest in the queue, when one of those that run fails.\<close>

lemma fail_fast_runs:
  assumes "client B valid view waiting S canon fits" "valid s" "g_on_error g = CANCEL_SIBLINGS"
    "g_waiters g = map (\<lambda>i. (jid i, Waiting)) (xs @ j # ys @ zs)" "g_handles g \<noteq> []"
    "g_callbacks g = []" "g_failures g = []" "\<not> g_cancelling g" "g_fanout g = None" "\<not> g_fanned g"
    "distinct (map jid (xs @ j # ys @ zs))" "\<forall>i \<in> set (xs @ j # ys). held S fits reg (view s) i (rec i)"
    "\<forall>z \<in> set zs. queued_in S fits (view s) z" "waiting s = map jid zs" "is_Exception e"
    "err = RuntimeError (''job '' @ py_repr (jid j) @ '' failed: '' @ py_str_exc e)" "g1 = waiter_done (length xs) (Inl err) g"
    "length races = length zs" "\<forall>race \<in> set races. settles fits race"
  shows "\<exists>s1 h s2 g3 s3 s4 s5 hx gx s6 hy gy s7.
    worker_serve S B reg (rec j) (Ends (JobDone (Inl e))) s = (Continue, s1) \<and>
    run_waiters S B (length xs) [JobHandle_init (jid j)] g s1 = ([h], g1, s2) \<and>
    run_fanout B (run_callback g1) s2 = (g3, s3) \<and>
    (\<forall>i \<in> set (xs @ ys @ zs). b_wait_cancel B (jid i) s3 = Ready (Inr ())) \<and>
    serve_all S B reg (map (\<lambda>i. (rec i, Ends (CancelSeen (u i)))) (xs @ ys)) s3 = (replicate (length (xs @ ys)) Continue, s4) \<and>
    worker_loop S B reg races s4 = (Continue, s5) \<and>
    run_waiters S B 0 (map (\<lambda>i. JobHandle_init (jid i)) xs) g3 s5 = (hx, gx, s6) \<and>
    run_waiters S B (Suc (length xs)) (map (\<lambda>i. JobHandle_init (jid i)) (ys @ zs)) gx s6 = (hy, gy, s7) \<and>
    fst (group_exit B None JoinOn ((run_callback ^^ length (xs @ ys @ zs)) gy) s7) =
      ExitGroup (''one or more jobs in group '' @ g_id g @ '' failed'') [err] \<and>
    (\<forall>t. handle_result S B h t = (Ready (Inl err), h, t)) \<and>
    (\<forall>t. map (\<lambda>h. fst (handle_result S B h t)) (hx @ hy) = map (\<lambda>i. Ready (cancelled_outcome (jid i))) (xs @ ys @ zs)) \<and>
    (\<forall>t. handle_status B h t = Inr FAILED) \<and>
    (\<forall>t. map (\<lambda>h. handle_status B h t) (hx @ hy) = map (\<lambda>i. Inr CANCELLED) (xs @ ys @ zs)) \<and>
    valid s7 \<and> waiting s7 = [] \<and> view s7 = (\<lambda>i. if i \<in> jid ` set (xs @ j # ys @ zs) then None else view s i)"
proof -
  let ?g3 = "(run_callback g1)\<lparr>g_fanned := True\<rparr>"
  have hj: "held S fits reg (view s) j (rec j)" using assms(12) by simp
  have act: "\<forall>i \<in> set (xs @ ys @ zs). view s (jid i) = job_view S i \<and> fits_job fits i \<and> \<not> terminal (status i)"
    using assms(12,13) by (auto simp: held_def runs_in_def queued_in_def terminal_def)
  obtain s1 h s2 s3 where s3: "worker_serve S B reg (rec j) (Ends (JobDone (Inl e))) s = (Continue, s1)"
    "run_waiters S B (length xs) [JobHandle_init (jid j)] g s1 = ([h], g1, s2)" "run_fanout B (run_callback g1) s2 = (?g3, s3)"
    "valid s3" "waiting s3 = waiting s"
    "\<forall>i \<in> set (xs @ ys @ zs). view s3 (jid i) = job_view S (i\<lparr>request_cancel := True\<rparr>) \<and> b_wait_cancel B (jid i) s3 = Ready (Inr ())"
    "\<forall>i. i \<notin> jid ` set (xs @ ys @ zs) \<longrightarrow> view s3 i = (if i = jid j then None else view s i)"
    "\<forall>t. handle_result S B h t = (Ready (Inl err), h, t)" "\<forall>t. handle_status B h t = Inr FAILED"
    using client.failure_fans_out [where rec = rec and j = j, OF assms(1-4,6-11) hj act assms(15-17)] by blast
  have w: "g_waiters g = map (\<lambda>i. (i, Waiting)) (map jid xs @ jid j # map jid (ys @ zs))" using assms(4) by simp
  have ex: "is_Exception err" by (simp add: assms(16))
  have gf: "run_callback g1 = run_callback (waiter_done (length (map jid xs)) (Inl err) g)" by (simp add: assms(17))
  note F = first_failure [OF assms(3) w assms(6-9) ex gf]
  have g3: "g_on_error ?g3 = CANCEL_SIBLINGS" "g_cancelling ?g3" "g_callbacks ?g3 = []" "g_failures ?g3 = [err]" "g_handles ?g3 \<noteq> []"
    "g_waiters ?g3 = map (\<lambda>k. (k, Waiting)) (map jid xs) @ (jid j, Finished (Inl err)) # map (\<lambda>k. (k, Waiting)) (map jid (ys @ zs))"
    "g_id ?g3 = g_id g"
    using F assms(5) by simp_all
  have do: "distinct (map jid (xs @ ys @ zs))" using assms(11) by auto
  have w3: "waiting s3 = map jid zs" using s3(5) assms(14) by simp
  have h3: "\<forall>i \<in> set (xs @ ys). view s3 (jid i) = job_view S (i\<lparr>request_cancel := True\<rparr>) \<and> held S fits reg (view s) i (rec i)"
    "\<forall>z \<in> set zs. view s3 (jid z) = job_view S (z\<lparr>request_cancel := True\<rparr>) \<and> queued_in S fits (view s) z"
    using s3(6) assms(12,13) by (simp_all add: ball_Un)
  obtain s4 s5 hx gx s6 hy gy s7 where
    s7: "serve_all S B reg (map (\<lambda>i. (rec i, Ends (CancelSeen (u i)))) (xs @ ys)) s3 = (replicate (length (xs @ ys)) Continue, s4)"
    "worker_loop S B reg races s4 = (Continue, s5)"
    "run_waiters S B 0 (map (\<lambda>i. JobHandle_init (jid i)) xs) ?g3 s5 = (hx, gx, s6)"
    "run_waiters S B (Suc (length xs)) (map (\<lambda>i. JobHandle_init (jid i)) (ys @ zs)) gx s6 = (hy, gy, s7)"
    "fst (group_exit B None JoinOn ((run_callback ^^ length (xs @ ys @ zs)) gy) s7) =
      ExitGroup (''one or more jobs in group '' @ g_id g @ '' failed'') [err]"
    "\<forall>t. map (\<lambda>h. fst (handle_result S B h t)) (hx @ hy) = map (\<lambda>i. Ready (cancelled_outcome (jid i))) (xs @ ys @ zs)"
    "\<forall>t. map (\<lambda>h. handle_status B h t) (hx @ hy) = map (\<lambda>i. Inr CANCELLED) (xs @ ys @ zs)" "valid s7"
    "waiting s7 = []" "view s7 = (\<lambda>i. if i \<in> jid ` set (xs @ ys @ zs) then None else view s3 i)"
    using client.siblings_stop [where rec = rec and u = u, OF assms(1) s3(4) do w3 h3 assms(18,19) g3(1-6)] unfolding g3(7) by blast
  have v7: "view s7 = (\<lambda>i. if i \<in> jid ` set (xs @ j # ys @ zs) then None else view s i)"
    using s3(7) by (auto simp: s7(10) fun_eq_iff)
  have r: "\<forall>i \<in> set (xs @ ys @ zs). b_wait_cancel B (jid i) s3 = Ready (Inr ())" using s3(6) by blast
  show ?thesis
    by (rule exI [of _ s1], rule exI [of _ h], rule exI [of _ s2], rule exI [of _ ?g3], rule exI [of _ s3], rule exI [of _ s4],
        rule exI [of _ s5], rule exI [of _ hx], rule exI [of _ gx], rule exI [of _ s6], rule exI [of _ hy], rule exI [of _ gy],
        rule exI [of _ s7])
      (intro conjI s3(1-3) r s7(1-5) s3(8) s7(6) s3(9) s7(7-9) v7)
qed

lemma register_frame:
  "g_callbacks (fold group_register hs g) = g_callbacks g" "g_fanout (fold group_register hs g) = g_fanout g"
  "g_fanned (fold group_register hs g) = g_fanned g"
  by (induction hs arbitrary: g) (simp_all add: group_register_def Let_def)

text \<open>A \<open>cancel_siblings\<close> scope that has been entered and has spawned some jobs.\<close>

lemma opened_siblings:
  assumes "JobGroup_init gid ''cancel_siblings'' deadline = Inr g0" "hs \<noteq> []" "map h_job_id hs = ids"
    "g1 = fold group_register hs (group_enter clk g0)"
  shows "g_on_error g1 = CANCEL_SIBLINGS" "g_waiters g1 = map (\<lambda>i. (i, Waiting)) ids" "g_handles g1 \<noteq> []" "g_callbacks g1 = []"
    "g_failures g1 = []" "\<not> g_cancelling g1" "g_fanout g1 = None" "\<not> g_fanned g1" "g_id g1 = gid"
proof -
  let ?g = "group_enter clk g0"
  have g: "g_entered ?g" "g_id ?g = gid" "g_waiters ?g = []" "g_failures ?g = []" "g_on_error ?g = CANCEL_SIBLINGS"
    "g_callbacks ?g = []" "\<not> g_cancelling ?g" "g_fanout ?g = None" "\<not> g_fanned ?g"
    using assms(1) by (auto simp: JobGroup_init_def OnError_of_def group_enter_def rbind_Inr_iff)
  note reg1 = register_all [OF g(1), of hs, folded assms(4)]
  show "g_handles g1 \<noteq> []" by (rule reg1(6) [OF assms(2)])
  show "g_waiters g1 = map (\<lambda>i. (i, Waiting)) ids" unfolding reg1(1) g(3) by (simp flip: assms(3) add: comp_def)
  show "g_callbacks g1 = []" "g_fanout g1 = None" "\<not> g_fanned g1" unfolding assms(4) register_frame by (fact g)+
  show "g_on_error g1 = CANCEL_SIBLINGS" "g_failures g1 = []" "\<not> g_cancelling g1" "g_id g1 = gid"
    unfolding reg1 by (fact g)+
qed

text \<open>The whole scope, for the property below and for the programs that use it.\<close>

lemma fail_fast_scope:
  assumes "client B valid view waiting S canon fits" "valid s" "waiting s = []"
    "JobGroup_init gid ''cancel_siblings'' deadline = Inr g0" "distinct (map c_fresh (xs @ c # ys @ zs))"
    "\<forall>x \<in> set (xs @ c # ys @ zs). view s (c_fresh x) = None \<and> fits_job fits (call_job (Some gid) now x) \<and>
       map_of reg (t_name (c_task x)) \<noteq> None"
    "is_Exception e" "err = RuntimeError (''job '' @ py_repr (c_fresh c) @ '' failed: '' @ py_str_exc e)"
    "length races = length zs" "\<forall>race \<in> set races. settles fits race"
  shows "\<exists>hs g1 s0 rx r ry s1 s2 h s3 g3 s4 s5 s6 hx gx s7 hy gy s8.
    spawn_all S B now None (xs @ c # ys @ zs) (group_enter clk g0) s = (Inr hs, None, g1, s0) \<and>
    claim_all B (length (xs @ c # ys)) s0 = (rx @ r # ry, s1) \<and> length rx = length xs \<and> length ry = length ys \<and>
    worker_serve S B reg r (Ends (JobDone (Inl e))) s1 = (Continue, s2) \<and>
    run_waiters S B (length xs) [hs ! length xs] g1 s2 = ([h], waiter_done (length xs) (Inl err) g1, s3) \<and>
    run_fanout B (run_callback (waiter_done (length xs) (Inl err) g1)) s3 = (g3, s4) \<and>
    (\<forall>x \<in> set (xs @ ys @ zs). b_wait_cancel B (c_fresh x) s4 = Ready (Inr ())) \<and>
    serve_all S B reg (map2 (\<lambda>x r. (r, Ends (CancelSeen (u (c_fresh x))))) (xs @ ys) (rx @ ry)) s4 =
      (replicate (length (xs @ ys)) Continue, s5) \<and>
    worker_loop S B reg races s5 = (Continue, s6) \<and>
    run_waiters S B 0 (take (length xs) hs) g3 s6 = (hx, gx, s7) \<and>
    run_waiters S B (Suc (length xs)) (drop (Suc (length xs)) hs) gx s7 = (hy, gy, s8) \<and>
    fst (group_exit B None JoinOn ((run_callback ^^ length (xs @ ys @ zs)) gy) s8) =
      ExitGroup (''one or more jobs in group '' @ gid @ '' failed'') [err] \<and>
    (\<forall>t. handle_result S B h t = (Ready (Inl err), h, t)) \<and>
    (\<forall>t. map (\<lambda>h. fst (handle_result S B h t)) (hx @ hy) = map (\<lambda>x. Ready (cancelled_outcome (c_fresh x))) (xs @ ys @ zs)) \<and>
    (\<forall>t. handle_status B h t = Inr FAILED) \<and>
    (\<forall>t. map (\<lambda>h. handle_status B h t) (hx @ hy) = map (\<lambda>x. Inr CANCELLED) (xs @ ys @ zs)) \<and>
    valid s8 \<and> waiting s8 = [] \<and> view s8 = view s"
proof -
  let ?cs = "xs @ c # ys" and ?J = "running_call gid now" and ?Q = "queued_call gid now" and ?H = "\<lambda>x. JobHandle_init (c_fresh x)"
    and ?g = "group_enter clk g0"
  have g: "g_entered ?g" "g_id ?g = gid"
    using assms(4) by (auto simp: JobGroup_init_def OnError_of_def group_enter_def rbind_Inr_iff)
  define hs where "hs = map ?H (?cs @ zs)"
  define g1 where "g1 = fold group_register hs ?g"
  have d0: "distinct (map c_fresh (?cs @ zs))" using assms(5) by simp
  have f0: "\<forall>x \<in> set (?cs @ zs). view s (c_fresh x) = None \<and> fits_job fits (call_job (Some gid) now x) \<and>
      map_of reg (t_name (c_task x)) \<noteq> None" using assms(6) by simp
  obtain s0 rs s1 where s0: "spawn_all S B now None (?cs @ zs) ?g s = (Inr hs, None, g1, s0)"
    and s1: "claim_all B (length ?cs) s0 = (rs, s1)" "length rs = length ?cs" "valid s1" "waiting s1 = map c_fresh zs"
    "list_all2 (\<lambda>x r. held S fits reg (view s1) (?J x) r) ?cs rs" "\<forall>x \<in> set zs. queued_in S fits (view s1) (?Q x)"
    "\<forall>i. i \<notin> c_fresh ` set (?cs @ zs) \<longrightarrow> view s1 i = view s i"
    using client.scope_starts [OF assms(1-3) g(1,2) d0 f0 hs_def g1_def] by blast
  have s0': "spawn_all S B now None (xs @ c # ys @ zs) ?g s = (Inr hs, None, g1, s0)" using s0 by simp
  obtain rx r ry where rs: "rs = rx @ r # ry" "length rx = length xs" "length ry = length ys"
    using s1(5) by (auto simp: list_all2_append1 list_all2_Cons1 dest: list_all2_lengthD)
  have ji: "jid (?J x) = c_fresh x" "jid (?Q x) = c_fresh x" for x
    by (simp_all add: running_call_def queued_call_def call_job_def Job_init_def)
  have d1: "distinct (map c_fresh ?cs)" using d0 by auto
  define m where "m = map_of (zip (map c_fresh ?cs) (rx @ r # ry))"
  note Z = zip_read [OF d1 rs(2,3) m_def]
  have held: "\<forall>j \<in> set (map ?J xs @ ?J c # map ?J ys). held S fits reg (view s1) j (the (m (jid j)))"
    using zip_held [OF s1(5) [unfolded rs(1)] d1 m_def] by (simp add: ji ball_Un)
  have qd: "\<forall>z \<in> set (map ?Q zs). queued_in S fits (view s1) z" using s1(6) by simp
  have w1: "waiting s1 = map jid (map ?Q zs)" using s1(4) by (simp add: ji comp_def)
  have hn: "hs \<noteq> []" "map h_job_id hs = map jid (map ?J xs @ ?J c # map ?J ys @ map ?Q zs)"
    by (simp_all add: hs_def ji JobHandle_init_def comp_def)
  note G = opened_siblings [OF assms(4) hn g1_def, unfolded map_map comp_def]
  have d: "distinct (map jid (map ?J xs @ ?J c # map ?J ys @ map ?Q zs))" using assms(5) by (simp add: ji comp_def)
  have er: "err = RuntimeError (''job '' @ py_repr (jid (?J c)) @ '' failed: '' @ py_str_exc e)" by (simp add: ji assms(8))
  have hs: "hs ! length xs = ?H c" "take (length xs) hs = map ?H xs" "drop (Suc (length xs)) hs = map ?H (ys @ zs)"
    by (simp_all add: hs_def nth_append)
  have lr: "length races = length (map ?Q zs)" using assms(9) by simp
  obtain s2 h s3 g3 s4 s5 s6 hx gx s7 hy gy s8 where F:
    "worker_serve S B reg (the (m (jid (?J c)))) (Ends (JobDone (Inl e))) s1 = (Continue, s2)"
    "run_waiters S B (length (map ?J xs)) [JobHandle_init (jid (?J c))] g1 s2 = ([h], waiter_done (length (map ?J xs)) (Inl err) g1, s3)"
    "run_fanout B (run_callback (waiter_done (length (map ?J xs)) (Inl err) g1)) s3 = (g3, s4)"
    "\<forall>i \<in> set (map ?J xs @ map ?J ys @ map ?Q zs). b_wait_cancel B (jid i) s4 = Ready (Inr ())"
    "serve_all S B reg (map (\<lambda>i. (the (m (jid i)), Ends (CancelSeen (u (jid i))))) (map ?J xs @ map ?J ys)) s4 =
      (replicate (length (map ?J xs @ map ?J ys)) Continue, s5)"
    "worker_loop S B reg races s5 = (Continue, s6)"
    "run_waiters S B 0 (map (\<lambda>i. JobHandle_init (jid i)) (map ?J xs)) g3 s6 = (hx, gx, s7)"
    "run_waiters S B (Suc (length (map ?J xs))) (map (\<lambda>i. JobHandle_init (jid i)) (map ?J ys @ map ?Q zs)) gx s7 = (hy, gy, s8)"
    "fst (group_exit B None JoinOn ((run_callback ^^ length (map ?J xs @ map ?J ys @ map ?Q zs)) gy) s8) =
      ExitGroup (''one or more jobs in group '' @ g_id g1 @ '' failed'') [err]"
    "\<forall>t. handle_result S B h t = (Ready (Inl err), h, t)"
    "\<forall>t. map (\<lambda>h. fst (handle_result S B h t)) (hx @ hy) =
      map (\<lambda>i. Ready (cancelled_outcome (jid i))) (map ?J xs @ map ?J ys @ map ?Q zs)"
    "\<forall>t. handle_status B h t = Inr FAILED"
    "\<forall>t. map (\<lambda>h. handle_status B h t) (hx @ hy) = map (\<lambda>i. Inr CANCELLED) (map ?J xs @ map ?J ys @ map ?Q zs)"
    "valid s8" "waiting s8 = []"
    "view s8 = (\<lambda>i. if i \<in> jid ` set (map ?J xs @ ?J c # map ?J ys @ map ?Q zs) then None else view s1 i)"
    using fail_fast_runs [where u = "\<lambda>j. u (jid j)" and rec = "\<lambda>j. the (m (jid j))",
        OF assms(1) s1(3) G(1-8) d held qd w1 assms(7) er refl lr assms(10)] by (elim exE conjE) (rule that)
  have rd: "the (m (jid (?J c))) = r" using Z(1) by (simp add: ji)
  have jj: "map f (map ?J xs @ map ?J ys) = map (\<lambda>x. f (?J x)) (xs @ ys)" for f :: "job \<Rightarrow> hrecord \<times> race" by simp
  have sa: "serve_all S B reg (map2 (\<lambda>x r. (r, Ends (CancelSeen (u (c_fresh x))))) (xs @ ys) (rx @ ry)) s4 =
      (replicate (length (xs @ ys)) Continue, s5)"
    using F(5) Z(2) [of "\<lambda>x. Ends (CancelSeen (u (c_fresh x)))"] unfolding jj ji by simp
  have im: "jid ` set (map ?J xs @ ?J c # map ?J ys @ map ?Q zs) = c_fresh ` set (?cs @ zs)" by (simp add: image_image ji image_Un)
  have v8: "view s8 = view s"
  proof
    fix i
    show "view s8 i = view s i" using s1(7) f0 unfolding F(16) im by (cases "i \<in> c_fresh ` set (?cs @ zs)") auto
  qed
  have wc: "\<forall>x \<in> set (xs @ ys @ zs). b_wait_cancel B (c_fresh x) s4 = Ready (Inr ())" using F(4) by (simp add: ji ball_Un)
  have len: "length (map ?J xs @ map ?J ys @ map ?Q zs) = length (xs @ ys @ zs)" by simp
  have out: "\<forall>t. map (\<lambda>h. fst (handle_result S B h t)) (hx @ hy) = map (\<lambda>x. Ready (cancelled_outcome (c_fresh x))) (xs @ ys @ zs)"
    using F(11) unfolding map_append map_map comp_def ji .
  have sts: "\<forall>t. map (\<lambda>h. handle_status B h t) (hx @ hy) = map (\<lambda>x. Inr CANCELLED) (xs @ ys @ zs)"
    using F(13) unfolding map_append map_map comp_def .
  have wx: "run_waiters S B 0 (take (length xs) hs) g3 s6 = (hx, gx, s7)"
    using F(7) unfolding hs(2) by (simp only: map_map comp_def ji)
  have wy: "run_waiters S B (Suc (length xs)) (drop (Suc (length xs)) hs) gx s7 = (hy, gy, s8)"
    using F(8) unfolding hs(3) by (simp only: map_append map_map comp_def ji length_map)
  show ?thesis
    by (rule exI [of _ hs], rule exI [of _ g1], rule exI [of _ s0], rule exI [of _ rx], rule exI [of _ r], rule exI [of _ ry],
        rule exI [of _ s1], rule exI [of _ s2], rule exI [of _ h], rule exI [of _ s3], rule exI [of _ g3], rule exI [of _ s4],
        rule exI [of _ s5], rule exI [of _ s6], rule exI [of _ hx], rule exI [of _ gx], rule exI [of _ s7], rule exI [of _ hy],
        rule exI [of _ gy], rule exI [of _ s8])
      (intro conjI s0' s1(1) [unfolded rs(1)] rs(2,3) F(1) [unfolded rd] F(2) [unfolded length_map ji, folded hs(1)]
        F(3) [unfolded length_map] wc sa F(6) wx wy F(9) [unfolded len G(9)] F(10) out F(12) sts F(14,15) v8)
qed

section \<open>Properties\<close>

text \<open>(C3) Fail-fast from end to end, over any store. Jobs are spawned into a \<open>cancel_siblings\<close> scope, the first
  of them are claimed by as many loops and the rest stay queued; any of those that run fails. Its
  waiter gets the failure, the callback schedules the fan-out, and the batch request flags every
  sibling and wakes the watchers of those that run; their workers stop them, the queued ones are
  never run, and all are stored as cancelled; the scope then raises the one failure and nothing
  else. The failed handle raises that failure, the others raise \<open>JobCancelled\<close>, their statuses
  say the same, and the store is as it was before the scope.\<close>

theorem fail_fast_round_trip:
  assumes "client B valid view waiting S canon fits" "valid s" "waiting s = []"
    "JobGroup_init gid ''cancel_siblings'' deadline = Inr g0" "distinct (map c_fresh (xs @ c # ys @ zs))"
    "\<forall>x \<in> set (xs @ c # ys @ zs). view s (c_fresh x) = None \<and> fits_job fits (call_job (Some gid) now x) \<and>
       map_of reg (t_name (c_task x)) \<noteq> None"
    "is_Exception e" "err = RuntimeError (''job '' @ py_repr (c_fresh c) @ '' failed: '' @ py_str_exc e)"
    "length races = length zs" "\<forall>race \<in> set races. settles fits race"
  shows "\<exists>hs g1 s0 rx r ry s1 s2 h s3 g3 s4 s5 s6 hx gx s7 hy gy s8.
    spawn_all S B now None (xs @ c # ys @ zs) (group_enter clk g0) s = (Inr hs, None, g1, s0) \<and>
    claim_all B (length (xs @ c # ys)) s0 = (rx @ r # ry, s1) \<and> length rx = length xs \<and> length ry = length ys \<and>
    worker_serve S B reg r (Ends (JobDone (Inl e))) s1 = (Continue, s2) \<and>
    run_waiters S B (length xs) [hs ! length xs] g1 s2 = ([h], waiter_done (length xs) (Inl err) g1, s3) \<and>
    run_fanout B (run_callback (waiter_done (length xs) (Inl err) g1)) s3 = (g3, s4) \<and>
    (\<forall>x \<in> set (xs @ ys @ zs). b_wait_cancel B (c_fresh x) s4 = Ready (Inr ())) \<and>
    serve_all S B reg (map2 (\<lambda>x r. (r, Ends (CancelSeen (u (c_fresh x))))) (xs @ ys) (rx @ ry)) s4 =
      (replicate (length (xs @ ys)) Continue, s5) \<and>
    worker_loop S B reg races s5 = (Continue, s6) \<and>
    run_waiters S B 0 (take (length xs) hs) g3 s6 = (hx, gx, s7) \<and>
    run_waiters S B (Suc (length xs)) (drop (Suc (length xs)) hs) gx s7 = (hy, gy, s8) \<and>
    fst (group_exit B None JoinOn ((run_callback ^^ length (xs @ ys @ zs)) gy) s8) =
      ExitGroup (''one or more jobs in group '' @ gid @ '' failed'') [err] \<and>
    (\<forall>t. handle_result S B h t = (Ready (Inl err), h, t)) \<and>
    (\<forall>t. map (\<lambda>h. fst (handle_result S B h t)) (hx @ hy) = map (\<lambda>x. Ready (cancelled_outcome (c_fresh x))) (xs @ ys @ zs)) \<and>
    (\<forall>t. handle_status B h t = Inr FAILED) \<and>
    (\<forall>t. map (\<lambda>h. handle_status B h t) (hx @ hy) = map (\<lambda>x. Inr CANCELLED) (xs @ ys @ zs)) \<and>
    valid s8 \<and> waiting s8 = [] \<and> view s8 = view s"
  by (rule fail_fast_scope [OF assms])

text \<open>Three calls and two loops: the third waits when the first fails.\<close>

definition demo_three :: "spawn_call list" where
  "demo_three = demo_calls @ [\<lparr>c_task = demo_task, c_fresh = ''f3'', c_args = [PStr ''y''], c_kwargs = []\<rparr>]"

theorem fail_fast_round_trip_witness:
  "\<exists>hs g1 s0 r r' s1 s2 s4 s5 s6 gy s8.
    spawn_all JSONSerializer MemoryBackend demo_now None demo_three demo_group mem_init = (Inr hs, None, g1, s0) \<and>
    claim_all MemoryBackend 2 s0 = ([r, r'], s1) \<and>
    worker_serve JSONSerializer MemoryBackend demo_reg r (Ends (JobDone (Inl (RuntimeError ''boom'')))) s1 = (Continue, s2) \<and>
    serve_all JSONSerializer MemoryBackend demo_reg [(r', Ends (CancelSeen True))] s4 = ([Continue], s5) \<and>
    worker_loop JSONSerializer MemoryBackend demo_reg [Ends (JobDone (Inr (PInt 7)))] s5 = (Continue, s6) \<and>
    fst (group_exit MemoryBackend None JoinOn ((run_callback ^^ 2) gy) s8) =
      ExitGroup ''one or more jobs in group g failed'' [RuntimeError (''job '' @ py_repr ''f1'' @ '' failed: boom'')]"
proof -
  let ?c = "demo_three ! 0" and ?d = "demo_three ! 1" and ?e = "demo_three ! 2"
  let ?g0 = "\<lparr>g_id = ''g'', g_on_error = CANCEL_SIBLINGS, g_deadline = None, g_deadline_at = None, g_handles = [], g_waiters = [],
     g_failures = [], g_entered = False, g_cancelling = False, g_fanout = None, g_fanned = False, g_callbacks = []\<rparr>"
  let ?races = "[Ends (JobDone (Inr (PInt 7)))]"
  have i: "JobGroup_init ''g'' ''cancel_siblings'' None = Inr ?g0" by (simp add: JobGroup_init_def OnError_of_def)
  have w: "m_queue mem_init = []" by (simp add: mem_init_def)
  have cs: "[] @ ?c # [?d] @ [?e] = demo_three" "c_fresh ?c = ''f1''" by (simp_all add: demo_three_def demo_calls_def numeral_2_eq_2)
  have d: "distinct (map c_fresh ([] @ ?c # [?d] @ [?e]))" by (simp add: demo_three_def demo_calls_def numeral_2_eq_2)
  have f: "\<forall>x \<in> set ([] @ ?c # [?d] @ [?e]). mem_view mem_init (c_fresh x) = None \<and>
      fits_job json_fits (call_job (Some ''g'') demo_now x) \<and> map_of demo_reg (t_name (c_task x)) \<noteq> None"
    using demo_calls_fit [of "Some ''g''"] unfolding cs(1)
    by (auto simp: demo_three_def demo_calls_def demo_reg_def call_job_def Job_init_def fits_job_def is_dict_def mem_view_def mem_init_def)
  have x: "is_Exception (RuntimeError ''boom'')" by simp
  have r: "length ?races = length [?e]" "\<forall>race \<in> set ?races. settles json_fits race" by (simp_all add: settles_def)
  obtain hs g1 s0 rx r ry s1 s2 s4 s5 s6 gy s8 where T:
    "spawn_all JSONSerializer MemoryBackend demo_now None ([] @ ?c # [?d] @ [?e]) (group_enter 0 ?g0) mem_init = (Inr hs, None, g1, s0)"
    "claim_all MemoryBackend (length ([] @ ?c # [?d])) s0 = (rx @ r # ry, s1)" "length rx = length ([] :: spawn_call list)" "length ry = length [?d]"
    "worker_serve JSONSerializer MemoryBackend demo_reg r (Ends (JobDone (Inl (RuntimeError ''boom'')))) s1 = (Continue, s2)"
    "serve_all JSONSerializer MemoryBackend demo_reg (map2 (\<lambda>x r. (r, Ends (CancelSeen True))) ([] @ [?d]) (rx @ ry)) s4 =
      (replicate (length ([] @ [?d])) Continue, s5)"
    "worker_loop JSONSerializer MemoryBackend demo_reg ?races s5 = (Continue, s6)"
    "fst (group_exit MemoryBackend None JoinOn ((run_callback ^^ length ([] @ [?d] @ [?e])) gy) s8) =
      ExitGroup (''one or more jobs in group '' @ ''g'' @ '' failed'')
        [RuntimeError (''job '' @ py_repr (c_fresh ?c) @ '' failed: '' @ py_str_exc (RuntimeError ''boom''))]"
    using fail_fast_round_trip [where u = "\<lambda>_. True" and clk = 0, OF mem_client.client_axioms mem_inv_init w i d f x refl r]
    by (elim exE conjE) (rule that)
  obtain r' where r': "rx = []" "ry = [r']" using T(3,4) by (auto simp: length_Suc_conv)
  have 1: "spawn_all JSONSerializer MemoryBackend demo_now None demo_three demo_group mem_init = (Inr hs, None, g1, s0)"
    using T(1) unfolding cs(1) by (simp add: demo_group_def)
  have 2: "claim_all MemoryBackend 2 s0 = ([r, r'], s1)" using T(2) unfolding r' by (simp add: numeral_2_eq_2)
  have 3: "serve_all JSONSerializer MemoryBackend demo_reg [(r', Ends (CancelSeen True))] s4 = ([Continue], s5)"
    using T(6) by (simp add: r' del: serve_all.simps)
  have 4: "fst (group_exit MemoryBackend None JoinOn ((run_callback ^^ 2) gy) s8) =
      ExitGroup ''one or more jobs in group g failed'' [RuntimeError (''job '' @ py_repr ''f1'' @ '' failed: boom'')]"
    using T(8) by (simp add: cs numeral_2_eq_2)
  from 1 2 T(5) 3 T(7) 4 show ?thesis by blast
qed

end
