(* ===== verification/Storefront.thy ===== *)
theory Storefront
  imports Fail_Fast Queue "HOL-Library.Sublist"
begin

text \<open>
  \<open>scope_semantics_tour.py\<close>: the tasks of a small store and the six scenarios of the tour. A scenario
  is cut where it waits for the workers: what it does before, and what it does and prints after.
  Sleeping only lets time pass and is left out. What a task does with arguments of other types is
  a parameter, and so are the number 30.0 and the text of a value that is neither str nor int.
\<close>

section \<open>The tasks and the queue\<close>

type_synonym body = "pyval list \<Rightarrow> (string \<times> pyval) list \<Rightarrow> pyval await"

definition units_in_stock :: "body \<Rightarrow> body" where
  "units_in_stock other as ks =
     (case (as, ks) of
        ([PInt on_hand, PInt incoming], []) \<Rightarrow> Ready (Inr (PInt (on_hand + incoming)))
      | _ \<Rightarrow> other as ks)"

definition fetch_product :: "body \<Rightarrow> body" where
  "fetch_product other as ks =
     (case (as, ks) of
        ([PStr sku], []) \<Rightarrow>
          if sublist ''DISCONTINUED'' sku
          then Ready (Inl (ValueError (''HTTP 500 from the catalogue for '' @ sku)))
          else Ready (Inr (PStr (''<catalogue record for '' @ sku @ ''>'')))
      | _ \<Rightarrow> other as ks)"

definition stocktake :: "(pyval \<Rightarrow> string) \<Rightarrow> body \<Rightarrow> body" where
  "stocktake text other as ks =
     (case (as, ks) of
        ([seconds], []) \<Rightarrow> Ready (Inr (PStr (''counted the shelves for '' @ text seconds @ ''s'')))
      | _ \<Rightarrow> other as ks)"

definition storefront_tasks :: "string \<Rightarrow> (pyval \<Rightarrow> string) \<Rightarrow> body \<Rightarrow> registration list" where
  "storefront_tasks modname text other =
     [(None, 0, \<lparr>f_name = ''units_in_stock'', f_module = modname, f_call = units_in_stock other\<rparr>),
      (None, 0, \<lparr>f_name = ''fetch_product'', f_module = modname, f_call = fetch_product other\<rparr>),
      (Some ''slow.stocktake'', 0, \<lparr>f_name = ''stocktake'', f_module = modname, f_call = stocktake text other\<rparr>)]"

definition storefront :: "'s backend \<Rightarrow> string \<Rightarrow> (pyval \<Rightarrow> string) \<Rightarrow> body \<Rightarrow> unit res \<times> 's queue_obj" where
  "storefront B modname text other =
     register_all (storefront_tasks modname text other) (Queue_init B None None (Some ''storefront''))"

text \<open>A task object by the name it was registered under, and a call of it.\<close>

definition the_task :: "'s queue_obj \<Rightarrow> string \<Rightarrow> task_obj" where
  "the_task q name = the (map_of (q_task_registry q) name)"

definition call :: "'s queue_obj \<Rightarrow> string \<Rightarrow> pyval list \<Rightarrow> string \<Rightarrow> spawn_call" where
  "call q name as fresh = \<lparr>c_task = the_task q name, c_fresh = fresh, c_args = as, c_kwargs = []\<rparr>"

section \<open>The scenarios\<close>

definition text_of :: "(pyval \<Rightarrow> string) \<Rightarrow> pyval \<Rightarrow> string" where
  "text_of text v = (case v of PStr s \<Rightarrow> s | PInt n \<Rightarrow> str_of_int n | _ \<Rightarrow> text v)"

text \<open>\<open>async with q.group(...) as g\<close> around a list of spawns: a spawn that raises leaves the scope.\<close>

definition open_scope ::
  "'s queue_obj \<Rightarrow> string \<Rightarrow> int option \<Rightarrow> int \<Rightarrow> string \<Rightarrow> spawn_call list \<Rightarrow> datetime \<Rightarrow> 's
   \<Rightarrow> (exit_result + job_handle list \<times> group) \<times> 's" where
  "open_scope q on_error deadline clk gid calls now s =
     (case queue_group gid on_error deadline q of
        Inl e \<Rightarrow> (Inl (ExitRaises e), s)
      | Inr g \<Rightarrow>
          (case spawn_all (q_serializer q) (q_backend q) now None calls (group_enter clk g) s of
             (Inl e, current, g', s') \<Rightarrow>
               (case group_exit (q_backend q) (Some e) JoinOn g' s' of (r, g'', s'') \<Rightarrow> (Inl r, s''))
           | (Inr hs, current, g', s') \<Rightarrow> (Inr (hs, g'), s')))"

text \<open>Scenario 1: the lines right after the submission and once the result is there.\<close>

definition single_job_start ::
  "'s queue_obj \<Rightarrow> string \<Rightarrow> string \<Rightarrow> datetime \<Rightarrow> 's \<Rightarrow> (job_handle \<times> string) res \<times> 's" where
  "single_job_start q gid fresh now s =
     (case root_group gid ''cancel_siblings'' None q of
        Inl e \<Rightarrow> (Inl e, s)
      | Inr g \<Rightarrow>
          (case group_spawn (q_serializer q) (q_backend q) (the_task q ''storefront.units_in_stock'') fresh now None
                  [PInt 4, PInt 11] [] g s of
             (Inl e, current, g', s') \<Rightarrow> (Inl e, s')
           | (Inr h, current, g', s') \<Rightarrow>
               (rbind (handle_status (q_backend q) h s')
                  (\<lambda>st. Inr (h, ''    status right after submit: '' @ status_value st)), s')))"

definition single_job_end :: "(pyval \<Rightarrow> string) \<Rightarrow> 's queue_obj \<Rightarrow> job_handle \<Rightarrow> 's \<Rightarrow> string await \<times> 's" where
  "single_job_end text q h s =
     (case handle_result (q_serializer q) (q_backend q) h s of
        (Pending, h', s') \<Rightarrow> (Pending, s')
      | (Ready (Inl e), h', s') \<Rightarrow> (Ready (Inl e), s')
      | (Ready (Inr v), h', s') \<Rightarrow> (Ready (Inr (''    units_in_stock(4, 11) = '' @ text_of text v)), s'))"

text \<open>Scenario 2.\<close>

definition fan_out_calls :: "'s queue_obj \<Rightarrow> string list \<Rightarrow> spawn_call list" where
  "fan_out_calls q freshs =
     map2 (\<lambda>i. call q ''storefront.fetch_product'' [PStr (''SKU-100'' @ str_of_int i)]) [0, 1, 2, 3, 4] freshs"

definition print_results :: "(pyval \<Rightarrow> string) \<Rightarrow> 's queue_obj \<Rightarrow> job_handle list \<Rightarrow> 's \<Rightarrow> string list await \<times> 's" where
  "print_results text q hs s =
     (case results (q_serializer q) (q_backend q) hs s of
        (Pending, hs', s') \<Rightarrow> (Pending, s')
      | (Ready (Inl e), hs', s') \<Rightarrow> (Ready (Inl e), s')
      | (Ready (Inr vs), hs', s') \<Rightarrow> (Ready (Inr (map (\<lambda>v. ''    '' @ text_of text v) vs)), s'))"

text \<open>Scenario 3: the calls, and the lines after the scope.\<close>

definition fail_fast_calls :: "pyval \<Rightarrow> 's queue_obj \<Rightarrow> string list \<Rightarrow> spawn_call list" where
  "fail_fast_calls thirty q freshs =
     map2 (\<lambda>(name, as). call q name as)
       ((''storefront.fetch_product'', [PStr ''SKU-DISCONTINUED'']) # replicate 4 (''slow.stocktake'', [thirty])) freshs"

text \<open>\<open>except* RuntimeError\<close>: the part of a group it catches; a \<open>TaskNameError\<close> is one too.\<close>

definition caught :: "exit_result \<Rightarrow> pyexc list" where
  "caught r =
     (let runtime = (\<lambda>e. case e of RuntimeError m \<Rightarrow> True | TaskNameError m \<Rightarrow> True | _ \<Rightarrow> False)
      in case r of ExitGroup m es \<Rightarrow> filter runtime es | ExitRaises e \<Rightarrow> filter runtime [e] | _ \<Rightarrow> [])"

definition escapes :: "exit_result \<Rightarrow> bool" where
  "escapes r \<longleftrightarrow> (case r of ExitNormal \<Rightarrow> False | ExitWaits \<Rightarrow> False | ExitRaises e \<Rightarrow> caught r = [] | ExitGroup m es \<Rightarrow> caught r \<noteq> es)"

fun status_lines :: "'s queue_obj \<Rightarrow> job_handle list \<Rightarrow> 's \<Rightarrow> string list res" where
  "status_lines q [] s = Inr []"
| "status_lines q (h # hs) s =
     rbind (handle_status (q_backend q) h s) (\<lambda>st.
       rbind (status_lines q hs s) (\<lambda>ls.
         Inr ((''    job '' @ take 8 (h_job_id h) @ '' -> '' @ status_value st) # ls)))"

definition fail_fast_lines :: "'s queue_obj \<Rightarrow> exit_result \<Rightarrow> job_handle list \<Rightarrow> 's \<Rightarrow> string list res" where
  "fail_fast_lines q r hs s =
     rbind (status_lines q hs s) (\<lambda>ls.
       Inr ((case caught r of [] \<Rightarrow> [] | e # es \<Rightarrow> [''    scope raised: '' @ py_str_exc e]) @ ls))"

text \<open>Scenario 4: spawned outside any scope, cancelled once a worker had time to claim it.\<close>

definition explicit_cancel_start ::
  "pyval \<Rightarrow> 's queue_obj \<Rightarrow> string \<Rightarrow> string \<Rightarrow> datetime \<Rightarrow> 's \<Rightarrow> job_handle res \<times> 's" where
  "explicit_cancel_start thirty q gid fresh now s =
     (case root_group gid ''cancel_siblings'' None q of
        Inl e \<Rightarrow> (Inl e, s)
      | Inr g \<Rightarrow>
          (case group_spawn (q_serializer q) (q_backend q) (the_task q ''slow.stocktake'') fresh now None [thirty] [] g s of
             (r, current, g', s') \<Rightarrow> (r, s')))"

definition explicit_cancel_request :: "'s queue_obj \<Rightarrow> job_handle \<Rightarrow> 's \<Rightarrow> unit res \<times> 's" where
  "explicit_cancel_request q h s = handle_cancel (q_backend q) h s"

definition explicit_cancel_end :: "'s queue_obj \<Rightarrow> job_handle \<Rightarrow> 's \<Rightarrow> string list await \<times> 's" where
  "explicit_cancel_end q h s =
     (case handle_result (q_serializer q) (q_backend q) h s of
        (Pending, h', s') \<Rightarrow> (Pending, s')
      | (Ready (Inr v), h', s') \<Rightarrow> (Ready (Inr []), s')
      | (Ready (Inl e), h', s') \<Rightarrow>
          (Ready (case e of JobCancelled m \<Rightarrow> Inr [''    '' @ m] | _ \<Rightarrow> Inl e), s'))"

text \<open>Scenario 5: one job and a deadline.\<close>

definition scope_deadline_calls :: "pyval \<Rightarrow> 's queue_obj \<Rightarrow> string \<Rightarrow> spawn_call list" where
  "scope_deadline_calls thirty q fresh = [call q ''slow.stocktake'' [thirty] fresh]"

definition scope_deadline_lines :: "exit_result \<Rightarrow> string list res" where
  "scope_deadline_lines r =
     (case r of
        ExitRaises e \<Rightarrow> if e = TimeoutError then Inr [''    deadline hit: unfinished children were cancelled''] else Inl e
      | _ \<Rightarrow> Inr [])"

text \<open>Scenario 6: the calls, the report of the failures, and the results that were kept.\<close>

definition collect_skus :: "string list" where
  "collect_skus = [''SKU-1001'', ''SKU-DISCONTINUED-A'', ''SKU-1002'', ''SKU-DISCONTINUED-B'']"

definition collect_calls :: "'s queue_obj \<Rightarrow> string list \<Rightarrow> spawn_call list" where
  "collect_calls q freshs = map2 (\<lambda>sku. call q ''storefront.fetch_product'' [PStr sku]) collect_skus freshs"

fun kept_lines :: "(pyval \<Rightarrow> string) \<Rightarrow> 's queue_obj \<Rightarrow> job_handle list \<Rightarrow> 's \<Rightarrow> string list await \<times> 's" where
  "kept_lines text q [] s = (Ready (Inr []), s)"
| "kept_lines text q (h # hs) s =
     (case handle_status (q_backend q) h s of
        Inl e \<Rightarrow> (Ready (Inl e), s)
      | Inr st \<Rightarrow>
          if st = COMPLETED
          then (case handle_result (q_serializer q) (q_backend q) h s of
                  (Pending, h', s') \<Rightarrow> (Pending, s')
                | (Ready (Inl e), h', s') \<Rightarrow> (Ready (Inl e), s')
                | (Ready (Inr v), h', s') \<Rightarrow>
                    (case kept_lines text q hs s' of
                       (Ready (Inr ls), s'') \<Rightarrow> (Ready (Inr ((''    '' @ text_of text v) # ls)), s'')
                     | out \<Rightarrow> out))
          else kept_lines text q hs s)"

definition collect_lines ::
  "(pyval \<Rightarrow> string) \<Rightarrow> 's queue_obj \<Rightarrow> exit_result \<Rightarrow> job_handle list \<Rightarrow> 's \<Rightarrow> string list await \<times> 's" where
  "collect_lines text q r hs s =
     (case kept_lines text q hs s of
        (Ready (Inr ls), s') \<Rightarrow>
          (Ready (Inr ((case caught r of [] \<Rightarrow> []
             | es \<Rightarrow> [''    '' @ str_of_int (int (length es)) @ '' job(s) failed, successes kept:'']) @ ls)), s')
      | out \<Rightarrow> out)"

section \<open>The registry\<close>

text \<open>The names do not depend on the module, so a script and an importing worker agree.\<close>

lemma storefront_registry:
  assumes "storefront B modname text other = (r, q)"
  shows "r = Inr ()" "q_backend q = B" "q_serializer q = JSONSerializer"
    "map fst (q_task_registry q) = [''storefront.units_in_stock'', ''storefront.fetch_product'', ''slow.stocktake'']"
    "the_task q ''storefront.units_in_stock'' = \<lparr>t_func = units_in_stock other, t_name = ''storefront.units_in_stock'', t_max_retries = 0\<rparr>"
    "the_task q ''storefront.fetch_product'' = \<lparr>t_func = fetch_product other, t_name = ''storefront.fetch_product'', t_max_retries = 0\<rparr>"
    "the_task q ''slow.stocktake'' = \<lparr>t_func = stocktake text other, t_name = ''slow.stocktake'', t_max_retries = 0\<rparr>"
  using assms by (auto simp: storefront_def storefront_tasks_def queue_task_def derive_name_def Queue_init_def Let_def the_task_def)

text \<open>The race of a job that is left alone: its body ends by itself.\<close>

definition own_race :: "spawn_call \<Rightarrow> race" where
  "own_race c = Ends (JobDone
     (case t_func (c_task c) (c_args c) (c_kwargs c) of Ready r \<Rightarrow> r | Pending \<Rightarrow> Inl CancelledError))"

lemma storefront_outcomes:
  assumes "storefront B modname text other = (r, q)"
  shows "map own_race (collect_calls q [a, b, c, d]) = map (\<lambda>sku. Ends (JobDone
      (if sublist ''DISCONTINUED'' sku then Inl (ValueError (''HTTP 500 from the catalogue for '' @ sku))
       else Inr (PStr (''<catalogue record for '' @ sku @ ''>''))))) collect_skus"
  by (simp add: collect_calls_def collect_skus_def call_def own_race_def storefront_registry [OF assms] fetch_product_def)

text \<open>A scope whose jobs are left alone, from its opening to the way it is left: the verdict and the handles.\<close>

definition run_scope ::
  "'s queue_obj \<Rightarrow> string \<Rightarrow> int \<Rightarrow> string \<Rightarrow> spawn_call list \<Rightarrow> datetime \<Rightarrow> 's \<Rightarrow> (exit_result \<times> job_handle list \<times> 's) option" where
  "run_scope q on_error clk gid calls now s =
     (case open_scope q on_error None clk gid calls now s of
        (Inl r, s1) \<Rightarrow> None
      | (Inr (hs, g1), s1) \<Rightarrow>
          (case worker_loop (q_serializer q) (q_backend q) (q_task_registry q) (map own_race calls) s1 of
             (Continue, s2) \<Rightarrow>
               (case run_waiters (q_serializer q) (q_backend q) 0 hs g1 s2 of
                  (hs', g2, s3) \<Rightarrow> Some (fst (group_exit (q_backend q) None JoinOn g2 s3), hs', s3))
           | _ \<Rightarrow> None))"

section \<open>Reading the reports\<close>

text \<open>The fresh ids and the store of a run, and what a spawned call needs to travel as JSON.\<close>

definition tour_ready :: "('s \<Rightarrow> string \<Rightarrow> rec_view option) \<Rightarrow> 's \<Rightarrow> datetime \<Rightarrow> string list \<Rightarrow> bool" where
  "tour_ready view s now freshs \<longleftrightarrow> distinct freshs \<and> (\<forall>i \<in> set freshs. view s i = None) \<and> valid_datetime now"

lemma open_scope_runs:
  assumes "client B valid view waiting JSONSerializer json_norm json_fits" "valid s" "waiting s = []"
    "q_backend q = B" "q_serializer q = JSONSerializer" "mode \<in> {''cancel_siblings'', ''collect''}" "cs \<noteq> []"
    "tour_ready view s now (map c_fresh cs)" "\<forall>c \<in> set cs. c_kwargs c = [] \<and> (\<forall>v \<in> set (c_args c). json_fits v)"
    "length races = length cs" "\<forall>race \<in> set races. settles json_fits race"
    "outs = map2 (call_outcome JSONSerializer json_norm (q_task_registry q)) cs races"
    "mode = ''cancel_siblings'' \<longrightarrow> errors_of outs = []"
  shows "\<exists>hs g1 s1 s2 hs' g2 s3. open_scope q mode None clk gid cs now s = (Inr (hs, g1), s1) \<and>
    worker_loop JSONSerializer B (q_task_registry q) races s1 = (Continue, s2) \<and>
    run_waiters JSONSerializer B 0 hs g1 s2 = (hs', g2, s3) \<and> view s3 = view s \<and>
    fst (group_exit B None JoinOn g2 s3) =
      (if mode = ''collect'' \<and> errors_of outs \<noteq> []
       then ExitGroup (''one or more jobs in group '' @ gid @ '' failed'') (errors_of outs) else ExitNormal) \<and>
    length hs' = length cs \<and> (\<forall>t. map (\<lambda>h. handle_result JSONSerializer B h t) hs' = map2 (\<lambda>out h. (Ready out, h, t)) outs hs') \<and>
    (\<forall>t. map (\<lambda>h. handle_status B h t) hs' = map (\<lambda>out. Inr (outcome_status out)) outs)"
proof -
  obtain g0 where g0: "JobGroup_init gid mode None = Inr g0"
    using assms(6) by (auto simp: JobGroup_init_def OnError_of_def)
  have fit: "\<forall>c \<in> set cs. view s (c_fresh c) = None \<and> fits_job json_fits (call_job (Some gid) now c)"
    using assms(8,9) by (auto simp: tour_ready_def fits_job_def call_job_def Job_init_def is_dict_def)
  have d: "distinct (map c_fresh cs)" using assms(8) by (simp add: tour_ready_def)
  obtain hs g1 s1 s2 hs' g2 s3 where st:
    "spawn_all JSONSerializer B now None cs (group_enter clk g0) s = (Inr hs, None, g1, s1)"
    "worker_loop JSONSerializer B (q_task_registry q) races s1 = (Continue, s2)"
    "run_waiters JSONSerializer B 0 hs g1 s2 = (hs', g2, s3)" "view s3 = view s"
    "fst (group_exit B None JoinOn g2 s3) =
      (if mode = ''collect'' \<and> errors_of outs \<noteq> []
       then ExitGroup (''one or more jobs in group '' @ gid @ '' failed'') (errors_of outs) else ExitNormal)"
    "length hs' = length cs" "\<forall>t. map (\<lambda>h. handle_result JSONSerializer B h t) hs' = map2 (\<lambda>out h. (Ready out, h, t)) outs hs'"
    "\<forall>t. map (\<lambda>h. handle_status B h t) hs' = map (\<lambda>out. Inr (outcome_status out)) outs"
    using scope_runs [OF assms(1-3) g0 refl assms(7) d fit assms(10-13)] by blast
  show ?thesis
    by (intro exI [of _ hs] exI [of _ g1] exI [of _ s1] exI [of _ s2] exI [of _ hs'] exI [of _ g2] exI [of _ s3] conjI st(2-8))
      (simp add: open_scope_def queue_group_def g0 assms(4,5) st(1))
qed

text \<open>A handle keeps its id.\<close>

lemma handle_result_id: "handle_result S B h s = (r, h', s') \<Longrightarrow> h_job_id h' = h_job_id h"
  by (auto simp: handle_result_def handle_consume_def split: prod.splits await.splits sum.splits option.splits)

lemma run_waiters_ids: "run_waiters S B k hs g s = (hs', g', s') \<Longrightarrow> map h_job_id hs' = map h_job_id hs"
proof (induction hs arbitrary: k g s hs')
  case (Cons h hs)
  then show ?case by (auto dest!: handle_result_id split: prod.splits await.splits)
qed simp

lemma status_lines_read:
  assumes "\<forall>t. map (\<lambda>h. handle_status (q_backend q) h t) hs = map Inr sts"
  shows "status_lines q hs t = Inr (map2 (\<lambda>h st. ''    job '' @ take 8 (h_job_id h) @ '' -> '' @ status_value st) hs sts)"
proof -
  have "length hs = length sts" using assms by (metis length_map)
  then show ?thesis using assms
  proof (induction hs sts rule: list_induct2)
    case (Cons h hs st sts)
    then show ?case by (simp add: rbind_def)
  qed simp
qed

fun kept_of :: "(pyval \<Rightarrow> string) \<Rightarrow> pyval res list \<Rightarrow> string list" where
  "kept_of text [] = []"
| "kept_of text (Inl e # outs) = kept_of text outs"
| "kept_of text (Inr v # outs) = (''    '' @ text_of text v) # kept_of text outs"

lemma kept_lines_read:
  assumes "\<forall>t. map (\<lambda>h. handle_result (q_serializer q) (q_backend q) h t) hs = map2 (\<lambda>out h. (Ready out, h, t)) outs hs"
    "\<forall>t. map (\<lambda>h. handle_status (q_backend q) h t) hs = map (\<lambda>out. Inr (outcome_status out)) outs" "length hs = length outs"
  shows "kept_lines text q hs t = (Ready (Inr (kept_of text outs)), t)"
  using assms(3,1,2)
proof (induction hs outs rule: list_induct2)
  case (Cons h hs out outs)
  then have h: "handle_result (q_serializer q) (q_backend q) h t = (Ready out, h, t)"
    "handle_status (q_backend q) h t = Inr (outcome_status out)" by simp_all
  have rest: "kept_lines text q hs t = (Ready (Inr (kept_of text outs)), t)" using Cons by simp
  show ?case
  proof (cases out)
    case (Inl e)
    then have "outcome_status out \<noteq> COMPLETED" by (cases e) (simp_all add: outcome_status_def)
    then show ?thesis using h rest Inl by simp
  next
    case (Inr v)
    then show ?thesis using h rest by (simp add: outcome_status_def)
  qed
qed simp

section \<open>What the scenarios print\<close>

lemma storefront_known:
  assumes "storefront B modname text other = (r, q)"
    "name \<in> {''storefront.units_in_stock'', ''storefront.fetch_product'', ''slow.stocktake''}"
  shows "t_name (the_task q name) = name" "map_of (q_task_registry q) name \<noteq> None"
proof -
  note R = storefront_registry [OF assms(1)]
  show "t_name (the_task q name) = name" using assms(2) R(5-7) by auto
  have "name \<in> set (map fst (q_task_registry q))" unfolding R(4) using assms(2) by simp
  then show "map_of (q_task_registry q) name \<noteq> None" by (simp add: map_of_eq_None_iff)
qed

lemma sku_digits: "map str_of_int [0, 1, 2, 3, 4] = [''0'', ''1'', ''2'', ''3'', ''4'']"
  by code_simp

text \<open>Scenario 2 over any store: the scope ends normally and the records come in the order of the spawns.\<close>

lemma fan_out_prints:
  assumes "client B valid view waiting JSONSerializer json_norm json_fits" "valid s" "waiting s = []"
    "storefront B modname text other = (r, q)" "tour_ready view s now [a, b, c, d, e]"
  shows "\<exists>hs s1. run_scope q ''cancel_siblings'' clk gid (fan_out_calls q [a, b, c, d, e]) now s = Some (ExitNormal, hs, s1) \<and> view s1 = view s \<and>
    (\<forall>t. print_results text q hs t = (Ready (Inr (map (\<lambda>i. ''    <catalogue record for SKU-100'' @ str_of_int i @ ''>'') [0, 1, 2, 3, 4])), t))"
proof -
  note R = storefront_registry [OF assms(4)]
  let ?cs = "fan_out_calls q [a, b, c, d, e]"
  let ?rec = "\<lambda>i. ''<catalogue record for SKU-100'' @ str_of_int i @ ''>''"
  let ?outs = "map (\<lambda>i. Inr (PStr (?rec i)) :: pyval res) [0, 1, 2, 3, 4]"
  have cs: "?cs = map2 (\<lambda>i f. \<lparr>c_task = the_task q ''storefront.fetch_product'', c_fresh = f, c_args = [PStr (''SKU-100'' @ str_of_int i)], c_kwargs = []\<rparr>)
      [0, 1, 2, 3, 4] [a, b, c, d, e]"
    by (simp add: fan_out_calls_def call_def)
  have races: "map own_race ?cs = map (\<lambda>i. Ends (JobDone (Inr (PStr (?rec i))))) [0, 1, 2, 3, 4]"
    using sku_digits by (simp add: cs own_race_def R(6) fetch_product_def sublist_code)
  have k: "map_of (q_task_registry q) ''storefront.fetch_product'' \<noteq> None" by (rule storefront_known(2) [OF assms(4)]) simp
  have outs: "?outs = map2 (call_outcome JSONSerializer json_norm (q_task_registry q)) ?cs (map own_race ?cs)"
    using k unfolding races by (simp add: cs call_outcome_def R(6) Let_def)
  have ne: "?cs \<noteq> []" "map c_fresh ?cs = [a, b, c, d, e]" by (simp_all add: cs)
  have ready: "tour_ready view s now (map c_fresh ?cs)" unfolding ne(2) by (rule assms(5))
  have plainargs: "\<forall>x \<in> set ?cs. c_kwargs x = [] \<and> (\<forall>v \<in> set (c_args x). json_fits v)" by (simp add: cs)
  have st: "\<forall>race \<in> set (map own_race ?cs). settles json_fits race" unfolding races by (simp add: settles_def)
  have er: "''cancel_siblings'' = ''cancel_siblings'' \<longrightarrow> errors_of ?outs = []" by (simp add: errors_of_def)
  have mode: "''cancel_siblings'' \<in> {''cancel_siblings'', ''collect''}" by simp
  have len: "length (map own_race ?cs) = length ?cs" by simp
  obtain hs g1 s1 s2 hs' g2 s3 where T:
    "open_scope q ''cancel_siblings'' None clk gid ?cs now s = (Inr (hs, g1), s1)"
    "worker_loop JSONSerializer B (q_task_registry q) (map own_race ?cs) s1 = (Continue, s2)"
    "run_waiters JSONSerializer B 0 hs g1 s2 = (hs', g2, s3)" "view s3 = view s"
    "fst (group_exit B None JoinOn g2 s3) = (if ''cancel_siblings'' = ''collect'' \<and> errors_of ?outs \<noteq> []
       then ExitGroup (''one or more jobs in group '' @ gid @ '' failed'') (errors_of ?outs) else ExitNormal)"
    "length hs' = length ?cs" "\<forall>t. map (\<lambda>h. handle_result JSONSerializer B h t) hs' = map2 (\<lambda>out h. (Ready out, h, t)) ?outs hs'"
    using open_scope_runs [OF assms(1-3) R(2,3) mode ne(1) ready plainargs len st outs er] by blast
  have "\<forall>t. map (\<lambda>h. handle_result JSONSerializer B h t) hs' =
      map2 (\<lambda>out h. (Ready out, h, t)) (map Inr (map (\<lambda>i. PStr (?rec i)) [0, 1, 2, 3, 4])) hs'" using T(7) by simp
  then have "results JSONSerializer B hs' t = (Ready (Inr (map (\<lambda>i. PStr (?rec i)) [0, 1, 2, 3, 4])), hs', t)" for t
    using results_kept [of JSONSerializer B hs' "map (\<lambda>i. PStr (?rec i)) [0, 1, 2, 3, 4]" t] T(6) ne(2) by (simp add: cs)
  then have "\<forall>t. print_results text q hs' t = (Ready (Inr (map (\<lambda>i. ''    <catalogue record for SKU-100'' @ str_of_int i @ ''>'') [0, 1, 2, 3, 4])), t)"
    unfolding print_results_def R(2,3) by (simp add: text_of_def)
  moreover have "run_scope q ''cancel_siblings'' clk gid ?cs now s = Some (ExitNormal, hs', s3)"
    using T(1-3,5) by (simp add: run_scope_def R(2,3))
  ultimately show ?thesis using T(4) by blast
qed

text \<open>Scenario 6: both failures are reported, and the records of the other two are kept.\<close>

lemma collect_prints:
  assumes "client B valid view waiting JSONSerializer json_norm json_fits" "valid s" "waiting s = []"
    "storefront B modname text other = (r, q)" "tour_ready view s now [a, b, c, d]"
  shows "\<exists>r hs s1. run_scope q ''collect'' clk gid (collect_calls q [a, b, c, d]) now s = Some (r, hs, s1) \<and> view s1 = view s \<and>
    \<not> escapes r \<and>
    (\<forall>t. collect_lines text q r hs t =
       (Ready (Inr [''    2 job(s) failed, successes kept:'', ''    <catalogue record for SKU-1001>'', ''    <catalogue record for SKU-1002>'']), t))"
proof -
  note R = storefront_registry [OF assms(4)]
  let ?cs = "collect_calls q [a, b, c, d]"
  let ?bad = "\<lambda>i sku. RuntimeError (''job '' @ py_repr i @ '' failed: HTTP 500 from the catalogue for '' @ sku)"
  let ?outs = "[Inr (PStr ''<catalogue record for SKU-1001>''), Inl (?bad b ''SKU-DISCONTINUED-A''),
     Inr (PStr ''<catalogue record for SKU-1002>''), Inl (?bad d ''SKU-DISCONTINUED-B'')] :: pyval res list"
  have cs: "?cs = map2 (\<lambda>sku f. \<lparr>c_task = the_task q ''storefront.fetch_product'', c_fresh = f, c_args = [PStr sku], c_kwargs = []\<rparr>)
      collect_skus [a, b, c, d]"
    by (simp add: collect_calls_def call_def)
  have races: "map own_race ?cs = [Ends (JobDone (Inr (PStr ''<catalogue record for SKU-1001>''))),
      Ends (JobDone (Inl (ValueError ''HTTP 500 from the catalogue for SKU-DISCONTINUED-A''))),
      Ends (JobDone (Inr (PStr ''<catalogue record for SKU-1002>''))),
      Ends (JobDone (Inl (ValueError ''HTTP 500 from the catalogue for SKU-DISCONTINUED-B'')))]"
    by (simp add: cs collect_skus_def own_race_def R(6) fetch_product_def sublist_code)
  have k: "map_of (q_task_registry q) ''storefront.fetch_product'' \<noteq> None" by (rule storefront_known(2) [OF assms(4)]) simp
  have outs: "?outs = map2 (call_outcome JSONSerializer json_norm (q_task_registry q)) ?cs (map own_race ?cs)"
    using k unfolding races by (simp add: cs collect_skus_def call_outcome_def R(6) Let_def)
  have ne: "?cs \<noteq> []" "map c_fresh ?cs = [a, b, c, d]" by (simp_all add: cs collect_skus_def)
  have ready: "tour_ready view s now (map c_fresh ?cs)" unfolding ne(2) by (rule assms(5))
  have plainargs: "\<forall>x \<in> set ?cs. c_kwargs x = [] \<and> (\<forall>v \<in> set (c_args x). json_fits v)" by (simp add: cs collect_skus_def)
  have st: "\<forall>race \<in> set (map own_race ?cs). settles json_fits race" unfolding races by (simp add: settles_def)
  have er: "''collect'' = ''cancel_siblings'' \<longrightarrow> errors_of ?outs = []" by simp
  have es: "errors_of ?outs = [?bad b ''SKU-DISCONTINUED-A'', ?bad d ''SKU-DISCONTINUED-B'']" by (simp add: errors_of_def)
  have mode: "''collect'' \<in> {''cancel_siblings'', ''collect''}" by simp
  have len: "length (map own_race ?cs) = length ?cs" by simp
  obtain hs g1 s1 s2 hs' g2 s3 where T:
    "open_scope q ''collect'' None clk gid ?cs now s = (Inr (hs, g1), s1)"
    "worker_loop JSONSerializer B (q_task_registry q) (map own_race ?cs) s1 = (Continue, s2)"
    "run_waiters JSONSerializer B 0 hs g1 s2 = (hs', g2, s3)" "view s3 = view s"
    "fst (group_exit B None JoinOn g2 s3) = (if ''collect'' = ''collect'' \<and> errors_of ?outs \<noteq> []
       then ExitGroup (''one or more jobs in group '' @ gid @ '' failed'') (errors_of ?outs) else ExitNormal)"
    "length hs' = length ?cs" "\<forall>t. map (\<lambda>h. handle_result JSONSerializer B h t) hs' = map2 (\<lambda>out h. (Ready out, h, t)) ?outs hs'"
    "\<forall>t. map (\<lambda>h. handle_status B h t) hs' = map (\<lambda>out. Inr (outcome_status out)) ?outs"
    using open_scope_runs [OF assms(1-3) R(2,3) mode ne(1) ready plainargs len st outs er] by blast
  have ex: "fst (group_exit B None JoinOn g2 s3) = ExitGroup (''one or more jobs in group '' @ gid @ '' failed'')
      [?bad b ''SKU-DISCONTINUED-A'', ?bad d ''SKU-DISCONTINUED-B'']" using T(5) unfolding es by simp
  have lh: "length hs' = length ?outs" using T(6) by (simp add: cs collect_skus_def)
  have kept: "kept_lines text q hs' t = (Ready (Inr (kept_of text ?outs)), t)" for t
    by (rule kept_lines_read [OF T(7) [folded R(2,3)] T(8) [folded R(2)] lh])
  have "str_of_int 2 = ''2''" using sku_digits by simp
  then have "\<forall>t. collect_lines text q (fst (group_exit B None JoinOn g2 s3)) hs' t =
       (Ready (Inr [''    2 job(s) failed, successes kept:'', ''    <catalogue record for SKU-1001>'', ''    <catalogue record for SKU-1002>'']), t)"
    unfolding ex collect_lines_def kept by (simp add: caught_def text_of_def)
  moreover have "\<not> escapes (fst (group_exit B None JoinOn g2 s3))" unfolding ex by (simp add: escapes_def caught_def)
  moreover have "run_scope q ''collect'' clk gid ?cs now s = Some (fst (group_exit B None JoinOn g2 s3), hs', s3)"
    using T(1-3) by (simp add: run_scope_def R(2,3))
  ultimately show ?thesis using T(4) by blast
qed

lemma spawn_all_ids: "spawn_all S B now None cs g s = (Inr hs, rest) \<Longrightarrow> map h_job_id hs = map c_fresh cs"
proof (induction cs arbitrary: g s hs rest)
  case (Cons c cs)
  have i: "h_job_id h = c_fresh c" if "group_spawn S B t (c_fresh c) now None as ks g s = (Inr h, x)" for t as ks h x
    using that by (auto simp: group_spawn_def child_id_def submit_def Let_def JobHandle_init_def Job_init_def split: sum.splits prod.splits)
  from Cons.prems obtain h g' s' hs' rest' where
    1: "group_spawn S B (c_task c) (c_fresh c) now None (c_args c) (c_kwargs c) g s = (Inr h, None, g', s')"
    "spawn_all S B now None cs g' s' = (Inr hs', rest')" "hs = h # hs'"
    by (auto simp: group_spawn_def child_id_def split: prod.splits sum.splits)
  then show ?case using i [OF 1(1)] Cons.IH [OF 1(2)] by simp
qed simp

text \<open>Scenario 3, with four loops for five jobs: the catalogue answers, three stocktakes run, the last one waits.\<close>

lemma fail_fast_prints:
  assumes "client B valid view waiting JSONSerializer json_norm json_fits" "valid s" "waiting s = []"
    "storefront B modname text other = (r, q)" "tour_ready view s now [a, b, c, d, e]" "json_fits thirty"
  shows "\<exists>hs g1 s0 rx r2 r3 r4 s1 s2 h s3 g3 g4 s4 s5 s6 hy gy s8.
    open_scope q ''cancel_siblings'' None clk gid (fail_fast_calls thirty q [a, b, c, d, e]) now s = (Inr (hs, g1), s0) \<and>
    claim_all B 4 s0 = ([rx, r2, r3, r4], s1) \<and>
    worker_serve JSONSerializer B (q_task_registry q) rx (own_race (hd (fail_fast_calls thirty q [a, b, c, d, e]))) s1 = (Continue, s2) \<and>
    run_waiters JSONSerializer B 0 [hd hs] g1 s2 = ([h], g3, s3) \<and>
    run_fanout B (run_callback g3) s3 = (g4, s4) \<and>
    serve_all JSONSerializer B (q_task_registry q) (map (\<lambda>r. (r, Ends (CancelSeen True))) [r2, r3, r4]) s4 =
      ([Continue, Continue, Continue], s5) \<and>
    worker_loop JSONSerializer B (q_task_registry q) (map own_race [last (fail_fast_calls thirty q [a, b, c, d, e])]) s5 = (Continue, s6) \<and>
    run_waiters JSONSerializer B 1 (tl hs) g4 s6 = (hy, gy, s8) \<and> view s8 = view s \<and>
    (let verdict = fst (group_exit B None JoinOn ((run_callback ^^ 4) gy) s8)
     in \<not> escapes verdict \<and>
       (\<forall>t. fail_fast_lines q verdict (h # hy) t = Inr
         ((''    scope raised: job '' @ py_repr a @ '' failed: HTTP 500 from the catalogue for SKU-DISCONTINUED'') #
          (''    job '' @ take 8 a @ '' -> failed'') # map (\<lambda>i. ''    job '' @ take 8 i @ '' -> cancelled'') [b, c, d, e])))"
proof -
  note R = storefront_registry [OF assms(4)]
  let ?slow = "\<lambda>f. \<lparr>c_task = the_task q ''slow.stocktake'', c_fresh = f, c_args = [thirty], c_kwargs = []\<rparr>"
  let ?c = "\<lparr>c_task = the_task q ''storefront.fetch_product'', c_fresh = a, c_args = [PStr ''SKU-DISCONTINUED''], c_kwargs = []\<rparr>"
  let ?cs = "[] @ ?c # [?slow b, ?slow c, ?slow d] @ [?slow e]"
  let ?e = "ValueError ''HTTP 500 from the catalogue for SKU-DISCONTINUED''"
  let ?err = "RuntimeError (''job '' @ py_repr a @ '' failed: '' @ py_str_exc ?e)"
  have cs: "fail_fast_calls thirty q [a, b, c, d, e] = ?cs"
    by (simp add: fail_fast_calls_def call_def numeral_eq_Suc)
  have race: "own_race ?c = Ends (JobDone (Inl ?e))" by (simp add: own_race_def R(6) fetch_product_def sublist_code)
  obtain g0 where g0: "JobGroup_init gid ''cancel_siblings'' None = Inr g0"
    by (auto simp: JobGroup_init_def OnError_of_def)
  have d: "distinct (map c_fresh ?cs)" using assms(5) by (simp add: tour_ready_def)
  have k: "t_name (the_task q n) = n" "map_of (q_task_registry q) n \<noteq> None" if "n \<in> {''storefront.fetch_product'', ''slow.stocktake''}" for n
    using storefront_known [OF assms(4), of n] that by auto
  have fit: "\<forall>x \<in> set ?cs. view s (c_fresh x) = None \<and> fits_job json_fits (call_job (Some gid) now x) \<and>
      map_of (q_task_registry q) (t_name (c_task x)) \<noteq> None"
    using assms(5,6) k by (simp add: tour_ready_def fits_job_def call_job_def Job_init_def is_dict_def)
  have x: "is_Exception ?e" by simp
  have er: "?err = RuntimeError (''job '' @ py_repr (c_fresh ?c) @ '' failed: '' @ py_str_exc ?e)" by simp
  have races: "length [own_race (?slow e)] = length [?slow e]" "\<forall>race \<in> set [own_race (?slow e)]. settles json_fits race"
    by (simp_all add: own_race_def R(7) stocktake_def settles_def)
  obtain hs g1 s0 rx r ry s1 s2 h s3 g3 s4 s5 s6 hx gx s7 hy gy s8 where T:
    "spawn_all JSONSerializer B now None ?cs (group_enter clk g0) s = (Inr hs, None, g1, s0)"
    "claim_all B (length ([] @ ?c # [?slow b, ?slow c, ?slow d])) s0 = (rx @ r # ry, s1)"
    "length rx = length ([] :: spawn_call list)" "length ry = length [?slow b, ?slow c, ?slow d]"
    "worker_serve JSONSerializer B (q_task_registry q) r (Ends (JobDone (Inl ?e))) s1 = (Continue, s2)"
    "run_waiters JSONSerializer B (length ([] :: spawn_call list)) [hs ! length ([] :: spawn_call list)] g1 s2 =
      ([h], waiter_done (length ([] :: spawn_call list)) (Inl ?err) g1, s3)"
    "run_fanout B (run_callback (waiter_done (length ([] :: spawn_call list)) (Inl ?err) g1)) s3 = (g3, s4)"
    "serve_all JSONSerializer B (q_task_registry q) (map2 (\<lambda>x r. (r, Ends (CancelSeen True))) ([] @ [?slow b, ?slow c, ?slow d]) (rx @ ry)) s4 =
      (replicate (length ([] @ [?slow b, ?slow c, ?slow d])) Continue, s5)"
    "worker_loop JSONSerializer B (q_task_registry q) [own_race (?slow e)] s5 = (Continue, s6)"
    "run_waiters JSONSerializer B 0 (take (length ([] :: spawn_call list)) hs) g3 s6 = (hx, gx, s7)"
    "run_waiters JSONSerializer B (Suc (length ([] :: spawn_call list))) (drop (Suc (length ([] :: spawn_call list))) hs) gx s7 = (hy, gy, s8)"
    "fst (group_exit B None JoinOn ((run_callback ^^ length ([] @ [?slow b, ?slow c, ?slow d] @ [?slow e])) gy) s8) =
      ExitGroup (''one or more jobs in group '' @ gid @ '' failed'') [?err]"
    "\<forall>t. handle_status B h t = Inr FAILED"
    "\<forall>t. map (\<lambda>h. handle_status B h t) (hx @ hy) = map (\<lambda>x. Inr CANCELLED) ([] @ [?slow b, ?slow c, ?slow d] @ [?slow e])"
    "view s8 = view s"
    using fail_fast_scope [where u = "\<lambda>_. True" and clk = clk, OF assms(1-3) g0 d fit x er races] by (elim exE conjE) (rule that)
  have ids: "map h_job_id hs = [a, b, c, d, e]" using spawn_all_ids [OF T(1)] by simp
  then obtain h1 hr where hs: "hs = h1 # hr" "h_job_id h1 = a" "map h_job_id hr = [b, c, d, e]" by auto
  obtain r2 r3 r4 where rs: "rx = []" "ry = [r2, r3, r4]" using T(3,4) by (auto simp: length_Suc_conv)
  have hx: "hx = []" "gx = g3" "s7 = s6" using T(10) by simp_all
  let ?g1 = "waiter_done 0 (Inl ?err) g1"
  have sc: "open_scope q ''cancel_siblings'' None clk gid ?cs now s = (Inr (hs, g1), s0)"
    using T(1) by (simp add: open_scope_def queue_group_def g0 R(2,3))
  have cl: "claim_all B 4 s0 = ([r, r2, r3, r4], s1)" using T(2) by (simp add: rs numeral_eq_Suc)
  have ws: "worker_serve JSONSerializer B (q_task_registry q) r (own_race ?c) s1 = (Continue, s2)" unfolding race by (rule T(5))
  have rw: "run_waiters JSONSerializer B 0 [hd hs] g1 s2 = ([h], ?g1, s3)" using T(6) by (simp add: hs(1) del: run_waiters.simps)
  have rf: "run_fanout B (run_callback ?g1) s3 = (g3, s4)" using T(7) by simp
  have sa: "serve_all JSONSerializer B (q_task_registry q) (map (\<lambda>r. (r, Ends (CancelSeen True))) [r2, r3, r4]) s4 =
      ([Continue, Continue, Continue], s5)"
    using T(8) by (simp add: rs numeral_eq_Suc del: serve_all.simps)
  have rl: "run_waiters JSONSerializer B 1 (tl hs) g3 s6 = (hy, gy, s8)" using T(11) by (simp add: hs(1) hx del: run_waiters.simps)
  have ex: "fst (group_exit B None JoinOn ((run_callback ^^ 4) gy) s8) = ExitGroup (''one or more jobs in group '' @ gid @ '' failed'') [?err]"
    using T(12) by (simp add: numeral_eq_Suc)
  have hi: "h_job_id h = a" using run_waiters_ids [OF rw] by (simp add: hs)
  have yi: "map h_job_id hy = [b, c, d, e]" using run_waiters_ids [OF rl] by (simp add: hs)
  have sts: "\<forall>t. map (\<lambda>h. handle_status (q_backend q) h t) (h # hy) = map Inr [FAILED, CANCELLED, CANCELLED, CANCELLED, CANCELLED]"
    using T(13,14) by (simp add: hx R(2))
  have hy: "\<exists>y1 y2 y3 y4. hy = [y1, y2, y3, y4] \<and> h_job_id y1 = b \<and> h_job_id y2 = c \<and> h_job_id y3 = d \<and> h_job_id y4 = e"
    using yi by (auto simp: map_eq_Cons_conv)
  have sl: "status_lines q (h # hy) t = Inr ((''    job '' @ take 8 a @ '' -> failed'') #
      map (\<lambda>i. ''    job '' @ take 8 i @ '' -> cancelled'') [b, c, d, e])" for t
    using hy hi unfolding status_lines_read [OF sts] by (elim exE conjE) simp
  have ca: "caught (ExitGroup m [?err]) = [?err]" "\<not> escapes (ExitGroup m [?err])" for m by (simp_all add: caught_def escapes_def)
  have lines: "fail_fast_lines q (ExitGroup m [?err]) (h # hy) t = Inr
      ((''    scope raised: job '' @ py_repr a @ '' failed: HTTP 500 from the catalogue for SKU-DISCONTINUED'') #
        (''    job '' @ take 8 a @ '' -> failed'') # map (\<lambda>i. ''    job '' @ take 8 i @ '' -> cancelled'') [b, c, d, e])" for m t
    unfolding fail_fast_lines_def sl ca by simp
  have fin: "let verdict = fst (group_exit B None JoinOn ((run_callback ^^ 4) gy) s8)
     in \<not> escapes verdict \<and>
       (\<forall>t. fail_fast_lines q verdict (h # hy) t = Inr
         ((''    scope raised: job '' @ py_repr a @ '' failed: HTTP 500 from the catalogue for SKU-DISCONTINUED'') #
          (''    job '' @ take 8 a @ '' -> failed'') # map (\<lambda>i. ''    job '' @ take 8 i @ '' -> cancelled'') [b, c, d, e]))"
    unfolding ex Let_def using ca(2) lines by blast
  have hl: "hd ?cs = ?c" "last ?cs = ?slow e" by simp_all
  show ?thesis
    unfolding cs hl
    by (rule exI [of _ hs], rule exI [of _ g1], rule exI [of _ s0], rule exI [of _ r], rule exI [of _ r2], rule exI [of _ r3],
        rule exI [of _ r4], rule exI [of _ s1], rule exI [of _ s2], rule exI [of _ h], rule exI [of _ s3], rule exI [of _ ?g1], rule exI [of _ g3],
        rule exI [of _ s4], rule exI [of _ s5], rule exI [of _ s6], rule exI [of _ hy], rule exI [of _ gy], rule exI [of _ s8])
      (unfold list.map, intro conjI sc cl ws rw rf sa [unfolded list.map] T(9) rl T(15) fin [unfolded list.map])
qed

section \<open>Properties\<close>

text \<open>(C22) Scenarios 2 and 6 of the tour over any store, from the opening of the scope to the last printed line:
  the five records come in the order of the spawns, and with \<open>collect\<close> the two failures are
  counted and the other two records kept; no other exception escapes and the store is as before.\<close>

theorem storefront_tour:
  assumes "client B valid view waiting JSONSerializer json_norm json_fits" "valid s" "waiting s = []"
    "storefront B modname text other = (r, q)" "tour_ready view s now [a, b, c, d, e]"
  shows "(\<exists>hs s1. run_scope q ''cancel_siblings'' clk gid (fan_out_calls q [a, b, c, d, e]) now s = Some (ExitNormal, hs, s1) \<and> view s1 = view s \<and>
      (\<forall>t. print_results text q hs t = (Ready (Inr (map (\<lambda>i. ''    <catalogue record for SKU-100'' @ str_of_int i @ ''>'') [0, 1, 2, 3, 4])), t))) \<and>
    (\<exists>verdict hs s1. run_scope q ''collect'' clk gid (collect_calls q [a, b, c, d]) now s = Some (verdict, hs, s1) \<and> view s1 = view s \<and>
      \<not> escapes verdict \<and>
      (\<forall>t. collect_lines text q verdict hs t =
        (Ready (Inr [''    2 job(s) failed, successes kept:'', ''    <catalogue record for SKU-1001>'', ''    <catalogue record for SKU-1002>'']), t)))"
proof (rule conjI)
  show "\<exists>hs s1. run_scope q ''cancel_siblings'' clk gid (fan_out_calls q [a, b, c, d, e]) now s = Some (ExitNormal, hs, s1) \<and> view s1 = view s \<and>
      (\<forall>t. print_results text q hs t = (Ready (Inr (map (\<lambda>i. ''    <catalogue record for SKU-100'' @ str_of_int i @ ''>'') [0, 1, 2, 3, 4])), t))"
    by (rule fan_out_prints [OF assms])
  have "tour_ready view s now [a, b, c, d]" using assms(5) by (simp add: tour_ready_def)
  then show "\<exists>verdict hs s1. run_scope q ''collect'' clk gid (collect_calls q [a, b, c, d]) now s = Some (verdict, hs, s1) \<and> view s1 = view s \<and>
      \<not> escapes verdict \<and>
      (\<forall>t. collect_lines text q verdict hs t =
        (Ready (Inr [''    2 job(s) failed, successes kept:'', ''    <catalogue record for SKU-1001>'', ''    <catalogue record for SKU-1002>'']), t))"
    by (rule collect_prints [OF assms(1-4)])
qed

lemma demo_tour_ready: "tour_ready mem_view mem_init demo_now [''f1'', ''f2'', ''f3'', ''f4'', ''f5'']"
  by (auto simp: tour_ready_def mem_view_def mem_init_def demo_now_def valid_datetime_def days_in_month_def is_leap_def)

definition demo_storefront :: "mem queue_obj" where
  "demo_storefront = snd (storefront MemoryBackend ''__main__'' type_name (\<lambda>as ks. Pending))"

lemma demo_storefront_queue: "storefront MemoryBackend ''__main__'' type_name (\<lambda>as ks. Pending) = (Inr (), demo_storefront)"
  using storefront_registry(1) [of MemoryBackend "''__main__''" type_name "\<lambda>as ks. Pending"]
  by (cases "storefront MemoryBackend ''__main__'' type_name (\<lambda>as ks. Pending)") (auto simp: demo_storefront_def)

theorem storefront_tour_witness:
  "\<exists>verdict hs s1. run_scope demo_storefront ''collect'' 0 ''g'' (collect_calls demo_storefront [''f1'', ''f2'', ''f3'', ''f4'']) demo_now mem_init =
      Some (verdict, hs, s1) \<and> mem_view s1 = mem_view mem_init \<and>
    fst (collect_lines type_name demo_storefront verdict hs s1) =
      Ready (Inr [''    2 job(s) failed, successes kept:'', ''    <catalogue record for SKU-1001>'', ''    <catalogue record for SKU-1002>''])"
proof -
  have w: "m_queue mem_init = []" by (simp add: mem_init_def)
  from storefront_tour [OF mem_client.client_axioms mem_inv_init w demo_storefront_queue demo_tour_ready, of 0 "''g''"]
  obtain verdict hs s1 where "run_scope demo_storefront ''collect'' 0 ''g'' (collect_calls demo_storefront [''f1'', ''f2'', ''f3'', ''f4''])
      demo_now mem_init = Some (verdict, hs, s1)" "mem_view s1 = mem_view mem_init"
    "\<forall>t. collect_lines type_name demo_storefront verdict hs t =
       (Ready (Inr [''    2 job(s) failed, successes kept:'', ''    <catalogue record for SKU-1001>'', ''    <catalogue record for SKU-1002>'']), t)"
    by (elim conjE exE) (rule that)
  then show ?thesis by (metis fst_conv)
qed

text \<open>Scenario 3 over any store, with the four loops of the tour: the catalogue call fails while three stocktakes run and
  one waits. The scope raises that failure alone, nothing else escapes, and the lines printed name
  the failure, one failed job and four cancelled ones.\<close>

lemma storefront_fail_fast:
  assumes "client B valid view waiting JSONSerializer json_norm json_fits" "valid s" "waiting s = []"
    "storefront B modname text other = (r, q)" "tour_ready view s now [a, b, c, d, e]" "json_fits thirty"
  shows "\<exists>hs g1 s0 rx r2 r3 r4 s1 s2 h s3 g3 g4 s4 s5 s6 hy gy s8.
    open_scope q ''cancel_siblings'' None clk gid (fail_fast_calls thirty q [a, b, c, d, e]) now s = (Inr (hs, g1), s0) \<and>
    claim_all B 4 s0 = ([rx, r2, r3, r4], s1) \<and>
    worker_serve JSONSerializer B (q_task_registry q) rx (own_race (hd (fail_fast_calls thirty q [a, b, c, d, e]))) s1 = (Continue, s2) \<and>
    run_waiters JSONSerializer B 0 [hd hs] g1 s2 = ([h], g3, s3) \<and>
    run_fanout B (run_callback g3) s3 = (g4, s4) \<and>
    serve_all JSONSerializer B (q_task_registry q) (map (\<lambda>r. (r, Ends (CancelSeen True))) [r2, r3, r4]) s4 =
      ([Continue, Continue, Continue], s5) \<and>
    worker_loop JSONSerializer B (q_task_registry q) (map own_race [last (fail_fast_calls thirty q [a, b, c, d, e])]) s5 = (Continue, s6) \<and>
    run_waiters JSONSerializer B 1 (tl hs) g4 s6 = (hy, gy, s8) \<and> view s8 = view s \<and>
    (let verdict = fst (group_exit B None JoinOn ((run_callback ^^ 4) gy) s8)
     in \<not> escapes verdict \<and>
       (\<forall>t. fail_fast_lines q verdict (h # hy) t = Inr
         ((''    scope raised: job '' @ py_repr a @ '' failed: HTTP 500 from the catalogue for SKU-DISCONTINUED'') #
          (''    job '' @ take 8 a @ '' -> failed'') # map (\<lambda>i. ''    job '' @ take 8 i @ '' -> cancelled'') [b, c, d, e])))"
  by (rule fail_fast_prints [OF assms])

theorem storefront_fail_fast_witness:
  "\<exists>hs g1 s0. open_scope demo_storefront ''cancel_siblings'' None 0 ''g''
      (fail_fast_calls (PInt 30) demo_storefront [''f1'', ''f2'', ''f3'', ''f4'', ''f5'']) demo_now mem_init = (Inr (hs, g1), s0) \<and>
    (\<exists>h hy verdict t. \<not> escapes verdict \<and> fail_fast_lines demo_storefront verdict (h # hy) t = Inr
      ((''    scope raised: job '' @ py_repr ''f1'' @ '' failed: HTTP 500 from the catalogue for SKU-DISCONTINUED'') #
        ''    job f1 -> failed'' # [''    job f2 -> cancelled'', ''    job f3 -> cancelled'', ''    job f4 -> cancelled'', ''    job f5 -> cancelled'']))"
proof -
  have w: "m_queue mem_init = []" by (simp add: mem_init_def)
  have th: "json_fits (PInt 30)" by simp
  obtain hs g1 s0 h hy verdict where T: "open_scope demo_storefront ''cancel_siblings'' None 0 ''g''
      (fail_fast_calls (PInt 30) demo_storefront [''f1'', ''f2'', ''f3'', ''f4'', ''f5'']) demo_now mem_init = (Inr (hs, g1), s0)"
    "\<not> escapes verdict" "\<forall>t. fail_fast_lines demo_storefront verdict (h # hy) t = Inr
      ((''    scope raised: job '' @ py_repr ''f1'' @ '' failed: HTTP 500 from the catalogue for SKU-DISCONTINUED'') #
        (''    job '' @ take 8 ''f1'' @ '' -> failed'') # map (\<lambda>i. ''    job '' @ take 8 i @ '' -> cancelled'') [''f2'', ''f3'', ''f4'', ''f5''])"
    using storefront_fail_fast [where clk = 0 and gid = "''g''", OF mem_client.client_axioms mem_inv_init w demo_storefront_queue
        demo_tour_ready th] unfolding Let_def by (elim exE conjE) (rule that)
  have "fail_fast_lines demo_storefront verdict (h # hy) mem_init = Inr
      ((''    scope raised: job '' @ py_repr ''f1'' @ '' failed: HTTP 500 from the catalogue for SKU-DISCONTINUED'') #
        ''    job f1 -> failed'' # [''    job f2 -> cancelled'', ''    job f3 -> cancelled'', ''    job f4 -> cancelled'', ''    job f5 -> cancelled''])"
    using T(3) by simp
  with T(1,2) show ?thesis by blast
qed

end
