(* ===== verification/Packing_Line.thy ===== *)
theory Packing_Line
  imports Recovery Cli Fan_Out "HOL-Library.Product_Lexorder" "HOL-Library.Sublist"
begin

text \<open>
  \<open>worker_crash_job_reclaimed.py\<close>: a producer that starts its own workers, watches the raw keys of the
  Redis backend while one of them dies, and reports what changed. The commands it adds to those
  of the backend (\<open>KEYS\<close>, \<open>ZRANGE\<close>, \<open>LRANGE\<close>) are parameters with their documented effect
  (\<open>monitor_reads\<close>). Loops that sleep between looks are functions of what each look finds. Clocks,
  subprocess handles and the time stamp of a printed line are left out.
\<close>

section \<open>Settings, the queue and the workers\<close>

definition TARGET :: string where "TARGET = ''worker_crash_job_reclaimed:q''"
definition HEARTBEAT_INTERVAL :: int where "HEARTBEAT_INTERVAL = 1"
definition WORKER_TTL :: int where "WORKER_TTL = 4"
definition WORKER_LOG_LEVEL :: string where "WORKER_LOG_LEVEL = ''warning''"
definition PACK_SECONDS :: int where "PACK_SECONDS = 3"

definition pack_order ::
  "(pyval list \<Rightarrow> (string \<times> pyval) list \<Rightarrow> pyval await) \<Rightarrow> pyval list \<Rightarrow> (string \<times> pyval) list \<Rightarrow> pyval await" where
  "pack_order other as ks =
     (case (as, ks) of
        ([PStr order_id, PInt seconds], []) \<Rightarrow>
          Ready (Inr (PStr (order_id @ '' packed in '' @ format_g (of_int seconds) @ ''s'')))
      | _ \<Rightarrow> other as ks)"

definition fulfillment ::
  "'s redis \<Rightarrow> string \<Rightarrow> string \<Rightarrow> (pyval list \<Rightarrow> (string \<times> pyval) list \<Rightarrow> pyval await) \<Rightarrow> 's queue_obj res" where
  "fulfillment R fresh modname other =
     rbind (RedisBackend_init fresh DEFAULT_RESULT_TTL_SECONDS WORKER_TTL) (\<lambda>c.
       case register_all [(None, 0, \<lparr>f_name = ''pack_order'', f_module = modname, f_call = pack_order other\<rparr>)]
              (Queue_init (RedisBackend R c) (Some (worker_ttl c)) None (Some ''fulfillment'')) of
         (r, q) \<Rightarrow> rbind r (\<lambda>u. Inr q))"

text \<open>The command line a worker is started with, after \<open>python -m TaskQueue\<close>.\<close>

definition spawn_worker :: "string list" where
  "spawn_worker = [''worker'', TARGET, ''--log-level'', WORKER_LOG_LEVEL, ''--heartbeat-interval'', str_of_int HEARTBEAT_INTERVAL]"

section \<open>Labels\<close>

definition removeprefix :: "string \<Rightarrow> string \<Rightarrow> string" where
  "removeprefix s p = (if take (length p) s = p then drop (length p) s else s)"

type_synonym labels = "string pydict"

definition worker_label :: "labels \<Rightarrow> string \<Rightarrow> string" where
  "worker_label ls w = (case map_of ls w of Some l \<Rightarrow> l | None \<Rightarrow> take 6 w)"

definition order_label :: "labels \<Rightarrow> string \<Rightarrow> string" where
  "order_label ls i = (case map_of ls i of Some l \<Rightarrow> l | None \<Rightarrow> take 6 i)"

definition as_fields :: "int pydict \<Rightarrow> string" where
  "as_fields values = ''{'' @ join_with '', '' (map (\<lambda>(k, v). k @ '': '' @ str_of_int v) (sort values)) @ ''}''"

text \<open>Each look reads the registered workers; the first look with exactly one that is not known names it.\<close>

fun register_worker :: "string \<Rightarrow> string list list \<Rightarrow> string set \<Rightarrow> labels \<Rightarrow> (string \<times> string set \<times> labels) res" where
  "register_worker label [] known ls = Inl (RuntimeError (''worker '' @ label @ '' never registered a heartbeat''))"
| "register_worker label (members # looks) known ls =
     (case remdups (filter (\<lambda>w. w \<notin> known) members) of
        [w] \<Rightarrow> Inr (w, insert w known, AList.update w label ls)
      | _ \<Rightarrow> register_worker label looks known ls)"

section \<open>Reading the bookkeeping\<close>

record 's reads =
  c_KEYS :: "string \<Rightarrow> 's \<Rightarrow> string list"
  c_ZRANGE :: "string \<Rightarrow> 's \<Rightarrow> (string \<times> int) list"
  c_LRANGE :: "string \<Rightarrow> 's \<Rightarrow> string list"

text \<open>A pattern \<open>p*\<close> is given by its prefix.\<close>

locale monitor_reads = redis_server R for R :: "'s redis" +
  fixes C :: "'s reads"
  assumes c_KEYS: "k \<in> set (c_KEYS C p s) \<Longrightarrow> prefix p k \<and> keys (r_view R s) k \<noteq> None"
    and c_KEYS_all: "finite (dom (keys (r_view R s))) \<Longrightarrow> prefix p k \<Longrightarrow> keys (r_view R s) k \<noteq> None \<Longrightarrow> k \<in> set (c_KEYS C p s)"
    and c_KEYS_distinct: "distinct (c_KEYS C p s)"
    and c_ZRANGE: "holds_zset (r_view R s) k \<Longrightarrow> mset (c_ZRANGE C k s) = mset (zset_at (r_view R s) k)"
    and c_LRANGE: "holds_list (r_view R s) k \<Longrightarrow> c_LRANGE C k s = list_at (r_view R s) k"

record bookkeeping =
  line :: string
  workers :: "string set"

definition render_worker :: "labels \<Rightarrow> int \<Rightarrow> string \<times> int \<Rightarrow> string" where
  "render_worker ls now beat =
     (let age = now - snd beat; label = worker_label ls (fst beat)
      in if age \<le> HEARTBEAT_INTERVAL then label else label @ ''(silent '' @ str_of_int age @ ''s)'')"

definition read_leases :: "'s redis \<Rightarrow> 's reads \<Rightarrow> labels \<Rightarrow> 's \<Rightarrow> int pydict" where
  "read_leases R C ls s =
     fold (\<lambda>k. AList.update (worker_label ls (removeprefix k ''processing:'')) (int (r_LLEN R k s)))
       (c_KEYS C ''processing:'' s) []"

fun read_attempts :: "'s redis \<Rightarrow> labels \<Rightarrow> 's \<Rightarrow> string list \<Rightarrow> int pydict \<Rightarrow> int pydict res" where
  "read_attempts R ls s [] d = Inr d"
| "read_attempts R ls s (k # ks) d =
     (case r_HGET R k ''attempts'' s of
        None \<Rightarrow> read_attempts R ls s ks d
      | Some raw \<Rightarrow> rbind (py_int raw) (\<lambda>n. read_attempts R ls s ks (AList.update (order_label ls (removeprefix k ''jobs:'')) n d)))"

definition snapshot :: "'s redis \<Rightarrow> 's reads \<Rightarrow> labels \<Rightarrow> labels \<Rightarrow> 's \<Rightarrow> bookkeeping res" where
  "snapshot R C wl ol s =
     (let now = r_TIME R s;
          beats = c_ZRANGE C WORKERS s;
          names = join_with '', '' (sort (map (render_worker wl now) beats));
          leases = read_leases R C wl s
      in rbind (read_attempts R ol s (c_KEYS C ''jobs:'' s) []) (\<lambda>tried.
           Inr \<lparr>line = ''queued='' @ str_of_int (int (r_LLEN R QUEUE s)) @ ''  leases='' @ as_fields leases @
                  ''  attempts='' @ as_fields tried @ ''  workers=['' @ names @ '']'',
                workers = set (map fst beats)\<rparr>))"

definition holders :: "'s redis \<Rightarrow> 's reads \<Rightarrow> labels \<Rightarrow> labels \<Rightarrow> 's \<Rightarrow> string" where
  "holders R C wl ol s =
     join_with '', '' (sort (concat (map (\<lambda>k.
       map (\<lambda>i. worker_label wl (removeprefix k ''processing:'') @ '' holds '' @ order_label ol i) (c_LRANGE C k s))
       (c_KEYS C ''processing:'' s))))"

section \<open>Reporting\<close>

definition reaped_line :: "labels \<Rightarrow> string \<Rightarrow> string" where
  "reaped_line wl w = ''REAPED - '' @ worker_label wl w @ [CHR 0x27] @ ''s heartbeat expired; its lease went back on the queue''"

text \<open>One round of the monitor: what it says, and what it compares the next reading with.\<close>

definition monitor_round :: "labels \<Rightarrow> bookkeeping \<Rightarrow> bookkeeping \<Rightarrow> string list" where
  "monitor_round wl previous reading =
     map (reaped_line wl) (sorted_list_of_set (workers previous - workers reading)) @
     (if line reading \<noteq> line previous then [''redis | '' @ line reading] else [])"

fun monitor :: "labels \<Rightarrow> bookkeeping \<Rightarrow> bookkeeping list \<Rightarrow> string list" where
  "monitor wl previous [] = []"
| "monitor wl previous (r # rs) = monitor_round wl previous r @ monitor wl r rs"

text \<open>The looks of \<open>kill_when_both_running\<close>, and what it says before and after the kill.\<close>

fun all_running :: "'s backend \<Rightarrow> job_handle list \<Rightarrow> 's \<Rightarrow> bool res" where
  "all_running B [] s = Inr True"
| "all_running B (h # hs) s = rbind (handle_status B h s) (\<lambda>st. rbind (all_running B hs s) (\<lambda>b. Inr (st = RUNNING \<and> b)))"

definition kill_lines ::
  "'s redis \<Rightarrow> 's reads \<Rightarrow> labels \<Rightarrow> labels \<Rightarrow> string \<Rightarrow> int \<Rightarrow> 's \<Rightarrow> string list" where
  "kill_lines R C wl ol w pid s =
     [''both orders leased - '' @ holders R C wl ol s,
      ''KILLED worker '' @ worker_label wl w @ '' (pid '' @ str_of_int pid @ '') mid-order - its lease is now orphaned'']"

text \<open>The producer: the two orders, their labels, and the lines at the end.\<close>

definition pack_calls :: "task_obj \<Rightarrow> string list \<Rightarrow> spawn_call list" where
  "pack_calls t freshs =
     map2 (\<lambda>i f. \<lparr>c_task = t, c_fresh = f, c_args = [PStr (''ORDER-'' @ str_of_int (1234 + i)), PInt PACK_SECONDS], c_kwargs = []\<rparr>)
       [0, 1] freshs"

definition label_orders :: "job_handle list \<Rightarrow> labels" where
  "label_orders hs = fold (\<lambda>(index, h). AList.update (h_job_id h) (''order-'' @ str_of_int index)) (zip [1..int (length hs)] hs) []"

definition orders_line :: "labels \<Rightarrow> string" where
  "orders_line ol = ''packing two orders: '' @ join_with '', '' (map snd ol)"

section \<open>A reading is a function of the keyspace\<close>

lemma removeprefix_keys [simp]: "removeprefix (processing_key w) ''processing:'' = w" "removeprefix (job_key i) ''jobs:'' = i"
  by (simp_all add: removeprefix_def processing_key_def job_key_def)

lemma fold_update_distinct:
  "distinct (map fst (d @ kvs)) \<Longrightarrow> fold (\<lambda>(k, v). AList.update k v) kvs d = d @ kvs"
proof (induction kvs arbitrary: d)
  case (Cons p kvs)
  obtain k v where p: "p = (k, v)" by (cases p)
  have "k \<notin> fst ` set d" using Cons.prems p by auto
  then have "AList.update k v d = d @ [(k, v)]" by (rule update_new)
  then show ?case using Cons.IH [of "d @ [(k, v)]"] Cons.prems p by simp
qed simp

lemma as_fields_mset:
  assumes "mset a = mset b"
  shows "as_fields a = as_fields b"
proof -
  have "sort a = sort b" by (rule properties_for_sort) (simp_all add: assms)
  then show ?thesis by (simp only: as_fields_def)
qed

lemma processing_keys: "prefix ''processing:'' k \<Longrightarrow> \<exists>w. k = processing_key w"
  by (auto simp: prefix_def processing_key_def)

lemma job_keys: "prefix ''jobs:'' k \<Longrightarrow> \<exists>i. k = job_key i"
  by (auto simp: prefix_def job_key_def)

context monitor_reads
begin

text \<open>The keys of one kind, as a reading gets them, are the keys present of that kind.\<close>

lemma read_leases_list:
  assumes "inj_on (worker_label ls) {w. keys (r_view R s) (processing_key w) \<noteq> None}" "rb_inv (r_view R s)"
  shows "read_leases R C ls s =
    map (\<lambda>k. (worker_label ls (removeprefix k ''processing:''), int (length (list_at (r_view R s) k)))) (c_KEYS C ''processing:'' s)"
proof -
  let ?ks = "c_KEYS C ''processing:'' s"
  let ?f = "\<lambda>k. (worker_label ls (removeprefix k ''processing:''), int (r_LLEN R k s))"
  have ks: "\<exists>w. k = processing_key w \<and> keys (r_view R s) k \<noteq> None" if "k \<in> set ?ks" for k
    using c_KEYS [OF that] processing_keys by blast
  have "inj_on (fst \<circ> ?f) (set ?ks)"
  proof (rule inj_onI)
    fix k k' assume k: "k \<in> set ?ks" "k' \<in> set ?ks" "(fst \<circ> ?f) k = (fst \<circ> ?f) k'"
    obtain w w' where w: "k = processing_key w" "keys (r_view R s) k \<noteq> None" "k' = processing_key w'" "keys (r_view R s) k' \<noteq> None"
      using ks [OF k(1)] ks [OF k(2)] by blast
    then have "worker_label ls w = worker_label ls w'" using k(3) by simp
    then show "k = k'" using assms(1) w by (simp add: inj_on_def)
  qed
  then have d: "distinct (map fst (map ?f ?ks))" using c_KEYS_distinct by (simp add: distinct_map)
  have "read_leases R C ls s = fold (\<lambda>(k, v). AList.update k v) (map ?f ?ks) []"
    by (simp add: read_leases_def fold_map comp_def)
  also have "\<dots> = map ?f ?ks" using fold_update_distinct [of "[]" "map ?f ?ks"] d by simp
  also have "\<dots> = map (\<lambda>k. (worker_label ls (removeprefix k ''processing:''), int (length (list_at (r_view R s) k)))) ?ks"
  proof (rule map_cong [OF refl])
    fix k assume "k \<in> set ?ks"
    then obtain w where "k = processing_key w" using ks by blast
    then show "?f k = (worker_label ls (removeprefix k ''processing:''), int (length (list_at (r_view R s) k)))"
      using rb_invD(3) [OF assms(2), of w] by (simp add: r_LLEN)
  qed
  finally show ?thesis .
qed

lemma attempts_readable:
  assumes "rb_inv (r_view R s)" "r_HGET R (job_key i) ''attempts'' s = Some raw"
  shows "\<exists>n. py_int raw = Inr n"
proof -
  have h: "holds_hash (r_view R s) (job_key i)" using rb_invD(1) [OF assms(1)] .
  then have m: "map_of (hash_at (r_view R s) (job_key i)) ''attempts'' = Some raw" using assms(2) by (simp add: r_HGET)
  then have "hash_at (r_view R s) (job_key i) \<noteq> []" by auto
  then obtain r where r: "good_rec r" "hash_at (r_view R s) (job_key i) = enc_rec r"
    using rb_invD(5) [OF assms(1), of i] unfolding stored_ok_def by blast
  then obtain n where "map_of r ''attempts'' = Some (Str (str_of_int n))" by (auto simp: good_rec_def storable_def)
  then have "raw = str_of_int n" using m map_of_enc_rec [of r "''attempts''"] by (simp add: r(2))
  then show ?thesis by simp
qed

text \<open>The entry an order contributes to the attempts.\<close>

definition tried_entry :: "labels \<Rightarrow> rstate \<Rightarrow> string \<Rightarrow> (string \<times> int) list" where
  "tried_entry ls v k =
     (case map_of (hash_at v k) ''attempts'' of
        None \<Rightarrow> []
      | Some raw \<Rightarrow> (case py_int raw of Inl e \<Rightarrow> [] | Inr n \<Rightarrow> [(order_label ls (removeprefix k ''jobs:''), n)]))"

lemma read_attempts_list:
  assumes "rb_inv (r_view R s)" "\<forall>k \<in> set ks. \<exists>i. k = job_key i"
  shows "read_attempts R ls s ks d = Inr (fold (\<lambda>(k, v). AList.update k v) (concat (map (tried_entry ls (r_view R s)) ks)) d)"
  using assms(2)
proof (induction ks arbitrary: d)
  case (Cons k ks)
  then obtain i where k: "k = job_key i" by auto
  have rest: "read_attempts R ls s ks d' = Inr (fold (\<lambda>(k, v). AList.update k v) (concat (map (tried_entry ls (r_view R s)) ks)) d')" for d'
    using Cons by simp
  have h: "r_HGET R k ''attempts'' s = map_of (hash_at (r_view R s) k) ''attempts''"
    unfolding k by (rule r_HGET) (rule rb_invD(1) [OF assms(1)])
  show ?case
  proof (cases "r_HGET R k ''attempts'' s")
    case None
    then have "tried_entry ls (r_view R s) k = []" using h by (simp add: tried_entry_def)
    then show ?thesis using None rest by simp
  next
    case (Some raw)
    then obtain n where n: "py_int raw = Inr n" using attempts_readable [OF assms(1)] k by blast
    have "map_of (hash_at (r_view R s) k) ''attempts'' = Some raw" using h Some by simp
    then have "tried_entry ls (r_view R s) k = [(order_label ls (removeprefix k ''jobs:''), n)]"
      using n by (simp add: tried_entry_def)
    then show ?thesis using n rest Some by (simp add: rbind_def)
  qed
qed simp

lemma tried_keys:
  assumes "\<forall>k \<in> set ks. \<exists>i. k = job_key i \<and> keys v k \<noteq> None" "distinct ks" "inj_on (order_label ls) {i. keys v (job_key i) \<noteq> None}"
  shows "distinct (map fst (concat (map (tried_entry ls v) ks)))"
  using assms(1,2)
proof (induction ks)
  case (Cons k ks)
  have sub: "set (map fst (tried_entry ls v x)) \<subseteq> {order_label ls (removeprefix x ''jobs:'')}" for x
    by (auto simp: tried_entry_def split: option.splits sum.splits)
  have one: "distinct (map fst (tried_entry ls v k))" by (simp add: tried_entry_def split: option.splits sum.splits)
  obtain i where i: "k = job_key i" "keys v k \<noteq> None" using Cons.prems(1) by auto
  have "order_label ls i \<noteq> order_label ls (removeprefix x ''jobs:'')" if x: "x \<in> set ks" for x
  proof -
    obtain j where j: "x = job_key j" "keys v x \<noteq> None" using Cons.prems(1) x by auto
    then have "i \<noteq> j" using Cons.prems(2) x i by auto
    then show ?thesis using assms(3) i j by (auto simp: inj_on_def)
  qed
  then have "order_label ls i \<notin> set (map fst (concat (map (tried_entry ls v) ks)))" using sub by fastforce
  moreover have "set (map fst (tried_entry ls v k)) \<subseteq> {order_label ls i}" using sub [of k] by (simp add: i(1))
  moreover have d: "distinct (map fst (concat (map (tried_entry ls v) ks)))" using Cons by simp
  ultimately have "set (map fst (tried_entry ls v k)) \<inter> set (map fst (concat (map (tried_entry ls v) ks))) = {}" by blast
  with one d show ?case by (simp only: list.map concat.simps map_append distinct_append)
qed simp

lemma snapshot_line:
  assumes "rb_inv (r_view R s)" "inj_on (worker_label wl) {w. keys (r_view R s) (processing_key w) \<noteq> None}"
    "inj_on (order_label ol) {i. keys (r_view R s) (job_key i) \<noteq> None}"
  shows "snapshot R C wl ol s = Inr
    \<lparr>line = ''queued='' @ str_of_int (int (length (list_at (r_view R s) QUEUE))) @ ''  leases='' @
        as_fields (map (\<lambda>k. (worker_label wl (removeprefix k ''processing:''), int (length (list_at (r_view R s) k)))) (c_KEYS C ''processing:'' s)) @
        ''  attempts='' @ as_fields (concat (map (tried_entry ol (r_view R s)) (c_KEYS C ''jobs:'' s))) @
        ''  workers=['' @ join_with '', '' (sort (map (render_worker wl (clock (r_view R s))) (c_ZRANGE C WORKERS s))) @ '']'',
     workers = {w. map_of (zset_at (r_view R s) WORKERS) w \<noteq> None}\<rparr>"
proof -
  let ?js = "c_KEYS C ''jobs:'' s"
  have js: "\<forall>k \<in> set ?js. \<exists>i. k = job_key i \<and> keys (r_view R s) k \<noteq> None" using c_KEYS job_keys by blast
  have "read_attempts R ol s ?js [] = Inr (concat (map (tried_entry ol (r_view R s)) ?js))"
    using read_attempts_list [OF assms(1), of ?js ol "[]"] js
      fold_update_distinct [of "[]" "concat (map (tried_entry ol (r_view R s)) ?js)"] tried_keys [OF js c_KEYS_distinct assms(3)]
    by auto
  moreover have "mset (c_ZRANGE C WORKERS s) = mset (zset_at (r_view R s) WORKERS)" by (rule c_ZRANGE) (rule rb_invD(4) [OF assms(1)])
  then have "set (c_ZRANGE C WORKERS s) = set (zset_at (r_view R s) WORKERS)" by (rule mset_eq_setD)
  then have "set (map fst (c_ZRANGE C WORKERS s)) = {w. map_of (zset_at (r_view R s) WORKERS) w \<noteq> None}"
    by (auto simp: map_of_eq_None_iff)
  moreover have "r_LLEN R QUEUE s = length (list_at (r_view R s) QUEUE)" by (rule r_LLEN) (rule rb_invD(2) [OF assms(1)])
  ultimately show ?thesis
    by (simp add: snapshot_def Let_def read_leases_list [OF assms(2,1)] r_TIME rbind_def)
qed

lemma snapshot_total: "rb_inv (r_view R s) \<Longrightarrow> \<exists>b. snapshot R C wl ol s = Inr b"
proof -
  assume inv: "rb_inv (r_view R s)"
  have "\<forall>k \<in> set (c_KEYS C ''jobs:'' s). \<exists>i. k = job_key i" using c_KEYS job_keys by blast
  from read_attempts_list [OF inv this, of ol "[]"] show ?thesis by (simp add: snapshot_def Let_def rbind_def)
qed

end

lemma same_keys:
  assumes "monitor_reads R C" "monitor_reads R C'" "r_view R s = r_view R s'" "finite (dom (keys (r_view R s)))"
  shows "mset (c_KEYS C p s) = mset (c_KEYS C' p s')"
proof -
  have "set (c_KEYS C p s) = set (c_KEYS C' p s')"
    using monitor_reads.c_KEYS [OF assms(1)] monitor_reads.c_KEYS [OF assms(2)] monitor_reads.c_KEYS_all [OF assms(1) assms(4)]
      monitor_reads.c_KEYS_all [OF assms(2)] assms(3,4) by (metis set_eqI)
  then show ?thesis
    using set_eq_iff_mset_eq_distinct monitor_reads.c_KEYS_distinct [OF assms(1)] monitor_reads.c_KEYS_distinct [OF assms(2)] by blast
qed

lemma reading_stable:
  assumes "monitor_reads R C" "monitor_reads R C'" "r_view R s = r_view R s'" "finite (dom (keys (r_view R s)))" "rb_inv (r_view R s)"
    "inj_on (worker_label wl) {w. keys (r_view R s) (processing_key w) \<noteq> None}"
    "inj_on (order_label ol) {i. keys (r_view R s) (job_key i) \<noteq> None}"
  shows "\<exists>b. snapshot R C wl ol s = Inr b \<and> snapshot R C' wl ol s' = Inr b \<and>
    workers b = {w. map_of (zset_at (r_view R s) WORKERS) w \<noteq> None}"
proof -
  note k = same_keys [OF assms(1-4)]
  have z: "mset (c_ZRANGE C WORKERS s) = mset (c_ZRANGE C' WORKERS s')"
    using monitor_reads.c_ZRANGE [OF assms(1), of s WORKERS] monitor_reads.c_ZRANGE [OF assms(2), of s' WORKERS]
      rb_invD(4) [OF assms(5)] assms(3) by simp
  have "sort (map f (c_ZRANGE C WORKERS s)) = sort (map f (c_ZRANGE C' WORKERS s'))" for f :: "string \<times> int \<Rightarrow> string"
    by (rule properties_for_sort) (simp_all add: z)
  moreover have "as_fields (map f (c_KEYS C p s)) = as_fields (map f (c_KEYS C' p s'))" for f p
    by (rule as_fields_mset) (simp add: k)
  moreover have "as_fields (concat (map f (c_KEYS C p s))) = as_fields (concat (map f (c_KEYS C' p s')))" for f p
  proof (rule as_fields_mset)
    have "mset (concat (map f xs)) = sum_mset (image_mset (\<lambda>x. mset (f x)) (mset xs))" for xs by (induction xs) simp_all
    then show "mset (concat (map f (c_KEYS C p s))) = mset (concat (map f (c_KEYS C' p s')))" by (simp add: k)
  qed
  ultimately show ?thesis
    using monitor_reads.snapshot_line [OF assms(1,5-7)] monitor_reads.snapshot_line [OF assms(2) assms(5-7) [unfolded assms(3)]] assms(3)
    by (intro exI [of _ "\<lparr>line = _, workers = _\<rparr>"]) simp
qed

section \<open>What the monitor says\<close>

lemma snapshot_workers: "snapshot R C wl ol s = Inr b \<Longrightarrow> workers b = set (map fst (c_ZRANGE C WORKERS s))"
  by (clarsimp simp: snapshot_def Let_def rbind_Inr_iff)

lemma snapshot_registered:
  assumes "monitor_reads R C" "rb_inv (r_view R s)" "snapshot R C wl ol s = Inr b"
  shows "workers b = {w. l_beats (lease_abs (r_view R s)) w \<noteq> None}" "finite (workers b)"
proof -
  have "mset (c_ZRANGE C WORKERS s) = mset (zset_at (r_view R s) WORKERS)"
    by (rule monitor_reads.c_ZRANGE [OF assms(1)]) (rule rb_invD(4) [OF assms(2)])
  then have "set (c_ZRANGE C WORKERS s) = set (zset_at (r_view R s) WORKERS)" by (rule mset_eq_setD)
  then show "workers b = {w. l_beats (lease_abs (r_view R s)) w \<noteq> None}"
    unfolding snapshot_workers [OF assms(3)] lease_abs_def by (auto simp: map_of_eq_None_iff)
  show "finite (workers b)" unfolding snapshot_workers [OF assms(3)] by simp
qed

lemma fulfillment_queue:
  assumes "fulfillment R fresh modname other = Inr q"
  shows "q_worker_ttl q = Some 4" "map fst (q_task_registry q) = [''fulfillment.pack_order'']"
  using assms
  by (auto simp: fulfillment_def RedisBackend_init_def DEFAULT_RESULT_TTL_SECONDS_def WORKER_TTL_def rbind_Inr_iff
      queue_task_def derive_name_def Queue_init_def Let_def)

lemma worker_command:
  assumes "float ''1'' = Some 1"
  shows "parse_args float spawn_worker = Inr (CmdWorker (worker_defaults\<lparr>a_target := Some TARGET, a_log_level := ''warning'', a_heartbeat_interval := 1\<rparr>))"
    "parse_args float [''worker'', TARGET] = Inr (CmdWorker (worker_defaults\<lparr>a_target := Some TARGET\<rparr>))"
proof -
  let ?is = "[Target TARGET, Long D_log_level ''warning'', Long D_heartbeat_interval ''1'']"
  have p: "plain_text TARGET" by (simp add: plain_text_def TARGET_def)
  have i: "\<forall>i \<in> set ?is. item_ok i" using p by (simp add: plain_text_def)
  have a: "spawn_worker = ''worker'' # concat (map render ?is)"
    using str_of_int_0_1 by (simp add: spawn_worker_def WORKER_LOG_LEVEL_def HEARTBEAT_INTERVAL_def)
  show "parse_args float spawn_worker = Inr (CmdWorker (worker_defaults\<lparr>a_target := Some TARGET, a_log_level := ''warning'', a_heartbeat_interval := 1\<rparr>))"
    unfolding a command_line_read [OF i] by (simp add: store_def assms LOG_LEVELS_def worker_defaults_def)
  have t: "\<forall>i \<in> set [Target TARGET]. item_ok i" using p by simp
  show "parse_args float [''worker'', TARGET] = Inr (CmdWorker (worker_defaults\<lparr>a_target := Some TARGET\<rparr>))"
    using command_line_read [OF t, of float] by simp
qed

section \<open>A client of the concrete server\<close>

definition mini_KEYS :: "string \<Rightarrow> rstate \<Rightarrow> string list" where
  "mini_KEYS p v =
     (let found = {k. prefix p k \<and> keys (tidy v) k \<noteq> None} in if finite found then sorted_list_of_set found else [])"

definition mini_reads :: "rstate reads" where
  "mini_reads = \<lparr>c_KEYS = mini_KEYS, c_ZRANGE = (\<lambda>k v. sort_key snd (zset_at (tidy v) k)), c_LRANGE = (\<lambda>k v. list_at v k)\<rparr>"

text \<open>The same server answering \<open>KEYS\<close> in the opposite order.\<close>

definition mini_reads_rev :: "rstate reads" where
  "mini_reads_rev = mini_reads\<lparr>c_KEYS := (\<lambda>p v. rev (mini_KEYS p v))\<rparr>"

lemma mini_KEYS_laws:
  "k \<in> set (mini_KEYS p v) \<Longrightarrow> prefix p k \<and> keys (tidy v) k \<noteq> None"
  "finite (dom (keys (tidy v))) \<Longrightarrow> prefix p k \<Longrightarrow> keys (tidy v) k \<noteq> None \<Longrightarrow> k \<in> set (mini_KEYS p v)"
  "distinct (mini_KEYS p v)"
proof -
  let ?D = "{k. prefix p k \<and> keys (tidy v) k \<noteq> None}"
  show "prefix p k \<and> keys (tidy v) k \<noteq> None" if "k \<in> set (mini_KEYS p v)"
    using that by (cases "finite ?D") (simp_all add: mini_KEYS_def)
  show "k \<in> set (mini_KEYS p v)" if "finite (dom (keys (tidy v)))" "prefix p k" "keys (tidy v) k \<noteq> None"
  proof -
    have "?D \<subseteq> dom (keys (tidy v))" by auto
    then have "finite ?D" using that(1) finite_subset by blast
    then show ?thesis using that(2,3) by (simp add: mini_KEYS_def)
  qed
  show "distinct (mini_KEYS p v)" by (simp add: mini_KEYS_def Let_def)
qed

lemma mini_view: "r_view mini_redis = tidy"
  by (simp add: mini_redis_def)

lemma mini_reads_sel: "c_KEYS mini_reads = mini_KEYS" "c_ZRANGE mini_reads k v = sort_key snd (zset_at (tidy v) k)"
  "c_LRANGE mini_reads k v = list_at v k" "c_KEYS mini_reads_rev p v = rev (mini_KEYS p v)"
  "c_ZRANGE mini_reads_rev = c_ZRANGE mini_reads" "c_LRANGE mini_reads_rev = c_LRANGE mini_reads"
  by (simp_all add: mini_reads_def mini_reads_rev_def)

interpretation mini_monitor: monitor_reads mini_redis mini_reads
proof (unfold_locales, unfold mini_view mini_reads_sel)
  show "prefix p k \<and> keys (tidy s) k \<noteq> None" if "k \<in> set (mini_KEYS p s)" for k p s using that by (rule mini_KEYS_laws(1))
  show "k \<in> set (mini_KEYS p s)" if "finite (dom (keys (tidy s)))" "prefix p k" "keys (tidy s) k \<noteq> None" for k p s
    using that by (rule mini_KEYS_laws(2))
  show "distinct (mini_KEYS p s)" for p s by (rule mini_KEYS_laws(3))
  show "mset (sort_key snd (zset_at (tidy s) k)) = mset (zset_at (tidy s) k)" for s k by simp
  show "list_at s k = list_at (tidy s) k" for s k by simp
qed

interpretation mini_monitor_rev: monitor_reads mini_redis mini_reads_rev
proof (unfold_locales, unfold mini_view mini_reads_sel set_rev distinct_rev)
  show "prefix p k \<and> keys (tidy s) k \<noteq> None" if "k \<in> set (mini_KEYS p s)" for k p s using that by (rule mini_KEYS_laws(1))
  show "k \<in> set (mini_KEYS p s)" if "finite (dom (keys (tidy s)))" "prefix p k" "keys (tidy s) k \<noteq> None" for k p s
    using that by (rule mini_KEYS_laws(2))
  show "distinct (mini_KEYS p s)" for p s by (rule mini_KEYS_laws(3))
  show "mset (sort_key snd (zset_at (tidy s) k)) = mset (zset_at (tidy s) k)" for s k by simp
  show "list_at s k = list_at (tidy s) k" for s k by simp
qed

section \<open>Properties\<close>

text \<open>What \<open>as_fields\<close> is for. Two readings of the same bookkeeping agree, line and workers, whatever order
  the server lists keys in, as long as no two workers and no two orders present share a label; so
  the monitor has nothing to say between them.\<close>

lemma monitor_reading_is_stable:
  assumes "monitor_reads R C" "monitor_reads R C'" "r_view R s = r_view R s'" "finite (dom (keys (r_view R s)))" "rb_inv (r_view R s)"
    "inj_on (worker_label wl) {w. keys (r_view R s) (processing_key w) \<noteq> None}"
    "inj_on (order_label ol) {i. keys (r_view R s) (job_key i) \<noteq> None}"
  shows "\<exists>b. snapshot R C wl ol s = Inr b \<and> snapshot R C' wl ol s' = Inr b \<and>
    workers b = {w. map_of (zset_at (r_view R s) WORKERS) w \<noteq> None} \<and> monitor_round wl b b = []"
  using reading_stable [OF assms] by (elim exE conjE) (intro exI conjI, assumption+, simp add: monitor_round_def)

text \<open>One worker that holds the one order.\<close>

definition mini_books :: rstate where
  "mini_books = \<lparr>keys = [WORKERS \<mapsto> RZSet [(''w1'', 100)], processing_key ''w1'' \<mapsto> RList [''a''], job_key ''a'' \<mapsto> RHash (enc_rec demo_record)],
     ttl_at = Map.empty, clock = 103, sent = []\<rparr>"

lemma mini_books_ok: "tidy mini_books = mini_books" "rb_inv mini_books" "dom (keys mini_books) = {WORKERS, processing_key ''w1'', job_key ''a''}"
proof -
  have d: "is_dict (enc_rec demo_record)" "enc_rec demo_record \<noteq> []"
    by (simp_all add: demo_record_def enc_rec_def is_dict_def utf8_encode_def utf8_char_def)
  show "tidy mini_books = mini_books"
    by (rule tidy_id) (use d in \<open>auto simp: wf_keyspace_def mini_books_def hash_at_def zset_at_def is_dict_def split: option.splits\<close>)
  show "rb_inv mini_books"
  proof (rule rb_invI)
    show "stored_ok mini_books i" for i
      using demo_record_ok by (auto simp: stored_ok_def mini_books_def hash_at_def good_rec_def)
  qed (auto simp: mini_books_def holds_hash_def holds_list_def holds_zset_def)
  show "dom (keys mini_books) = {WORKERS, processing_key ''w1'', job_key ''a''}" by (auto simp: mini_books_def)
qed

theorem monitor_reading_is_stable_witness:
  "\<exists>b. snapshot mini_redis mini_reads [(''w1'', ''A'')] [(''a'', ''order-1'')] mini_books = Inr b \<and>
    snapshot mini_redis mini_reads_rev [(''w1'', ''A'')] [(''a'', ''order-1'')] mini_books = Inr b \<and> ''w1'' \<in> workers b"
proof -
  have v: "r_view mini_redis mini_books = mini_books" by (simp add: mini_view mini_books_ok(1))
  have f: "finite (dom (keys mini_books))" by (simp add: mini_books_ok(3))
  have i: "inj_on (worker_label [(''w1'', ''A'')]) {w. keys mini_books (processing_key w) \<noteq> None}"
    "inj_on (order_label [(''a'', ''order-1'')]) {i. keys mini_books (job_key i) \<noteq> None}"
    by (auto simp: mini_books_def inj_on_def)
  have "map_of (zset_at mini_books WORKERS) ''w1'' \<noteq> None" by (simp add: mini_books_def zset_at_def)
  with monitor_reading_is_stable [OF mini_monitor.monitor_reads_axioms mini_monitor_rev.monitor_reads_axioms refl,
      of mini_books, unfolded v, OF f mini_books_ok(2) i] show ?thesis by blast
qed

text \<open>(C21) What the monitor says of a reap. Of the readings around a reap in any run of the cluster, the second lacks
  exactly the workers whose last beat is at least the TTL old; the monitor announces each of them
  once, in order of their ids, and every order such a worker held is then in the queue.\<close>

theorem monitor_announces_reap:
  assumes "monitor_reads R C" "cluster_run R s" "rb_reap R c s = Some (x, s')"
    "snapshot R C wl ol s = Inr before" "snapshot R C wl ol s' = Inr after"
  shows "\<exists>said. monitor_round wl before after =
      map (reaped_line wl) (sorted_list_of_set {w. l_expired (worker_ttl c) (lease_abs (r_view R s)) w}) @ said \<and>
    set said \<subseteq> {''redis | '' @ line after} \<and>
    (\<forall>w i. l_expired (worker_ttl c) (lease_abs (r_view R s)) w \<longrightarrow> i \<in> set (l_leases (lease_abs (r_view R s)) w) \<longrightarrow>
       i \<in> set (l_queue (lease_abs (r_view R s'))))"
proof -
  let ?l = "lease_abs (r_view R s)" and ?l' = "lease_abs (r_view R s')"
  have R: "redis_server R" using assms(1) by (simp add: monitor_reads_def)
  note run = redis_server.cluster_run_sim [OF R assms(2)]
  from redis_server.reap_effect [OF R run, of c]
  obtain ids where s': "rb_valid R s'" "l_queue ?l' = l_queue ?l @ ids"
    "set ids = {i. \<exists>w. l_expired (worker_ttl c) ?l w \<and> i \<in> set (l_leases ?l w)}"
    "l_beats ?l' = (\<lambda>w. if l_expired (worker_ttl c) ?l w then None else l_beats ?l w)"
    unfolding Let_def assms(3) option.inject prod.inject by (elim exE conjE) (simp add: that)
  note b = snapshot_registered [OF assms(1) sim_inv [OF run(1)] assms(4)]
  have inv': "rb_inv (r_view R s')" using s'(1) by (simp add: rb_valid_def)
  note a = snapshot_registered [OF assms(1) inv' assms(5)]
  have d: "workers before - workers after = {w. l_expired (worker_ttl c) ?l w}"
    unfolding a b(1) s'(4) by (auto simp: l_expired_def split: option.splits if_splits)
  have q: "\<forall>w i. l_expired (worker_ttl c) ?l w \<longrightarrow> i \<in> set (l_leases ?l w) \<longrightarrow> i \<in> set (l_queue ?l')"
    unfolding s'(2) using s'(3) by auto
  show ?thesis
    by (rule exI [of _ "if line after \<noteq> line before then [''redis | '' @ line after] else []"])
      (use q in \<open>auto simp: monitor_round_def d\<close>)
qed

theorem monitor_announces_reap_witness:
  "\<exists>x s' before after. rb_reap mini_redis mini_config mini_dead = Some (x, s') \<and>
    snapshot mini_redis mini_reads [(''w1'', ''A'')] [] mini_dead = Inr before \<and> snapshot mini_redis mini_reads [(''w1'', ''A'')] [] s' = Inr after \<and>
    reaped_line [(''w1'', ''A'')] ''w1'' \<in> set (monitor_round [(''w1'', ''A'')] before after) \<and>
    ''a'' \<in> set (l_queue (lease_abs (r_view mini_redis s')))"
proof -
  let ?l = "lease_abs (r_view mini_redis mini_dead)"
  note run = mini.cluster_run_sim [OF mini_dead_run]
  obtain ids :: "string list" and s' where s': "rb_reap mini_redis mini_config mini_dead = Some (Inr (int (length ids)), s')"
    "rb_valid mini_redis s'"
    using mini.reap_effect [OF run, of mini_config] by blast
  obtain before where b: "snapshot mini_redis mini_reads [(''w1'', ''A'')] [] mini_dead = Inr before"
    using mini_monitor.snapshot_total [OF sim_inv [OF run(1)]] by blast
  obtain after where a: "snapshot mini_redis mini_reads [(''w1'', ''A'')] [] s' = Inr after"
    using mini_monitor.snapshot_total s'(2) unfolding rb_valid_def by blast
  have e: "l_expired (worker_ttl mini_config) ?l ''w1''" "''a'' \<in> set (l_leases ?l ''w1'')" by (code_simp, code_simp)
  have "{w. l_expired (worker_ttl mini_config) ?l w} \<subseteq> workers before"
    unfolding snapshot_registered(1) [OF mini_monitor.monitor_reads_axioms sim_inv [OF run(1)] b]
    by (auto simp: l_expired_def split: option.splits)
  then have f: "finite {w. l_expired (worker_ttl mini_config) ?l w}"
    using snapshot_registered(2) [OF mini_monitor.monitor_reads_axioms sim_inv [OF run(1)] b] finite_subset by blast
  from monitor_announces_reap [OF mini_monitor.monitor_reads_axioms mini_dead_run s'(1) b a]
  obtain said where "monitor_round [(''w1'', ''A'')] before after =
      map (reaped_line [(''w1'', ''A'')]) (sorted_list_of_set {w. l_expired (worker_ttl mini_config) ?l w}) @ said"
    "''a'' \<in> set (l_queue (lease_abs (r_view mini_redis s')))" using e by blast
  then have "reaped_line [(''w1'', ''A'')] ''w1'' \<in> set (monitor_round [(''w1'', ''A'')] before after)" using e(1) f by simp
  with s'(1) b a \<open>''a'' \<in> set (l_queue (lease_abs (r_view mini_redis s')))\<close> show ?thesis by blast
qed

text \<open>The workers the demo starts are served: their command line reads as one beat a second, three of which
  fit into the TTL the queue is built with. Started by hand with the interval's default, the same
  target is refused with exit code 3 before any pool exists.\<close>

lemma packing_workers_are_accepted:
  assumes "fulfillment R fresh modname other = Inr q" "c_float env ''1'' = Some 1"
    "path = (if c_cwd env \<in> set (c_sys_path env) then c_sys_path env else c_cwd env # c_sys_path env)"
    "c_import env path ''worker_crash_job_reclaimed'' = Inr imported" "map_of imported ''q'' = Some (AQueue q)"
    "\<And>p q d m. c_serve env p q d \<noteq> ServeRaises (ConfigError m)"
  shows "\<exists>p. queue_worker 1 1 q = Inr p \<and>
    (fst (main env spawn_worker) = Exit EXIT_OK \<longleftrightarrow> c_serve env p q (Some 30) \<in> {Served, KeyboardInterrupt}) \<and>
    fst (main env [''worker'', TARGET]) = Exit EXIT_BAD_CONFIG"
proof -
  have t: "resolve_queue (c_import env path) TARGET = Inr q"
    using assms(4,5) by (simp add: resolve_queue_def partition_colon_def TARGET_def)
  obtain p where p: "queue_worker 1 1 q = Inr p"
    by (simp add: queue_worker_def Worker_init_def check_liveness_def fulfillment_queue(1) [OF assms(1)] MIN_BEATS_PER_TTL_def)
  let ?a = "worker_defaults\<lparr>a_target := Some TARGET, a_log_level := ''warning'', a_heartbeat_interval := 1\<rparr>"
  let ?b = "worker_defaults\<lparr>a_target := Some TARGET\<rparr>"
  note cmd = worker_command [of "c_float env", OF assms(2)]
  have m: "main env spawn_worker = main_worker env ?a" "main env [''worker'', TARGET] = main_worker env ?b"
    using level_known [OF parse_args_ok [OF cmd(1)]] level_known [OF parse_args_ok [OF cmd(2)]] by (simp_all add: main_def cmd)
  obtain r out err where ra: "main_worker env ?a = (r, out, err)" using prod_cases3 by blast
  obtain r' out' err' where rb: "main_worker env ?b = (r', out', err')" using prod_cases3 by blast
  have "r = Exit EXIT_OK \<longleftrightarrow> c_serve env p q (Some 30) \<in> {Served, KeyboardInterrupt}"
    using main_worker_codes [OF assms(6) _ assms(3) ra] t p by (simp add: worker_defaults_def)
  moreover have "r' = Exit EXIT_BAD_CONFIG"
    using main_worker_codes [OF assms(6) _ assms(3) rb] t fulfillment_queue(1) [OF assms(1)]
    by (simp add: worker_defaults_def DEFAULT_HEARTBEAT_INTERVAL_SECONDS_def)
  ultimately show ?thesis using p by (simp add: m ra rb)
qed

definition packing_env :: "rstate queue_obj \<Rightarrow> rstate cli_env" where
  "packing_env q = \<lparr>c_version = ''0'', c_help = (\<lambda>p. p), c_float = demo_float, c_backends = [], c_serializers = [],
     c_import = (\<lambda>path m. Inr [(''q'', AQueue q)]), c_serve = (\<lambda>p q d. Served), c_cwd = ''/'', c_sys_path = [],
     c_isatty = False, c_root = \<lparr>rl_level = 30, rl_handlers = []\<rparr>\<rparr>"

theorem packing_workers_are_accepted_witness:
  "\<exists>q :: rstate queue_obj. fulfillment mini_redis ''w1'' ''m'' (\<lambda>as ks. Pending) = Inr q \<and>
    fst (main (packing_env q) spawn_worker) = Exit EXIT_OK \<and> fst (main (packing_env q) [''worker'', TARGET]) = Exit EXIT_BAD_CONFIG"
proof -
  obtain q where q: "fulfillment mini_redis ''w1'' ''m'' (\<lambda>as ks. Pending) = Inr q"
    by (auto simp: fulfillment_def RedisBackend_init_def DEFAULT_RESULT_TTL_SECONDS_def WORKER_TTL_def rbind_def
        queue_task_def derive_name_def Queue_init_def Let_def)
  have "py_int ''1'' = Inr 1" by code_simp
  then have f: "c_float (packing_env q) ''1'' = Some 1" by (simp add: packing_env_def demo_float_def)
  have i: "c_import (packing_env q) path ''worker_crash_job_reclaimed'' = Inr [(''q'', AQueue q)]" for path by (simp add: packing_env_def)
  have m: "map_of [(''q'', AQueue q)] ''q'' = Some (AQueue q)" by simp
  have s: "c_serve (packing_env q) = (\<lambda>p q d. Served)" by (simp add: packing_env_def)
  have n: "\<And>p q' d m. c_serve (packing_env q) p q' d \<noteq> ServeRaises (ConfigError m)" by (simp add: s)
  from packing_workers_are_accepted [OF q f refl i m n] q show ?thesis by (auto simp: s)
qed

end
