(* ===== verification/Reprice.thy ===== *)
theory Reprice
  imports Recovery Queue Packing_Line
begin

text \<open>
  \<open>cancel_crosses_processes.py\<close>: a long job that runs in a worker process and is called off from the
  producer, once by \<open>handle.cancel()\<close> and once by setting the flag in the record by hand. A loop
  that sleeps between looks is a function of what each look finds; clocks, process ids and the
  time stamp of a printed line are left out. \<open>PUBSUB NUMSUB\<close> is a parameter.
\<close>

section \<open>The queue and the worker\<close>

definition JOB_SECONDS :: int where "JOB_SECONDS = 300"

definition reprice_catalog ::
  "(pyval list \<Rightarrow> (string \<times> pyval) list \<Rightarrow> pyval await) \<Rightarrow> pyval list \<Rightarrow> (string \<times> pyval) list \<Rightarrow> pyval await" where
  "reprice_catalog other as ks =
     (case (as, ks) of
        ([seconds], []) \<Rightarrow> Ready (Inr (PStr ''repriced the whole catalogue (nobody stopped me)''))
      | _ \<Rightarrow> other as ks)"

definition catalog ::
  "'s redis \<Rightarrow> string \<Rightarrow> string \<Rightarrow> (pyval list \<Rightarrow> (string \<times> pyval) list \<Rightarrow> pyval await) \<Rightarrow> 's queue_obj res" where
  "catalog R fresh modname other =
     rbind (RedisBackend_init fresh DEFAULT_RESULT_TTL_SECONDS DEFAULT_WORKER_TTL_SECONDS) (\<lambda>c.
       case register_all [(None, 0, \<lparr>f_name = ''reprice_catalog'', f_module = modname, f_call = reprice_catalog other\<rparr>)]
              (Queue_init (RedisBackend R c) (Some (worker_ttl c)) None (Some ''catalog'')) of
         (r, q) \<Rightarrow> rbind r (\<lambda>u. Inr q))"

definition reprice_worker :: "string list" where
  "reprice_worker = [''worker'', ''cancel_crosses_processes:q'', ''--log-level'', ''warning'']"

section \<open>Waiting\<close>

text \<open>The first of the given states in which the handle reports the status; \<open>None\<close> while it has not.\<close>

fun until_status :: "JobStatus \<Rightarrow> 's backend \<Rightarrow> job_handle \<Rightarrow> 's list \<Rightarrow> 's option res" where
  "until_status wanted B h [] = Inr None"
| "until_status wanted B h (s # looks) =
     rbind (handle_status B h s) (\<lambda>st. if st = wanted then Inr (Some s) else until_status wanted B h looks)"

definition until_running :: "'s backend \<Rightarrow> job_handle \<Rightarrow> 's list \<Rightarrow> 's option res" where
  "until_running = until_status RUNNING"

definition until_cancelled :: "'s backend \<Rightarrow> job_handle \<Rightarrow> 's list \<Rightarrow> 's option res" where
  "until_cancelled = until_status CANCELLED"

fun until_watching :: "(string \<Rightarrow> 's \<Rightarrow> int) \<Rightarrow> job_handle \<Rightarrow> 's list \<Rightarrow> 's option" where
  "until_watching numsub h [] = None"
| "until_watching numsub h (s # looks) =
     (if numsub (cancel_channel (h_job_id h)) s \<noteq> 0 then Some s else until_watching numsub h looks)"

section \<open>Reading the bookkeeping\<close>

definition report :: "'s redis \<Rightarrow> job_handle \<Rightarrow> string option \<Rightarrow> 's \<Rightarrow> string res" where
  "report R h worker_id s =
     (let record = r_HGETALL R (job_key (h_job_id h)) s;
          field = (\<lambda>k d. case map_of record k of None \<Rightarrow> d | Some x \<Rightarrow> x)
      in rbind (utf8_decode (field ''status'' ''(gone)'')) (\<lambda>st.
           rbind (utf8_decode (field ''attempts'' ''?'')) (\<lambda>tried.
             let leases = (case worker_id of None \<Rightarrow> 0 | Some w \<Rightarrow> int (r_LLEN R (processing_key w) s))
             in Inr (''redis   | status='' @ st @ '' attempts='' @ tried @ '' leases_held='' @ str_of_int leases))))"

definition current_worker_id :: "'s reads \<Rightarrow> 's \<Rightarrow> string option" where
  "current_worker_id C s = (case map fst (c_ZRANGE C ''workers'' s) of [] \<Rightarrow> None | w # ws \<Rightarrow> Some w)"

section \<open>The acts\<close>

text \<open>Both acts spawn the job outside any scope.\<close>

definition act_spawn :: "'s queue_obj \<Rightarrow> string \<Rightarrow> string \<Rightarrow> datetime \<Rightarrow> 's \<Rightarrow> job_handle res \<times> 's" where
  "act_spawn q gid fresh now s =
     (case root_group gid ''cancel_siblings'' None q of
        Inl e \<Rightarrow> (Inl e, s)
      | Inr g \<Rightarrow>
          (case group_spawn (q_serializer q) (q_backend q) (the (map_of (q_task_registry q) ''catalog.reprice_catalog''))
                  fresh now None [PInt JOB_SECONDS] [] g s of
             (r, current, g', s') \<Rightarrow> (r, s')))"

definition act_one_running :: "string option \<Rightarrow> string" where
  "act_one_running w = ''producer| it is RUNNING, leased by worker '' @ take 8 (case w of None \<Rightarrow> ''?'' | Some i \<Rightarrow> i)"

definition act_one_cancel :: "'s queue_obj \<Rightarrow> job_handle \<Rightarrow> 's \<Rightarrow> unit res \<times> 's" where
  "act_one_cancel q h s = handle_cancel (q_backend q) h s"

definition act_two_flag :: "'s redis \<Rightarrow> job_handle \<Rightarrow> 's \<Rightarrow> 's" where
  "act_two_flag R h s = r_HSET R (job_key (h_job_id h)) [(''request_cancel'', ''1'')] s"

text \<open>The end of an act: the report, then the result. \<open>freed\<close> and \<open>missed\<close> are the two lines it may print.\<close>

definition act_end ::
  "string \<Rightarrow> string \<Rightarrow> 's redis \<Rightarrow> 's queue_obj \<Rightarrow> job_handle \<Rightarrow> string option \<Rightarrow> 's \<Rightarrow> string list await \<times> 's" where
  "act_end freed missed R q h w s =
     (case report R h w s of
        Inl e \<Rightarrow> (Ready (Inl e), s)
      | Inr l \<Rightarrow>
          (case handle_result (q_serializer q) (q_backend q) h s of
             (Pending, h', s') \<Rightarrow> (Pending, s')
           | (Ready (Inr v), h', s') \<Rightarrow> (Ready (Inr [l, missed]), s')
           | (Ready (Inl e), h', s') \<Rightarrow>
               (Ready (case e of JobCancelled m \<Rightarrow> Inr [l, freed] | _ \<Rightarrow> Inl e), s')))"

definition act_one_end :: "'s redis \<Rightarrow> 's queue_obj \<Rightarrow> job_handle \<Rightarrow> string option \<Rightarrow> 's \<Rightarrow> string list await \<times> 's" where
  "act_one_end = act_end ''producer| result() raised JobCancelled, and freed the record''
     ''producer| !! result() returned normally; the cancel did not land''"

definition act_two_end :: "'s redis \<Rightarrow> 's queue_obj \<Rightarrow> job_handle \<Rightarrow> string option \<Rightarrow> 's \<Rightarrow> string list await \<times> 's" where
  "act_two_end = act_end ''producer| result() raised JobCancelled, exactly as in act 1''
     ''producer| !! result() returned normally; the poll did not fire''"

section \<open>The queue\<close>

lemma catalog_queue:
  assumes "catalog R fresh modname other = Inr q"
  shows "\<exists>c. RedisBackend_init fresh DEFAULT_RESULT_TTL_SECONDS DEFAULT_WORKER_TTL_SECONDS = Inr c \<and> q_backend q = RedisBackend R c"
    "q_serializer q = JSONSerializer" "map fst (q_task_registry q) = [''catalog.reprice_catalog'']"
  using assms
  by (auto simp: catalog_def RedisBackend_init_def DEFAULT_RESULT_TTL_SECONDS_def DEFAULT_WORKER_TTL_SECONDS_def rbind_Inr_iff
      queue_task_def derive_name_def Queue_init_def Let_def)

section \<open>The reports\<close>

lemma until_status_two:
  assumes "handle_status B h s1 = Inr st" "st \<noteq> wanted" "handle_status B h s2 = Inr wanted"
  shows "until_status wanted B h [s1, s2] = Inr (Some s2)"
  using assms by (simp add: rbind_def)

lemma utf8_decode_plain: "utf8_decode (utf8_encode s) = Inr s"
  by (rule utf8_decode_encode)

text \<open>What the report says of a record the store shows, and of none.\<close>

lemma report_known:
  assumes "redis_server R" "rb_inv (r_view R s)" "rb_view (r_view R s) (h_job_id h) = Some m" "status_in m st"
    "m ''attempts'' = Some (Str (str_of_int n))"
  shows "report R h (Some w) s =
    Inr (''redis   | status='' @ status_value st @ '' attempts='' @ str_of_int n @ '' leases_held='' @
      str_of_int (int (length (l_leases (lease_abs (r_view R s)) w))))"
proof -
  obtain r where r: "good_rec r" "hash_at (r_view R s) (job_key (h_job_id h)) = enc_rec r" "map_of r = m"
    by (rule rb_view_stored [OF assms(2,3)])
  have "r_HGETALL R (job_key (h_job_id h)) s = enc_rec r"
    using redis_server.r_HGETALL [OF assms(1) rb_invD(1) [OF assms(2)]] r(2) by simp
  moreover have "map_of (enc_rec r) ''status'' = Some (status_value st)" "map_of (enc_rec r) ''attempts'' = Some (str_of_int n)"
    using map_of_enc_rec [of r "''status''"] map_of_enc_rec [of r "''attempts''"] assms(4,5) r(3) by (simp_all add: status_in_def)
  moreover have "utf8_decode (status_value st) = Inr (status_value st)" "utf8_decode (str_of_int n) = Inr (str_of_int n)"
    using utf8_decode_plain [of "status_value st"] utf8_decode_plain [of "str_of_int n"] by simp_all
  moreover have "r_LLEN R (processing_key w) s = length (l_leases (lease_abs (r_view R s)) w)"
    using redis_server.r_LLEN [OF assms(1) rb_invD(3) [OF assms(2)]] by (simp add: lease_abs_def)
  ultimately show ?thesis by (simp add: report_def Let_def rbind_def)
qed

lemma report_gone:
  assumes "redis_server R" "rb_inv (r_view R s)" "rb_view (r_view R s) (h_job_id h) = None"
  shows "report R h None s = Inr ''redis   | status=(gone) attempts=? leases_held=0''"
proof -
  have "hash_at (r_view R s) (job_key (h_job_id h)) = []"
  proof (rule ccontr)
    assume ne: "hash_at (r_view R s) (job_key (h_job_id h)) \<noteq> []"
    then obtain r where r: "good_rec r" "hash_at (r_view R s) (job_key (h_job_id h)) = enc_rec r"
      using rb_invD(5) [OF assms(2), of "h_job_id h"] unfolding stored_ok_def by blast
    with ne assms(3) show False by (simp add: rb_view_def Let_def rb_decode_enc)
  qed
  then have "r_HGETALL R (job_key (h_job_id h)) s = []"
    using redis_server.r_HGETALL [OF assms(1) rb_invD(1) [OF assms(2)]] by simp
  moreover have "utf8_decode ''(gone)'' = Inr ''(gone)''" "utf8_decode ''?'' = Inr ''?''" by code_simp+
  ultimately show ?thesis using str_of_int_0_1 by (simp add: report_def Let_def rbind_def)
qed

section \<open>Properties\<close>

lemma handle_reads_no_config:
  "handle_result S (RedisBackend R c) h s = handle_result S (RedisBackend R w) h s"
  "handle_status (RedisBackend R c) h s = handle_status (RedisBackend R w) h s"
  "handle_cancel (RedisBackend R c) h s = rb_request_cancel R (h_job_id h) s"
  by (cases "h_job h"; simp add: handle_result_def handle_consume_def handle_status_def handle_cancel_def RedisBackend_sel)+

text \<open>Both acts end alike. The reprice job runs on a worker process \<open>w\<close> that holds only it, in any run of the
  cluster. Whether the producer calls \<open>handle.cancel()\<close> or sets the flag by hand, the worker stores
  the job as cancelled, the producer's loop sees it, the report reads one cancelled job with its
  attempt counted and no lease held, \<open>result()\<close> raises \<open>JobCancelled\<close>, and afterwards the record is gone.\<close>

lemma both_acts_end_alike:
  assumes "catalog R fresh modname other = Inr q" "redis_client R w JSONSerializer json_norm json_fits" "cluster_run R s"
    "runs_in JSONSerializer (rb_records R s) j" "fits_job json_fits j" "\<not> request_cancel j" "job_view JSONSerializer j = Some (map_of r)"
    "task_name j = ''catalog.reprice_catalog''" "h_job_id h = jid j" "h_job h = None"
    "l_leases (lease_abs (r_view R s)) (instance_id w) = [jid j]"
    "s1 = act_two_flag R h s \<or> s1 = snd (act_one_cancel q h s)"
  shows "\<exists>s2 s3. worker_serve JSONSerializer (RedisBackend R w) (q_task_registry q) r (Ends (CancelSeen u)) s1 = (Continue, s2) \<and>
    until_cancelled (q_backend q) h [s1, s2] = Inr (Some s2) \<and>
    (let cancelled = ''redis   | status=cancelled attempts='' @ str_of_int (attempts j) @ '' leases_held=0''
     in act_one_end R q h (Some (instance_id w)) s2 =
          (Ready (Inr [cancelled, ''producer| result() raised JobCancelled, and freed the record'']), s3) \<and>
        act_two_end R q h (Some (instance_id w)) s2 =
          (Ready (Inr [cancelled, ''producer| result() raised JobCancelled, exactly as in act 1'']), s3)) \<and>
    report R h None s3 = Inr ''redis   | status=(gone) attempts=? leases_held=0''"
proof -
  let ?l = "lease_abs (r_view R s)" and ?B = "RedisBackend R w"
  let ?d = "(norm_job json_norm j)\<lparr>status := CANCELLED\<rparr>"
  have srv: "redis_server R" using assms(2) by (simp add: redis_client_def redis_backend_def)
  have cl: "client ?B (rb_valid R) (rb_records R) (rb_waiting R) JSONSerializer json_norm json_fits"
    by (rule redis_client.meets_client [OF assms(2)])
  note run = redis_server.cluster_run_sim [OF srv assms(3)]
  obtain c where qb: "q_backend q = RedisBackend R c"
    using catalog_queue(1) [OF assms(1)] by (elim exE conjE) (rule that)
  note q = qb catalog_queue(2) [OF assms(1)] and reg = catalog_queue(3) [OF assms(1)]
  have rj: "runs_in JSONSerializer (l_rec ?l) j" using assms(4) sim_observed [OF run(1)] by simp
  have t: "map_of (q_task_registry q) (task_name j) \<noteq> None" using reg assms(8) by (simp add: map_of_eq_None_iff flip: set_map)
  note f = redis_client.silent_flag_reading [OF assms(2) run(1) rj assms(6)]
  have s1: "sim R s1 (l_cancel (jid j) ?l)"
    using assms(12) f(2,3) by (auto simp: act_two_flag_def act_one_cancel_def q(1) handle_reads_no_config(3) assms(9))
  have same: "same_job j (j\<lparr>request_cancel := True\<rparr>)" by (simp add: same_job_def)
  obtain s2 h' s3 where s2: "worker_serve JSONSerializer ?B (q_task_registry q) r (Ends (CancelSeen u)) s1 = (Continue, s2)"
    "l_leases (lease_abs (r_view R s2)) = (l_leases (l_cancel (jid j) ?l))(instance_id w :=
       remove1 (jid j) (l_leases (l_cancel (jid j) ?l) (instance_id w)))"
    "handle_result JSONSerializer ?B h s2 = (Ready (Inl (JobCancelled (''job '' @ py_repr (jid j) @ '' was cancelled''))), h', s3)"
    "rb_valid R s2" "rb_records R s2 (jid j) = job_view JSONSerializer ?d" "rb_valid R s3" "rb_records R s3 (jid j) = None"
    using redis_client.watcher_cancels [OF assms(2) s1 f(6) same assms(5,7,6) t assms(9,10), of u] by (elim exE conjE) (rule that)
  have no: "l_leases (lease_abs (r_view R s2)) (instance_id w) = []"
    unfolding s2(2) using assms(11) by (simp add: l_cancel_def l_put_def split: option.split)
  have "fits_job json_fits ?d" using client.fits_norm_job [OF cl assms(5)] by (simp add: fits_job_def)
  then obtain m where m: "job_view JSONSerializer ?d = Some m" using client.job_view_total [OF cl] by blast
  have v2: "rb_view (r_view R s2) (h_job_id h) = Some m" using s2(5) m by (simp add: rb_records_def assms(9))
  have fl: "status_in m CANCELLED" "m ''attempts'' = Some (Str (str_of_int (attempts j)))"
    using job_view_fields(1,2) [OF m] by (simp_all add: norm_job_def)
  have inv: "rb_inv (r_view R s2)" "rb_inv (r_view R s3)" using s2(4,6) by (simp_all add: rb_valid_def)
  have rep: "report R h (Some (instance_id w)) s2 = Inr (''redis   | status=cancelled attempts='' @ str_of_int (attempts j) @ '' leases_held=0'')"
    using report_known [OF srv inv(1) v2 fl, of "instance_id w"] no str_of_int_0_1 by simp
  have gone: "report R h None s3 = Inr ''redis   | status=(gone) attempts=? leases_held=0''"
    using report_gone [OF srv inv(2)] s2(7) by (simp add: rb_records_def assms(9))
  have o1: "rb_valid R s1" "rb_records R s1 (jid j) = job_view JSONSerializer (j\<lparr>request_cancel := True\<rparr>)"
    "rb_records R s1 (jid j) \<noteq> None" "status (j\<lparr>request_cancel := True\<rparr>) = RUNNING"
    using sim_observed [OF s1] f(6) by (simp_all add: runs_in_def)
  have st1: "handle_status (RedisBackend R c) h s1 = Inr RUNNING" unfolding handle_reads_no_config(2) [of R c h s1 w]
    using client.status_reads [OF cl o1(1) o1(2,3) [folded assms(9)] assms(10)] o1(4) by simp
  have "handle_status (RedisBackend R c) h s2 = Inr (status ?d)" unfolding handle_reads_no_config(2) [of R c h s2 w]
    by (rule client.status_reads [OF cl s2(4)]) (simp_all add: assms(9,10) s2(5) m)
  then have un: "until_cancelled (q_backend q) h [s1, s2] = Inr (Some s2)"
    using until_status_two [OF st1, of CANCELLED s2] by (simp add: until_cancelled_def q(1))
  note hr = s2(3) [unfolded handle_reads_no_config(1) [of JSONSerializer R w h s2 c]]
  show ?thesis
    by (rule exI [of _ s2], rule exI [of _ s3])
      (use s2(1) un rep gone hr in \<open>simp add: Let_def act_one_end_def act_two_end_def act_end_def q\<close>)
qed

definition reprice_job :: job where
  "reprice_job = Job_init ''f0'' demo_now ''catalog.reprice_catalog'' None [PInt JOB_SECONDS] [] None"

theorem both_acts_end_alike_witness:
  "\<exists>q (s :: rstate) s2 s3. catalog mini_redis ''w1'' ''m'' (\<lambda>as ks. Pending) = Inr q \<and>
    until_cancelled (q_backend q) (JobHandle_init ''f0'') [act_two_flag mini_redis (JobHandle_init ''f0'') s, s2] = Inr (Some s2) \<and>
    act_two_end mini_redis q (JobHandle_init ''f0'') (Some ''w1'') s2 =
      (Ready (Inr [''redis   | status=cancelled attempts=1 leases_held=0'',
         ''producer| result() raised JobCancelled, exactly as in act 1'']), s3)"
proof -
  let ?j = "reprice_job\<lparr>status := RUNNING, attempts := 1\<rparr>" and ?h = "JobHandle_init ''f0''"
  obtain q where q: "catalog mini_redis ''w1'' ''m'' (\<lambda>as ks. Pending) = Inr q"
    by (auto simp: catalog_def RedisBackend_init_def DEFAULT_RESULT_TTL_SECONDS_def DEFAULT_WORKER_TTL_SECONDS_def rbind_def
        queue_task_def derive_name_def Queue_init_def Let_def)
  have jf: "fits_job json_fits reprice_job" using demo_job_fits
    by (simp add: reprice_job_def demo_job_def Job_init_def fits_job_def is_dict_def)
  obtain r0 where r0: "to_record JSONSerializer reprice_job = Inr r0" using json.to_record_total [OF jf] by blast
  have jv: "job_view JSONSerializer reprice_job = Some (map_of r0)" using r0 by (auto simp: job_view_Some)
  have d: "is_dict r0" "storable (map_of r0)" "map_of r0 ''attempts'' = Some (Str (str_of_int 0))"
    using to_record_is_dict [OF r0] to_record_storable [OF r0] job_view_fields(2) [OF jv]
    by (simp_all add: reprice_job_def Job_init_def)
  define s where "s = mini_claim ''f0'' r0"
  obtain l where l: "sim mini_redis s l"
    "l_rec l = [''f0'' \<mapsto> (map_of r0)(''status'' \<mapsto> Str (status_value RUNNING), ''attempts'' \<mapsto> Str (str_of_int 1))]"
    "l_leases l = (\<lambda>w. if w = ''w1'' then [''f0''] else [])"
    using mini_claim_sim(1) [OF d, of "''f0''", folded s_def] by (elim exE conjE) (rule that)
  have "job_view JSONSerializer (reprice_job\<lparr>status := RUNNING\<rparr>) = Some (set_status RUNNING (map_of r0))"
    using job_view_update(1) [OF jv, of RUNNING] by (simp add: reprice_job_def Job_init_def)
  from job_view_update(2) [OF this, of 1]
  have v: "job_view JSONSerializer ?j = Some ((map_of r0)(''status'' \<mapsto> Str (status_value RUNNING), ''attempts'' \<mapsto> Str (str_of_int 1)))"
    by simp
  obtain r where r: "job_view JSONSerializer ?j = Some (map_of r)" using v job_view_Some [of JSONSerializer ?j] by metis
  have p: "jid ?j = ''f0''" "task_name ?j = ''catalog.reprice_catalog''" "\<not> request_cancel ?j" "error ?j = None"
    by (simp_all add: reprice_job_def Job_init_def)
  have "rb_records mini_redis s (jid ?j) = job_view JSONSerializer ?j"
    using sim_observed [OF l(1)] l(2) v p(1) by simp
  then have rj: "runs_in JSONSerializer (rb_records mini_redis s) ?j" using v p(4) by (simp add: runs_in_def)
  have jf': "fits_job json_fits ?j" using jf by (simp add: fits_job_def)
  have h: "h_job_id ?h = jid ?j" "h_job ?h = None" using p(1) by (simp_all add: JobHandle_init_def)
  have le: "l_leases (lease_abs (r_view mini_redis s)) (instance_id mini_config) = [jid ?j]"
    unfolding sim_abs [OF l(1)] l(3) using p(1) by (simp add: mini_config_def)
  have w: "instance_id mini_config = ''w1''" by (simp add: mini_config_def)
  have n: "str_of_int 1 = ''1''" by code_simp
  obtain s2 s3 where u: "until_cancelled (q_backend q) ?h [act_two_flag mini_redis ?h s, s2] = Inr (Some s2)" and
    e: "act_two_end mini_redis q ?h (Some (instance_id mini_config)) s2 =
      (Ready (Inr [''redis   | status=cancelled attempts='' @ str_of_int (attempts ?j) @ '' leases_held=0'',
         ''producer| result() raised JobCancelled, exactly as in act 1'']), s3)"
    using both_acts_end_alike [OF q mini_client.redis_client_axioms mini_claim_sim(2) [OF d, of "''f0''", folded s_def] rj jf'
      p(3) r p(2) h le disjI1 [OF refl], of True] unfolding Let_def by (elim exE conjE) (rule that)
  have e': "act_two_end mini_redis q ?h (Some ''w1'') s2 =
      (Ready (Inr [''redis   | status=cancelled attempts=1 leases_held=0'',
         ''producer| result() raised JobCancelled, exactly as in act 1'']), s3)"
    using e unfolding w by (simp add: n)
  show ?thesis by (rule exI [of _ q], rule exI [of _ s], rule exI [of _ s2], rule exI [of _ s3]) (intro conjI q u e')
qed

end
