(* ===== verification/Producers.thy ===== *)
theory Producers
  imports Fail_Fast
begin

text \<open>
  A job that is a producer itself: while the jobs of a scope run, the body of one of them opens a scope
  of its own on the same queue, and other loops serve what it spawns. The ids of those jobs come from the
  running job. Composed from \<open>Fan_Out\<close> (a scope) and \<open>Fail_Fast\<close> (loops that hold records) over any store.
\<close>

section \<open>Spawning inside a job\<close>

text \<open>The calls under the ids that a body's spawns get.\<close>

fun named_calls :: "job_context \<Rightarrow> spawn_call list \<Rightarrow> spawn_call list" where
  "named_calls ctx [] = []"
| "named_calls ctx (c # cs) =
     (case child_id (Some ctx) of
        (ident, ctx') \<Rightarrow> c\<lparr>c_fresh := the ident\<rparr> # named_calls (the ctx') cs)"

lemma named_calls_length [simp]: "length (named_calls ctx cs) = length cs"
  by (induction cs arbitrary: ctx) (simp_all add: child_id_def next_spawn_def)

lemma submit_named: "i \<noteq> [] \<Longrightarrow> submit S B t fresh now gid (Some i) as ks s = submit S B t i now gid None as ks s"
  by (simp add: submit_def Job_init_def)

lemma spawn_all_in_job:
  assumes "spawn_all S B now None (named_calls ctx cs) g s = (Inr hs, None, g', s')"
  shows "spawn_all S B now (Some ctx) cs g s = (Inr hs, Some (ctx\<lparr>ctx_spawns := ctx_spawns ctx + int (length cs)\<rparr>), g', s')"
  using assms
proof (induction cs arbitrary: ctx g s hs)
  case (Cons c cs)
  let ?i = "take 32 (sha1_hex (utf8_encode (child_seed (ctx_job_id ctx) (ctx_spawns ctx))))"
  let ?ctx = "ctx\<lparr>ctx_spawns := ctx_spawns ctx + 1\<rparr>"
  have ci: "child_id (Some ctx) = (Some ?i, Some ?ctx)" "child_id None = (None, None)"
    by (simp_all add: child_id_def next_spawn_def Let_def)
  obtain h g1 s1 where 1: "submit S B (c_task c) ?i now (if g_entered g then Some (g_id g) else None) None (c_args c) (c_kwargs c) s = (Inr h, s1)"
    "g1 = group_register h g"
    using Cons.prems by (auto simp: ci group_spawn_def split: prod.splits sum.splits)
  obtain hs1 where 2: "spawn_all S B now None (named_calls ?ctx cs) g1 s1 = (Inr hs1, None, g', s')" "hs = h # hs1"
    using Cons.prems 1 by (auto simp: ci group_spawn_def split: prod.splits sum.splits)
  have "?i \<noteq> []" using sha1_hex_shape(1) [of "utf8_encode (child_seed (ctx_job_id ctx) (ctx_spawns ctx))"] by auto
  with Cons.IH [OF 2(1)] 1 2(2) show ?case by (simp add: ci group_spawn_def submit_named algebra_simps)
qed simp

section \<open>Loops that end with their jobs\<close>

context client
begin

lemma serve_held:
  assumes "inv s" "held S fits reg (view s) (running_call gid now c) r" "settles fits race"
  shows "\<exists>s'. worker_serve S B reg r race s = (Continue, s') \<and> inv s' \<and> waiting s' = waiting s \<and>
    view s' = (view s)(c_fresh c := job_view S (done_job S norm reg (queued_call gid now c) race))"
proof -
  let ?j = "running_call gid now c" and ?q = "queued_call gid now c"
  from assms(2) have h: "runs_in S (view s) ?j" "fits_job fits ?j" "job_view S ?j = Some (map_of r)" by (simp_all add: held_def)
  have f: "fits_job fits (call_job (Some gid) now c)" using h(2) by (simp add: fits_job_def running_call_def call_job_def Job_init_def)
  have e: "?q\<lparr>status := RUNNING, attempts := attempts ?q + 1\<rparr> = ?j" "jid ?j = c_fresh c"
    by (simp_all add: queued_call_def running_call_def call_job_def Job_init_def)
  note d = call_done(4,5) [OF assms(3) f queued_call_def, of reg, unfolded e(1)]
  show ?thesis using serve_spec [OF assms(1) h(1) same_job_refl h(2,3), of reg race] d by (simp add: e(2))
qed

lemma serve_held_all:
  assumes "inv s" "list_all2 (\<lambda>c r. held S fits reg (view s) (running_call gid now c) r) cs rs" "distinct (map c_fresh cs)"
    "length races = length cs" "\<forall>race \<in> set races. settles fits race"
    "ds = map2 (\<lambda>c race. done_job S norm reg (queued_call gid now c) race) cs races"
  shows "\<exists>s'. serve_all S B reg (zip rs races) s = (replicate (length cs) Continue, s') \<and> inv s' \<and> waiting s' = waiting s \<and>
    (\<forall>(i, j) \<in> set (zip (map c_fresh cs) ds). view s' i = job_view S j \<and> fits_job fits j \<and> terminal (status j)) \<and>
    (\<forall>i. i \<notin> c_fresh ` set cs \<longrightarrow> view s' i = view s i)"
  using assms
proof (induction cs arbitrary: s rs races ds)
  case (Cons c cs)
  obtain r rs' where rs: "rs = r # rs'" using Cons.prems(2) by (cases rs) auto
  obtain race races' where races: "races = race # races'" using Cons.prems(4) by (cases races) auto
  let ?d = "done_job S norm reg (queued_call gid now c) race"
  have hc: "held S fits reg (view s) (running_call gid now c) r" and st: "settles fits race"
    using Cons.prems(2,5) rs races by simp_all
  obtain s1 where s1: "worker_serve S B reg r race s = (Continue, s1)" "inv s1" "waiting s1 = waiting s"
    "view s1 = (view s)(c_fresh c := job_view S ?d)"
    using serve_held [OF Cons.prems(1) hc st] by blast
  have n: "c_fresh c \<notin> c_fresh ` set cs" "distinct (map c_fresh cs)" using Cons.prems(3) by simp_all
  have "list_all2 (\<lambda>c r. held S fits reg (view s) (running_call gid now c) r) cs rs'" using Cons.prems(2) rs by simp
  then have h1: "list_all2 (\<lambda>c r. held S fits reg (view s1) (running_call gid now c) r) cs rs'"
  proof (rule list.rel_mono_strong)
    fix x y assume x: "x \<in> set cs" "held S fits reg (view s) (running_call gid now x) y"
    then have "c_fresh x \<noteq> c_fresh c" using n(1) by (metis imageI)
    then have "view s1 (jid (running_call gid now x)) = view s (jid (running_call gid now x))"
      by (simp add: s1(4) running_call_def call_job_def Job_init_def)
    with x(2) show "held S fits reg (view s1) (running_call gid now x) y" using held_cong by blast
  qed
  have l: "length races' = length cs" "\<forall>race \<in> set races'. settles fits race" using Cons.prems(4,5) races by simp_all
  from Cons.IH [OF s1(2) h1 n(2) l refl] obtain s' where s': "serve_all S B reg (zip rs' races') s1 = (replicate (length cs) Continue, s')"
    "inv s'" "waiting s' = waiting s1"
    "\<forall>(i, j) \<in> set (zip (map c_fresh cs) (map2 (\<lambda>c race. done_job S norm reg (queued_call gid now c) race) cs races')).
       view s' i = job_view S j \<and> fits_job fits j \<and> terminal (status j)"
    "\<forall>i. i \<notin> c_fresh ` set cs \<longrightarrow> view s' i = view s1 i" by blast
  have f: "fits_job fits (call_job (Some gid) now c)" using hc by (simp add: held_def fits_job_def running_call_def call_job_def Job_init_def)
  have "view s' (c_fresh c) = job_view S ?d" using s'(5) n(1) by (simp add: s1(4))
  with call_done(1,2) [OF st f queued_call_def, of reg] s'(4)
  have z: "\<forall>(i, j) \<in> set (zip (map c_fresh (c # cs)) ds). view s' i = job_view S j \<and> fits_job fits j \<and> terminal (status j)"
    unfolding Cons.prems(6) races by simp
  have fr: "\<forall>i. i \<notin> c_fresh ` set (c # cs) \<longrightarrow> view s' i = view s i" using s'(5) by (simp add: s1(4))
  show ?case by (rule exI [of _ s']) (intro conjI z fr s'(2); simp add: rs races s1(1,3) s'(1,3))
qed simp

end

section \<open>A scope inside a scope\<close>

lemma nested_scope_runs:
  assumes "client B valid view waiting S canon fits" "valid s" "waiting s = []"
    "JobGroup_init gid mode deadline = Inr g0" "cs \<noteq> []" "distinct (map c_fresh cs)"
    "\<forall>x \<in> set cs. view s (c_fresh x) = None \<and> fits_job fits (call_job (Some gid) now x) \<and> map_of reg (t_name (c_task x)) \<noteq> None"
    "length races = length cs" "\<forall>race \<in> set races. settles fits race"
    "outs = map2 (call_outcome S canon reg) cs races" "mode = ''cancel_siblings'' \<longrightarrow> errors_of outs = []"
    "JobGroup_init gid' mode' deadline' = Inr k0" "bs \<noteq> []" "bs' = named_calls ctx bs"
    "distinct (map c_fresh bs')" "c_fresh ` set bs' \<inter> c_fresh ` set cs = {}"
    "\<forall>x \<in> set bs'. view s (c_fresh x) = None \<and> fits_job fits (call_job (Some gid') now' x)"
    "length races' = length bs'" "\<forall>race \<in> set races'. settles fits race"
    "outs' = map2 (call_outcome S canon reg) bs' races'" "mode' = ''cancel_siblings'' \<longrightarrow> errors_of outs' = []"
  shows "\<exists>hs g1 s0 rs s1 ks k1 s2 s3 ks' k2 s4 s5 hs' g2 s6.
    spawn_all S B now None cs (group_enter clk g0) s = (Inr hs, None, g1, s0) \<and>
    claim_all B (length cs) s0 = (rs, s1) \<and> length rs = length cs \<and>
    spawn_all S B now' (Some ctx) bs (group_enter clk' k0) s1 =
      (Inr ks, Some (ctx\<lparr>ctx_spawns := ctx_spawns ctx + int (length bs)\<rparr>), k1, s2) \<and>
    worker_loop S B reg races' s2 = (Continue, s3) \<and> run_waiters S B 0 ks k1 s3 = (ks', k2, s4) \<and>
    fst (group_exit B None JoinOn k2 s4) =
      (if mode' = ''collect'' \<and> errors_of outs' \<noteq> []
       then ExitGroup (''one or more jobs in group '' @ gid' @ '' failed'') (errors_of outs') else ExitNormal) \<and>
    length ks' = length bs \<and> (\<forall>t. map (\<lambda>h. handle_result S B h t) ks' = map2 (\<lambda>out h. (Ready out, h, t)) outs' ks') \<and>
    serve_all S B reg (zip rs races) s4 = (replicate (length cs) Continue, s5) \<and>
    run_waiters S B 0 hs g1 s5 = (hs', g2, s6) \<and>
    fst (group_exit B None JoinOn g2 s6) =
      (if mode = ''collect'' \<and> errors_of outs \<noteq> []
       then ExitGroup (''one or more jobs in group '' @ gid @ '' failed'') (errors_of outs) else ExitNormal) \<and>
    length hs' = length cs \<and> (\<forall>t. map (\<lambda>h. handle_result S B h t) hs' = map2 (\<lambda>out h. (Ready out, h, t)) outs hs') \<and>
    (\<forall>t. map (\<lambda>h. handle_status B h t) hs' = map (\<lambda>out. Inr (outcome_status out)) outs) \<and>
    valid s6 \<and> waiting s6 = [] \<and> view s6 = view s"
proof -
  let ?g = "group_enter clk g0"
  define hs where "hs = map (\<lambda>c. JobHandle_init (c_fresh c)) cs"
  define g1 where "g1 = fold group_register hs ?g"
  have g: "g_entered ?g" "g_id ?g = gid" "g_waiters ?g = []" "g_failures ?g = []" "Inr (g_on_error ?g) = OnError_of mode"
    using assms(4) by (auto simp: JobGroup_init_def group_enter_def rbind_Inr_iff)
  have d0: "distinct (map c_fresh (cs @ []))" and hs0: "hs = map (\<lambda>c. JobHandle_init (c_fresh c)) (cs @ [])"
    and f0: "\<forall>x \<in> set (cs @ []). view s (c_fresh x) = None \<and> fits_job fits (call_job (Some gid) now x) \<and>
       map_of reg (t_name (c_task x)) \<noteq> None" using assms(6,7) by (simp_all add: hs_def)
  obtain s0 rs s1 where s0: "spawn_all S B now None (cs @ []) ?g s = (Inr hs, None, g1, s0)"
    and s1: "claim_all B (length cs) s0 = (rs, s1)" "length rs = length cs" "valid s1" "waiting s1 = map c_fresh ([] :: spawn_call list)"
      "list_all2 (\<lambda>x r. held S fits reg (view s1) (running_call gid now x) r) cs rs"
      "\<forall>i. i \<notin> c_fresh ` set (cs @ []) \<longrightarrow> view s1 i = view s i"
    using client.scope_starts [OF assms(1-3) g(1,2) d0 f0 hs0 g1_def] by (elim exE conjE) (rule that)
  have w1: "waiting s1 = []" using s1(4) by simp
  have fr1: "view s1 i = view s i" if "i \<notin> c_fresh ` set cs" for i using s1(6) that by simp
  have b: "bs' \<noteq> []" using assms(13,14) by (metis length_0_conv named_calls_length)
  have f1: "\<forall>x \<in> set bs'. view s1 (c_fresh x) = None \<and> fits_job fits (call_job (Some gid') now' x)"
    using assms(16,17) fr1 by (metis disjoint_iff imageI)
  obtain ks k1 s2 s3 ks' k2 s4 where i: "spawn_all S B now' None bs' (group_enter clk' k0) s1 = (Inr ks, None, k1, s2)"
    "worker_loop S B reg races' s2 = (Continue, s3)" "run_waiters S B 0 ks k1 s3 = (ks', k2, s4)" "valid s4" "view s4 = view s1"
    "waiting s4 = []"
    "fst (group_exit B None JoinOn k2 s4) =
      (if mode' = ''collect'' \<and> errors_of outs' \<noteq> []
       then ExitGroup (''one or more jobs in group '' @ gid' @ '' failed'') (errors_of outs') else ExitNormal)"
    "length ks' = length bs'" "\<forall>t. map (\<lambda>h. handle_result S B h t) ks' = map2 (\<lambda>out h. (Ready out, h, t)) outs' ks'"
    using scope_runs [where clk = clk', OF assms(1) s1(3) w1 assms(12) refl b assms(15) f1 assms(18-21)] by (elim exE conjE) (rule that)
  note inner = spawn_all_in_job [OF i(1) [unfolded assms(14)]]
  have l: "length ks' = length bs" using i(8) by (simp add: assms(14))
  have h4: "list_all2 (\<lambda>c r. held S fits reg (view s4) (running_call gid now c) r) cs rs" using s1(5) by (simp only: i(5))
  let ?ds = "map2 (\<lambda>c race. done_job S canon reg (queued_call gid now c) race) cs races"
  obtain s5 where s5: "serve_all S B reg (zip rs races) s4 = (replicate (length cs) Continue, s5)" "valid s5" "waiting s5 = waiting s4"
    "\<forall>(i, j) \<in> set (zip (map c_fresh cs) ?ds). view s5 i = job_view S j \<and> fits_job fits j \<and> terminal (status j)"
    "\<forall>i. i \<notin> c_fresh ` set cs \<longrightarrow> view s5 i = view s4 i"
    using client.serve_held_all [OF assms(1) i(4) h4 assms(6,8,9) refl] by (elim exE conjE) (rule that)
  have f: "\<forall>c \<in> set cs. fits_job fits (call_job (Some gid) now c)" using assms(7) by simp
  have outs: "outs = map2 (\<lambda>i j. job_outcome i (norm_job canon j)) (map c_fresh cs) ?ds"
    unfolding assms(10) queued_call_def by (rule client.call_outcomes [OF assms(1,8,9) f])
  have lds: "length ?ds = length (map c_fresh cs)" using assms(8) by simp
  have hm: "map JobHandle_init (map c_fresh cs) = hs" by (simp add: hs_def)
  obtain hs' s6 where s6: "run_waiters S B 0 hs g1 s5 = (hs', finish_from 0 outs g1, s6)" "valid s6" "waiting s6 = waiting s5"
    "view s6 = (\<lambda>i. if i \<in> set (map c_fresh cs) then None else view s5 i)" "length hs' = length (map c_fresh cs)"
    "\<forall>t. map (\<lambda>h. handle_result S B h t) hs' = map2 (\<lambda>out h. (Ready out, h, t)) outs hs'"
    "\<forall>t. map (\<lambda>h. handle_status B h t) hs' = map (\<lambda>out. Inr (outcome_status out)) outs"
    using client.waiters_collect [OF assms(1) s5(2) assms(6) lds s5(4) outs, of 0 g1] unfolding hm by (elim exE conjE) (rule that)
  have verdict: "fst (group_exit B None JoinOn (finish_from 0 outs g1) s6) =
      (if mode = ''collect'' \<and> errors_of outs \<noteq> []
       then ExitGroup (''one or more jobs in group '' @ gid @ '' failed'') (errors_of outs) else ExitNormal)"
    using scope_verdict [OF g g1_def hs_def assms(5,8,10,11)] .
  have v6: "view s6 = view s"
  proof
    fix i
    show "view s6 i = view s i" using assms(7) s5(5) fr1 i(5) by (cases "i \<in> c_fresh ` set cs") (auto simp: s6(4))
  qed
  have s0': "spawn_all S B now None cs ?g s = (Inr hs, None, g1, s0)" using s0 by simp
  have w6: "waiting s6 = []" using s6(3) s5(3) i(6) by simp
  have l6: "length hs' = length cs" using s6(5) by simp
  show ?thesis
    by (rule exI [of _ hs], rule exI [of _ g1], rule exI [of _ s0], rule exI [of _ rs], rule exI [of _ s1], rule exI [of _ ks],
        rule exI [of _ k1], rule exI [of _ s2], rule exI [of _ s3], rule exI [of _ ks'], rule exI [of _ k2], rule exI [of _ s4],
        rule exI [of _ s5], rule exI [of _ hs'], rule exI [of _ "finish_from 0 outs g1"], rule exI [of _ s6])
      (intro conjI s0' s1(1,2) inner i(2,3,7) l i(9) s5(1) s6(1) verdict l6 s6(6,7,2) w6 v6)
qed

section \<open>A body that is cancelled inside its scope\<close>

lemma register_handles:
  assumes "distinct (map fst (g_handles g) @ map h_job_id hs)"
  shows "g_handles (fold group_register hs g) = g_handles g @ map (\<lambda>h. (h_job_id h, h)) hs"
  using assms
proof (induction hs arbitrary: g)
  case (Cons h hs)
  have "h_job_id h \<notin> fst ` set (g_handles g)" using Cons.prems by auto
  then have u: "AList.update (h_job_id h) h (g_handles g) = g_handles g @ [(h_job_id h, h)]"
    by (rule update_new)
  have "g_handles (group_register h g) = g_handles g @ [(h_job_id h, h)]" by (simp add: group_register_def Let_def u)
  then show ?case using Cons.IH [of "group_register h g"] Cons.prems by simp
qed simp

context client
begin

lemma cancelled_body_exit:
  assumes "inv s" "JobGroup_init gid mode deadline = Inr k0" "distinct (map c_fresh bs)"
    "k1 = fold group_register (map (\<lambda>c. JobHandle_init (c_fresh c)) bs) (group_enter clk k0)"
    "\<forall>b \<in> set bs. held S fits reg (view s) (running_call gid now b) (rec b)"
  shows "\<exists>k2 s'. group_exit B (Some CancelledError) JoinOn k1 s = (ExitRaises CancelledError, k2, s') \<and> still_running k2 = [] \<and>
    inv s' \<and> waiting s' = waiting s \<and>
    (\<forall>b \<in> set bs. view s' (c_fresh b) = job_view S ((running_call gid now b)\<lparr>request_cancel := True\<rparr>) \<and>
       b_wait_cancel B (c_fresh b) s' = Ready (Inr ())) \<and>
    (\<forall>i. i \<notin> c_fresh ` set bs \<longrightarrow> view s' i = view s i)"
proof -
  let ?g = "group_enter clk k0" and ?J = "running_call gid now"
  have g: "g_handles ?g = []" "g_fanout ?g = None"
    using assms(2) by (auto simp: JobGroup_init_def group_enter_def rbind_Inr_iff)
  have ji: "jid (?J b) = c_fresh b" for b by (simp add: running_call_def call_job_def Job_init_def)
  have "g_handles k1 = map (\<lambda>h. (h_job_id h, h)) (map (\<lambda>c. JobHandle_init (c_fresh c)) bs)"
    using register_handles [of ?g "map (\<lambda>c. JobHandle_init (c_fresh c)) bs"] assms(3,4) g(1) by (simp add: JobHandle_init_def comp_def)
  then have ids: "map (\<lambda>(k, h). h_job_id h) (g_handles k1) = map jid (map ?J bs)" by (simp add: ji JobHandle_init_def comp_def)
  have fo: "g_fanout k1 = None" using g(2) by (simp add: assms(4) register_frame)
  have act: "\<forall>j \<in> set (map ?J bs). view s (jid j) = job_view S j \<and> fits_job fits j \<and> \<not> terminal (status j)"
    using assms(5) by (auto simp: held_def runs_in_def terminal_def)
  obtain s' where s': "b_request_cancel_many B (map jid (map ?J bs)) s = (Inr (), s')" "inv s'" "waiting s' = waiting s"
    "\<forall>j \<in> set (map ?J bs). view s' (jid j) = job_view S (j\<lparr>request_cancel := True\<rparr>) \<and> b_wait_cancel B (jid j) s' = Ready (Inr ())"
    "\<forall>i. i \<notin> jid ` set (map ?J bs) \<longrightarrow> view s' i = view s i"
    using flag_all [OF assms(1) act] by (elim exE conjE) (rule that)
  let ?k2 = "k1\<lparr>g_waiters := map (\<lambda>(i, w). (i, if w = Waiting then Dropped else w)) (g_waiters k1)\<rparr>"
  have e: "group_exit B (Some CancelledError) JoinOn k1 s = (ExitRaises CancelledError, ?k2, s')"
    using s'(1) fo by (simp add: group_exit_def cancel_and_raise_def cancel_all_jobs_def ids group_settle_def run_fanout_def)
  have "filter (\<lambda>(i, w). w = Waiting) (map (\<lambda>(i, w). (i, if w = Waiting then Dropped else w)) ws) = []" for ws :: "(string \<times> waiter) list"
    by (induction ws) (auto split: if_splits)
  then have sr: "still_running ?k2 = []" by (simp add: still_running_def)
  have fl: "\<forall>b \<in> set bs. view s' (c_fresh b) = job_view S ((?J b)\<lparr>request_cancel := True\<rparr>) \<and> b_wait_cancel B (c_fresh b) s' = Ready (Inr ())"
    using s'(4) by (simp add: ji)
  have fr: "\<forall>i. i \<notin> c_fresh ` set bs \<longrightarrow> view s' i = view s i" using s'(5) by (simp add: image_image ji)
  show ?thesis by (rule exI [of _ ?k2], rule exI [of _ s']) (intro conjI e sr s'(2,3) fl fr)
qed

text \<open>The loops that hold flagged jobs stop them.\<close>

lemma serve_flagged_calls:
  assumes "inv s" "distinct (map c_fresh bs)" "length rs = length bs"
    "list_all2 (\<lambda>b r. view s (c_fresh b) = job_view S ((running_call gid now b)\<lparr>request_cancel := True\<rparr>) \<and>
       held S fits reg v (running_call gid now b) r) bs rs"
  shows "\<exists>s'. serve_all S B reg (map (\<lambda>r. (r, Ends (CancelSeen u))) rs) s = (replicate (length bs) Continue, s') \<and> inv s' \<and>
    waiting s' = waiting s \<and>
    (\<forall>b \<in> set bs. view s' (c_fresh b) = job_view S ((norm_job norm (running_call gid now b))\<lparr>status := CANCELLED\<rparr>)) \<and>
    (\<forall>i. i \<notin> c_fresh ` set bs \<longrightarrow> view s' i = view s i)"
  using assms
proof (induction bs arbitrary: s rs)
  case (Cons b bs)
  obtain r rs' where rs: "rs = r # rs'" using Cons.prems(3) by (cases rs) auto
  let ?J = "running_call gid now"
  have ji: "jid (?J b) = c_fresh b" for b by (simp add: running_call_def call_job_def Job_init_def)
  have j: "view s (jid (?J b)) = job_view S ((?J b)\<lparr>request_cancel := True\<rparr>)" "held S fits reg v (?J b) r"
    using Cons.prems(4) rs by (simp_all add: ji)
  obtain s1 where s1: "worker_serve S B reg r (Ends (CancelSeen u)) s = (Continue, s1)" "inv s1" "waiting s1 = waiting s"
    "view s1 = (view s)(c_fresh b := job_view S ((norm_job norm (?J b))\<lparr>status := CANCELLED\<rparr>))"
    using serve_watched [OF Cons.prems(1) j, of u] unfolding ji by (elim exE conjE) (rule that)
  have n: "c_fresh b \<notin> c_fresh ` set bs" "distinct (map c_fresh bs)" "length rs' = length bs" using Cons.prems(2,3) rs by simp_all
  have "list_all2 (\<lambda>b r. view s (c_fresh b) = job_view S ((?J b)\<lparr>request_cancel := True\<rparr>) \<and> held S fits reg v (?J b) r) bs rs'"
    using Cons.prems(4) rs by simp
  then have "list_all2 (\<lambda>b r. view s1 (c_fresh b) = job_view S ((?J b)\<lparr>request_cancel := True\<rparr>) \<and> held S fits reg v (?J b) r) bs rs'"
  proof (rule list.rel_mono_strong)
    fix x y assume x: "x \<in> set bs" "view s (c_fresh x) = job_view S ((?J x)\<lparr>request_cancel := True\<rparr>) \<and> held S fits reg v (?J x) y"
    then have "c_fresh x \<noteq> c_fresh b" using n(1) by (metis imageI)
    with x(2) show "view s1 (c_fresh x) = job_view S ((?J x)\<lparr>request_cancel := True\<rparr>) \<and> held S fits reg v (?J x) y"
      by (simp add: s1(4))
  qed
  from Cons.IH [OF s1(2) n(2,3) this] obtain s' where s': "serve_all S B reg (map (\<lambda>r. (r, Ends (CancelSeen u))) rs') s1 = (replicate (length bs) Continue, s')"
    "inv s'" "waiting s' = waiting s1" "\<forall>b \<in> set bs. view s' (c_fresh b) = job_view S ((norm_job norm (?J b))\<lparr>status := CANCELLED\<rparr>)"
    "\<forall>i. i \<notin> c_fresh ` set bs \<longrightarrow> view s' i = view s1 i" by (elim exE conjE) (rule that)
  have "view s' (c_fresh b) = job_view S ((norm_job norm (?J b))\<lparr>status := CANCELLED\<rparr>)" using s'(5) n(1) by (simp add: s1(4))
  with s' s1 show ?case by (intro exI [of _ s']) (simp add: rs)
qed simp

end

section \<open>The failure of a sibling\<close>

lemma list_all2_pick:
  assumes "list_all2 P (xs @ y # ys) rs"
  shows "\<exists>rx r ry. rs = rx @ r # ry \<and> length rx = length xs \<and> length ry = length ys"
  using assms by (auto simp: list_all2_append1 list_all2_Cons1 dest: list_all2_lengthD) blast

text \<open>Both scopes are open, and every job of either is in the hands of a loop.\<close>

lemma nested_starts:
  assumes "client B valid view waiting S canon fits" "valid s" "waiting s = []"
    "JobGroup_init gid mode deadline = Inr g0" "distinct (map c_fresh cs)"
    "\<forall>x \<in> set cs. view s (c_fresh x) = None \<and> fits_job fits (call_job (Some gid) now x) \<and> map_of reg (t_name (c_task x)) \<noteq> None"
    "JobGroup_init gid' mode' deadline' = Inr k0" "bs' = named_calls ctx bs" "distinct (map c_fresh bs')"
    "c_fresh ` set bs' \<inter> c_fresh ` set cs = {}"
    "\<forall>x \<in> set bs'. view s (c_fresh x) = None \<and> fits_job fits (call_job (Some gid') now' x) \<and> map_of reg (t_name (c_task x)) \<noteq> None"
    "hs = map (\<lambda>x. JobHandle_init (c_fresh x)) cs" "g1 = fold group_register hs (group_enter clk g0)"
    "ks = map (\<lambda>x. JobHandle_init (c_fresh x)) bs'" "k1 = fold group_register ks (group_enter clk' k0)"
  shows "\<exists>s0 rs s1 s2 rb s3. spawn_all S B now None cs (group_enter clk g0) s = (Inr hs, None, g1, s0) \<and>
    claim_all B (length cs) s0 = (rs, s1) \<and>
    spawn_all S B now' (Some ctx) bs (group_enter clk' k0) s1 =
      (Inr ks, Some (ctx\<lparr>ctx_spawns := ctx_spawns ctx + int (length bs)\<rparr>), k1, s2) \<and>
    claim_all B (length bs) s2 = (rb, s3) \<and> valid s3 \<and> waiting s3 = [] \<and>
    list_all2 (\<lambda>x r. held S fits reg (view s3) (running_call gid now x) r) cs rs \<and>
    list_all2 (\<lambda>x r. held S fits reg (view s3) (running_call gid' now' x) r) bs' rb \<and>
    (\<forall>i. i \<notin> c_fresh ` set cs \<longrightarrow> i \<notin> c_fresh ` set bs' \<longrightarrow> view s3 i = view s i)"
proof -
  let ?g = "group_enter clk g0" and ?k = "group_enter clk' k0" and ?J = "running_call gid now"
  have g: "g_entered ?g" "g_id ?g = gid" "g_entered ?k" "g_id ?k = gid'"
    using assms(4,7) by (auto simp: JobGroup_init_def group_enter_def rbind_Inr_iff)
  have d0: "distinct (map c_fresh (cs @ []))" and h0: "hs = map (\<lambda>x. JobHandle_init (c_fresh x)) (cs @ [])"
    and f0: "\<forall>x \<in> set (cs @ []). view s (c_fresh x) = None \<and> fits_job fits (call_job (Some gid) now x) \<and>
       map_of reg (t_name (c_task x)) \<noteq> None" using assms(5,6,12) by simp_all
  obtain s0 rs s1 where s0: "spawn_all S B now None (cs @ []) ?g s = (Inr hs, None, g1, s0)"
    and s1: "claim_all B (length cs) s0 = (rs, s1)" "valid s1" "waiting s1 = map c_fresh ([] :: spawn_call list)"
    "list_all2 (\<lambda>x r. held S fits reg (view s1) (?J x) r) cs rs" "\<forall>i. i \<notin> c_fresh ` set (cs @ []) \<longrightarrow> view s1 i = view s i"
    using client.scope_starts [OF assms(1-3) g(1,2) d0 f0 h0 assms(13)] by (elim exE conjE) (rule that)
  have fr1: "view s1 i = view s i" if "i \<notin> c_fresh ` set cs" for i using s1(5) that by simp
  have w1: "waiting s1 = []" using s1(3) by simp
  have d1: "distinct (map c_fresh (bs' @ []))" and k0: "ks = map (\<lambda>x. JobHandle_init (c_fresh x)) (bs' @ [])" using assms(9,14) by simp_all
  have f1: "\<forall>x \<in> set (bs' @ []). view s1 (c_fresh x) = None \<and> fits_job fits (call_job (Some gid') now' x) \<and>
      map_of reg (t_name (c_task x)) \<noteq> None" using assms(10,11) fr1 by (auto simp: disjoint_iff)
  obtain s2 rb s3 where s2: "spawn_all S B now' None (bs' @ []) ?k s1 = (Inr ks, None, k1, s2)"
    and s3: "claim_all B (length bs') s2 = (rb, s3)" "valid s3" "waiting s3 = map c_fresh ([] :: spawn_call list)"
    "list_all2 (\<lambda>x r. held S fits reg (view s3) (running_call gid' now' x) r) bs' rb"
    "\<forall>i. i \<notin> c_fresh ` set (bs' @ []) \<longrightarrow> view s3 i = view s1 i"
    using client.scope_starts [OF assms(1) s1(2) w1 g(3,4) d1 f1 k0 assms(15)] by (elim exE conjE) (rule that)
  have fr3: "view s3 i = view s1 i" if "i \<notin> c_fresh ` set bs'" for i using s3(5) that by simp
  have inner: "spawn_all S B now' (Some ctx) bs ?k s1 = (Inr ks, Some (ctx\<lparr>ctx_spawns := ctx_spawns ctx + int (length bs)\<rparr>), k1, s2)"
    by (rule spawn_all_in_job) (use s2 in \<open>simp add: assms(8)\<close>)
  have h3: "list_all2 (\<lambda>x r. held S fits reg (view s3) (?J x) r) cs rs" using s1(4)
  proof (rule list.rel_mono_strong)
    fix x y assume x: "x \<in> set cs" "held S fits reg (view s1) (?J x) y"
    have "c_fresh x \<notin> c_fresh ` set bs'" using assms(10) x(1) by blast
    then have "view s3 (jid (?J x)) = view s1 (jid (?J x))" using fr3 by (simp add: running_call_def call_job_def Job_init_def)
    with x(2) show "held S fits reg (view s3) (?J x) y" using client.held_cong [OF assms(1)] by blast
  qed
  have out: "spawn_all S B now None cs ?g s = (Inr hs, None, g1, s0)" "claim_all B (length bs) s2 = (rb, s3)" "waiting s3 = []"
    using s0 s3(1,3) by (simp_all add: assms(8))
  have fr: "\<forall>i. i \<notin> c_fresh ` set cs \<longrightarrow> i \<notin> c_fresh ` set bs' \<longrightarrow> view s3 i = view s i" using fr1 fr3 by simp
  show ?thesis
    by (rule exI [of _ s0], rule exI [of _ rs], rule exI [of _ s1], rule exI [of _ s2], rule exI [of _ rb], rule exI [of _ s3])
      (intro conjI out s1(1) inner s3(2) h3 s3(4) fr)
qed

text \<open>One job of the outer scope fails: its siblings are flagged, and the body among them leaves its own scope.\<close>

lemma nested_unwinds:
  assumes "client B valid view waiting S canon fits" "valid s" "JobGroup_init gid ''cancel_siblings'' deadline = Inr g0"
    "distinct (map c_fresh (xs @ c # ys))" "list_all2 (\<lambda>x r. held S fits reg (view s) (running_call gid now x) r) (xs @ c # ys) (rx @ r # ry)"
    "length rx = length xs" "length ry = length ys" "is_Exception e"
    "err = RuntimeError (''job '' @ py_repr (c_fresh c) @ '' failed: '' @ py_str_exc e)"
    "JobGroup_init gid' mode' deadline' = Inr k0" "distinct (map c_fresh bs)" "c_fresh ` set bs \<inter> c_fresh ` set (xs @ c # ys) = {}"
    "list_all2 (\<lambda>x r. held S fits reg (view s) (running_call gid' now' x) r) bs rb"
    "g1 = fold group_register (map (\<lambda>x. JobHandle_init (c_fresh x)) (xs @ c # ys)) (group_enter clk g0)"
    "k1 = fold group_register (map (\<lambda>x. JobHandle_init (c_fresh x)) bs) (group_enter clk' k0)"
    "g3 = (run_callback (waiter_done (length xs) (Inl err) g1))\<lparr>g_fanned := True\<rparr>"
  shows "\<exists>s4 h s5 s6 k2 s7 s8. worker_serve S B reg r (Ends (JobDone (Inl e))) s = (Continue, s4) \<and>
    run_waiters S B (length xs) [JobHandle_init (c_fresh c)] g1 s4 = ([h], waiter_done (length xs) (Inl err) g1, s5) \<and>
    run_fanout B (run_callback (waiter_done (length xs) (Inl err) g1)) s5 = (g3, s6) \<and>
    (\<forall>x \<in> set (xs @ ys). b_wait_cancel B (c_fresh x) s6 = Ready (Inr ())) \<and>
    group_exit B (Some CancelledError) JoinOn k1 s6 = (ExitRaises CancelledError, k2, s7) \<and> still_running k2 = [] \<and>
    (\<forall>b \<in> set bs. b_wait_cancel B (c_fresh b) s7 = Ready (Inr ())) \<and>
    serve_all S B reg (map (\<lambda>r. (r, Ends (CancelSeen u))) rb) s7 = (replicate (length bs) Continue, s8) \<and>
    (\<forall>t. handle_status B h t = Inr FAILED) \<and> valid s8 \<and> waiting s8 = waiting s \<and>
    (\<forall>x \<in> set (xs @ ys). view s8 (c_fresh x) = job_view S ((running_call gid now x)\<lparr>request_cancel := True\<rparr>)) \<and>
    (\<forall>b \<in> set bs. view s8 (c_fresh b) = job_view S ((norm_job canon (running_call gid' now' b))\<lparr>status := CANCELLED\<rparr>)) \<and>
    view s8 (c_fresh c) = None \<and>
    (\<forall>i. i \<notin> c_fresh ` set (xs @ c # ys) \<longrightarrow> i \<notin> c_fresh ` set bs \<longrightarrow> view s8 i = view s i)"
proof -
  let ?cs = "xs @ c # ys" and ?J = "running_call gid now" and ?K = "running_call gid' now'" and ?H = "\<lambda>x. JobHandle_init (c_fresh x)"
    and ?O = "c_fresh ` set (xs @ c # ys)" and ?I = "c_fresh ` set bs"
  have sep: "i \<notin> ?O" if "i \<in> ?I" for i using that assms(12) by blast
  have ji: "jid (?J x) = c_fresh x" "jid (?K x) = c_fresh x" for x
    by (simp_all add: running_call_def call_job_def Job_init_def)
  define m where "m = map_of (zip (map c_fresh ?cs) (rx @ r # ry))"
  have rd: "the (m (jid (?J c))) = r" using zip_read(1) [OF assms(4,6,7) m_def] by (simp add: ji)
  have hj: "\<forall>x \<in> set ?cs. held S fits reg (view s) (?J x) (the (m (c_fresh x)))" by (rule zip_held [OF assms(5,4) m_def])
  have hn: "map ?H ?cs \<noteq> []" "map h_job_id (map ?H ?cs) = map jid (map ?J xs @ ?J c # map ?J ys)"
    by (simp_all add: ji JobHandle_init_def comp_def)
  note G = opened_siblings [OF assms(3) hn assms(14)]
  have Gw: "g_waiters g1 = map (\<lambda>j. (jid j, Waiting)) (map ?J xs @ ?J c # map ?J ys)" using G(2) by simp
  have dj: "distinct (map jid (map ?J xs @ ?J c # map ?J ys))" using assms(4) by (simp add: ji comp_def)
  have hc: "held S fits reg (view s) (?J c) (the (m (jid (?J c))))" using hj by (simp add: ji)
  have act: "\<forall>i \<in> set (map ?J xs @ map ?J ys). view s (jid i) = job_view S i \<and> fits_job fits i \<and> \<not> terminal (status i)"
    using hj by (auto simp: held_def runs_in_def terminal_def ball_Un)
  have er: "err = RuntimeError (''job '' @ py_repr (jid (?J c)) @ '' failed: '' @ py_str_exc e)" by (simp add: ji assms(9))
  let ?gw = "waiter_done (length (map ?J xs)) (Inl err) g1"
  obtain s4 h s5 s6 where F: "worker_serve S B reg (the (m (jid (?J c)))) (Ends (JobDone (Inl e))) s = (Continue, s4)"
    "run_waiters S B (length (map ?J xs)) [JobHandle_init (jid (?J c))] g1 s4 = ([h], ?gw, s5)"
    "run_fanout B (run_callback ?gw) s5 = ((run_callback ?gw)\<lparr>g_fanned := True\<rparr>, s6)" "valid s6" "waiting s6 = waiting s"
    "\<forall>i \<in> set (map ?J xs @ map ?J ys). view s6 (jid i) = job_view S (i\<lparr>request_cancel := True\<rparr>) \<and> b_wait_cancel B (jid i) s6 = Ready (Inr ())"
    "\<forall>i. i \<notin> jid ` set (map ?J xs @ map ?J ys) \<longrightarrow> view s6 i = (if i = jid (?J c) then None else view s i)"
    "\<forall>t. handle_status B h t = Inr FAILED"
    using client.failure_fans_out [where rec = "\<lambda>j. the (m (jid j))", OF assms(1,2) G(1) Gw G(4-8) dj hc act assms(8) er refl]
    by (elim exE conjE) (rule that)
  have imo: "jid ` set (map ?J xs @ map ?J ys) = c_fresh ` set (xs @ ys)" by (simp add: image_image image_Un ji)
  have fr6: "view s6 i = (if i = c_fresh c then None else view s i)" if "i \<notin> c_fresh ` set (xs @ ys)" for i
    using F(7) that unfolding imo ji by blast
  have o6: "\<forall>x \<in> set (xs @ ys). view s6 (c_fresh x) = job_view S ((?J x)\<lparr>request_cancel := True\<rparr>) \<and> b_wait_cancel B (c_fresh x) s6 = Ready (Inr ())"
    using F(6) by (simp add: ji ball_Un)
  have h6: "list_all2 (\<lambda>x r. held S fits reg (view s6) (?K x) r) bs rb" using assms(13)
  proof (rule list.rel_mono_strong)
    fix x y assume x: "x \<in> set bs" "held S fits reg (view s) (?K x) y"
    have "c_fresh x \<notin> ?O" using sep x(1) by blast
    then have "view s6 (jid (?K x)) = view s (jid (?K x))" using fr6 [of "c_fresh x"] unfolding ji by auto
    with x(2) show "held S fits reg (view s6) (?K x) y" using client.held_cong [OF assms(1)] by blast
  qed
  obtain k2 s7 where E: "group_exit B (Some CancelledError) JoinOn k1 s6 = (ExitRaises CancelledError, k2, s7)" "still_running k2 = []"
    "valid s7" "waiting s7 = waiting s6"
    "\<forall>b \<in> set bs. view s7 (c_fresh b) = job_view S ((?K b)\<lparr>request_cancel := True\<rparr>) \<and> b_wait_cancel B (c_fresh b) s7 = Ready (Inr ())"
    "\<forall>i. i \<notin> ?I \<longrightarrow> view s7 i = view s6 i"
    using client.cancelled_body_exit [OF assms(1) F(4) assms(10,11,15) zip_held [OF h6 assms(11) refl]] by (elim exE conjE) (rule that)
  have h7: "list_all2 (\<lambda>b r. view s7 (c_fresh b) = job_view S ((?K b)\<lparr>request_cancel := True\<rparr>) \<and>
      held S fits reg (view s6) (?K b) r) bs rb"
    by (rule list.rel_mono_strong [OF h6]) (use E(5) in blast)
  obtain s8 where s8: "serve_all S B reg (map (\<lambda>r. (r, Ends (CancelSeen u))) rb) s7 = (replicate (length bs) Continue, s8)" "valid s8"
    "waiting s8 = waiting s7" "\<forall>b \<in> set bs. view s8 (c_fresh b) = job_view S ((norm_job canon (?K b))\<lparr>status := CANCELLED\<rparr>)"
    "\<forall>i. i \<notin> ?I \<longrightarrow> view s8 i = view s7 i"
    using client.serve_flagged_calls [OF assms(1) E(3) assms(11) list_all2_lengthD [OF h6, symmetric] h7, of u] by (elim exE conjE) (rule that)
  have fr8: "view s8 i = view s6 i" if "i \<notin> ?I" for i using s8(5) E(6) that by simp
  have o8: "\<forall>x \<in> set (xs @ ys). view s8 (c_fresh x) = job_view S ((?J x)\<lparr>request_cancel := True\<rparr>)"
  proof
    fix x assume x: "x \<in> set (xs @ ys)"
    then have "c_fresh x \<notin> ?I" using sep by auto
    with fr8 bspec [OF o6 x] show "view s8 (c_fresh x) = job_view S ((?J x)\<lparr>request_cancel := True\<rparr>)" by simp
  qed
  have nc: "c_fresh c \<notin> c_fresh ` set (xs @ ys)" "c_fresh c \<notin> ?I" using assms(4) sep by auto
  have c8: "view s8 (c_fresh c) = None" using fr8 [OF nc(2)] fr6 [OF nc(1)] by simp
  have f8: "\<forall>i. i \<notin> ?O \<longrightarrow> i \<notin> ?I \<longrightarrow> view s8 i = view s i" using fr8 fr6 by auto
  have w8: "waiting s8 = waiting s" using s8(3) E(4) F(5) by simp
  have wo: "\<forall>x \<in> set (xs @ ys). b_wait_cancel B (c_fresh x) s6 = Ready (Inr ())"
    and wi: "\<forall>b \<in> set bs. b_wait_cancel B (c_fresh b) s7 = Ready (Inr ())" using o6 E(5) by blast+
  show ?thesis unfolding assms(16)
    by (rule exI [of _ s4], rule exI [of _ h], rule exI [of _ s5], rule exI [of _ s6], rule exI [of _ k2], rule exI [of _ s7],
        rule exI [of _ s8])
      (intro conjI F(1) [unfolded rd] F(2,3) [unfolded length_map ji] wo E(1,2) wi s8(1) F(8) s8(2) w8 o8 s8(4) c8 f8)
qed

text \<open>The loops stop the flagged siblings, and the scope around them ends.\<close>

lemma flagged_siblings_end:
  assumes "client B valid view waiting S canon fits" "valid s" "waiting s = []" "JobGroup_init gid ''cancel_siblings'' deadline = Inr g0"
    "distinct (map c_fresh (xs @ c # ys))" "list_all2 (\<lambda>x r. held S fits reg v (running_call gid now x) r) (xs @ c # ys) (rx @ r # ry)"
    "length rx = length xs" "length ry = length ys" "is_Exception err"
    "\<forall>x \<in> set (xs @ ys). view s (c_fresh x) = job_view S ((running_call gid now x)\<lparr>request_cancel := True\<rparr>)"
    "hs = map (\<lambda>x. JobHandle_init (c_fresh x)) (xs @ c # ys)" "g1 = fold group_register hs (group_enter clk g0)"
    "g3 = (run_callback (waiter_done (length xs) (Inl err) g1))\<lparr>g_fanned := True\<rparr>"
  shows "\<exists>s9 hx gx s10 hy gy s11.
    serve_all S B reg (map (\<lambda>r. (r, Ends (CancelSeen u))) (rx @ ry)) s = (replicate (length (xs @ ys)) Continue, s9) \<and>
    run_waiters S B 0 (take (length xs) hs) g3 s9 = (hx, gx, s10) \<and>
    run_waiters S B (Suc (length xs)) (drop (Suc (length xs)) hs) gx s10 = (hy, gy, s11) \<and>
    fst (group_exit B None JoinOn ((run_callback ^^ length (xs @ ys)) gy) s11) =
      ExitGroup (''one or more jobs in group '' @ gid @ '' failed'') [err] \<and>
    (\<forall>t. map (\<lambda>h. handle_status B h t) (hx @ hy) = map (\<lambda>x. Inr CANCELLED) (xs @ ys)) \<and> valid s11 \<and> waiting s11 = [] \<and>
    view s11 = (\<lambda>i. if i \<in> c_fresh ` set (xs @ ys) then None else view s i)"
proof -
  let ?cs = "xs @ c # ys" and ?J = "running_call gid now" and ?H = "\<lambda>x. JobHandle_init (c_fresh x)"
  have ji: "jid (?J x) = c_fresh x" for x by (simp add: running_call_def call_job_def Job_init_def)
  define m where "m = map_of (zip (map c_fresh ?cs) (rx @ r # ry))"
  note Z = zip_read [OF assms(5,7,8) m_def]
  have hj: "\<forall>x \<in> set ?cs. held S fits reg v (?J x) (the (m (c_fresh x)))" by (rule zip_held [OF assms(6,5) m_def])
  have hn: "hs \<noteq> []" "map h_job_id hs = map jid (map ?J xs @ ?J c # map ?J ys)"
    by (simp_all add: assms(11) ji JobHandle_init_def comp_def)
  note G = opened_siblings [OF assms(4) hn assms(12)]
  have hs: "take (length xs) hs = map ?H xs" "drop (Suc (length xs)) hs = map ?H ys" by (simp_all add: assms(11))
  have wg: "g_waiters g1 = map (\<lambda>i. (i, Waiting)) (map jid (map ?J xs) @ jid (?J c) # map jid (map ?J ys))" using G(2) by simp
  have gf: "run_callback (waiter_done (length xs) (Inl err) g1) = run_callback (waiter_done (length (map jid (map ?J xs))) (Inl err) g1)"
    by simp
  note L = first_failure [OF G(1) wg G(4-7) assms(9) gf]
  have g3: "g_on_error g3 = CANCEL_SIBLINGS" "g_cancelling g3" "g_callbacks g3 = []" "g_failures g3 = [err]" "g_handles g3 \<noteq> []"
    "g_waiters g3 = map (\<lambda>k. (k, Waiting)) (map jid (map ?J xs)) @ (jid (?J c), Finished (Inl err)) # map (\<lambda>k. (k, Waiting)) (map jid (map ?J ys @ []))"
    "g_id g3 = gid"
    using L G(3,9) by (simp_all add: assms(13))
  have dq: "distinct (map jid (map ?J xs @ map ?J ys @ []))" using assms(5) by (auto simp: ji comp_def)
  have w8: "waiting s = map jid ([] :: job list)" using assms(3) by simp
  have h8: "\<forall>i \<in> set (map ?J xs @ map ?J ys). view s (jid i) = job_view S (i\<lparr>request_cancel := True\<rparr>) \<and> held S fits reg v i (the (m (jid i)))"
    using hj assms(10) by (simp add: ji ball_Un)
  have nil: "\<forall>z \<in> set ([] :: job list). view s (jid z) = job_view S (z\<lparr>request_cancel := True\<rparr>) \<and> queued_in S fits v z"
    "length ([] :: race list) = length ([] :: job list)" "\<forall>race \<in> set ([] :: race list). settles fits race" by simp_all
  obtain s9 s9' hx gx s10 hy gy s11 where D:
    "serve_all S B reg (map (\<lambda>i. (the (m (jid i)), Ends (CancelSeen u))) (map ?J xs @ map ?J ys)) s =
      (replicate (length (map ?J xs @ map ?J ys)) Continue, s9)"
    "worker_loop S B reg [] s9 = (Continue, s9')"
    "run_waiters S B 0 (map (\<lambda>i. JobHandle_init (jid i)) (map ?J xs)) g3 s9' = (hx, gx, s10)"
    "run_waiters S B (Suc (length (map ?J xs))) (map (\<lambda>i. JobHandle_init (jid i)) (map ?J ys @ [])) gx s10 = (hy, gy, s11)"
    "fst (group_exit B None JoinOn ((run_callback ^^ length (map ?J xs @ map ?J ys @ [])) gy) s11) =
      ExitGroup (''one or more jobs in group '' @ g_id g3 @ '' failed'') [err]"
    "\<forall>t. map (\<lambda>h. handle_status B h t) (hx @ hy) = map (\<lambda>i. Inr CANCELLED) (map ?J xs @ map ?J ys @ [])"
    "valid s11" "waiting s11 = []"
    "view s11 = (\<lambda>i. if i \<in> jid ` set (map ?J xs @ map ?J ys @ []) then None else view s i)"
    using client.siblings_stop [where rec = "\<lambda>j. the (m (jid j))" and u = "\<lambda>_. u", OF assms(1,2) dq w8 h8 nil g3(1-6)]
    by (elim exE conjE) (rule that)
  have s9: "s9' = s9" using D(2) by simp
  have zz: "map2 (\<lambda>x r. (r, Ends (CancelSeen u))) as qs = map (\<lambda>r. (r, Ends (CancelSeen u))) qs" if "length qs = length as"
    for as :: "spawn_call list" and qs :: "hrecord list"
    using that by (induction qs as rule: list_induct2) simp_all
  have jj: "map f (map ?J xs @ map ?J ys) = map (\<lambda>x. f (?J x)) (xs @ ys)" for f :: "job \<Rightarrow> hrecord \<times> race" by simp
  have lr: "length (rx @ ry) = length (xs @ ys)" using assms(7,8) by simp
  have sa: "serve_all S B reg (map (\<lambda>r. (r, Ends (CancelSeen u))) (rx @ ry)) s = (replicate (length (xs @ ys)) Continue, s9)"
    using D(1) Z(2) [of "\<lambda>x. Ends (CancelSeen u)"] zz [OF lr] unfolding jj ji by (simp del: serve_all.simps)
  have wx: "run_waiters S B 0 (take (length xs) hs) g3 s9 = (hx, gx, s10)"
    using D(3) unfolding hs(1) s9 by (simp only: map_map comp_def ji)
  have wy: "run_waiters S B (Suc (length xs)) (drop (Suc (length xs)) hs) gx s10 = (hy, gy, s11)"
    using D(4) unfolding hs(2) by (simp only: append_Nil2 map_map comp_def ji length_map)
  have verdict: "fst (group_exit B None JoinOn ((run_callback ^^ length (xs @ ys)) gy) s11) =
      ExitGroup (''one or more jobs in group '' @ gid @ '' failed'') [err]"
    using D(5) unfolding g3(7) by simp
  have sts: "\<forall>t. map (\<lambda>h. handle_status B h t) (hx @ hy) = map (\<lambda>x. Inr CANCELLED) (xs @ ys)"
    using D(6) by (simp add: comp_def)
  have im: "jid ` set (map ?J xs @ map ?J ys @ []) = c_fresh ` set (xs @ ys)" by (simp add: image_image image_Un ji)
  show ?thesis
    by (rule exI [of _ s9], rule exI [of _ hx], rule exI [of _ gx], rule exI [of _ s10], rule exI [of _ hy], rule exI [of _ gy],
        rule exI [of _ s11]) (intro conjI sa wx wy verdict sts D(7,8) D(9) [unfolded im])
qed

text \<open>Jobs that nobody collects keep reporting their status.\<close>

lemma cancelled_left:
  assumes "client B valid view waiting S canon fits" "valid s" "fits_job fits j" "view s i = job_view S ((norm_job canon j)\<lparr>status := CANCELLED\<rparr>)"
  shows "handle_status B (JobHandle_init i) s = Inr CANCELLED"
proof -
  let ?d = "(norm_job canon j)\<lparr>status := CANCELLED\<rparr>"
  have "fits_job fits ?d" using client.fits_norm_job [OF assms(1,3)] by (simp add: fits_job_def)
  then have "view s i \<noteq> None" using client.job_view_total [OF assms(1)] assms(4) by auto
  with client.status_reads [OF assms(1,2), of "JobHandle_init i" ?d] assms(4) show ?thesis by (simp add: JobHandle_init_def)
qed

lemma nested_failure_runs:
  assumes "client B valid view waiting S canon fits" "valid s" "waiting s = []"
    "JobGroup_init gid ''cancel_siblings'' deadline = Inr g0" "distinct (map c_fresh (xs @ c # ys))"
    "\<forall>x \<in> set (xs @ c # ys). view s (c_fresh x) = None \<and> fits_job fits (call_job (Some gid) now x) \<and>
       map_of reg (t_name (c_task x)) \<noteq> None"
    "is_Exception e" "err = RuntimeError (''job '' @ py_repr (c_fresh c) @ '' failed: '' @ py_str_exc e)"
    "JobGroup_init gid' mode' deadline' = Inr k0" "bs' = named_calls ctx bs" "distinct (map c_fresh bs')"
    "c_fresh ` set bs' \<inter> c_fresh ` set (xs @ c # ys) = {}"
    "\<forall>x \<in> set bs'. view s (c_fresh x) = None \<and> fits_job fits (call_job (Some gid') now' x) \<and>
       map_of reg (t_name (c_task x)) \<noteq> None"
  shows "\<exists>hs g1 s0 rx r ry s1 ks k1 s2 rb s3 s4 h s5 g3 s6 k2 s7 s8 s9 hx gx s10 hy gy s11.
    spawn_all S B now None (xs @ c # ys) (group_enter clk g0) s = (Inr hs, None, g1, s0) \<and>
    claim_all B (length (xs @ c # ys)) s0 = (rx @ r # ry, s1) \<and> length rx = length xs \<and> length ry = length ys \<and>
    spawn_all S B now' (Some ctx) bs (group_enter clk' k0) s1 =
      (Inr ks, Some (ctx\<lparr>ctx_spawns := ctx_spawns ctx + int (length bs)\<rparr>), k1, s2) \<and>
    claim_all B (length bs) s2 = (rb, s3) \<and> length rb = length bs \<and>
    worker_serve S B reg r (Ends (JobDone (Inl e))) s3 = (Continue, s4) \<and>
    run_waiters S B (length xs) [hs ! length xs] g1 s4 = ([h], waiter_done (length xs) (Inl err) g1, s5) \<and>
    run_fanout B (run_callback (waiter_done (length xs) (Inl err) g1)) s5 = (g3, s6) \<and>
    (\<forall>x \<in> set (xs @ ys). b_wait_cancel B (c_fresh x) s6 = Ready (Inr ())) \<and>
    group_exit B (Some CancelledError) JoinOn k1 s6 = (ExitRaises CancelledError, k2, s7) \<and> still_running k2 = [] \<and>
    (\<forall>b \<in> set bs'. b_wait_cancel B (c_fresh b) s7 = Ready (Inr ())) \<and>
    serve_all S B reg (map (\<lambda>r. (r, Ends (CancelSeen u))) rb) s7 = (replicate (length bs) Continue, s8) \<and>
    serve_all S B reg (map (\<lambda>r. (r, Ends (CancelSeen u))) (rx @ ry)) s8 = (replicate (length (xs @ ys)) Continue, s9) \<and>
    run_waiters S B 0 (take (length xs) hs) g3 s9 = (hx, gx, s10) \<and>
    run_waiters S B (Suc (length xs)) (drop (Suc (length xs)) hs) gx s10 = (hy, gy, s11) \<and>
    fst (group_exit B None JoinOn ((run_callback ^^ length (xs @ ys)) gy) s11) =
      ExitGroup (''one or more jobs in group '' @ gid @ '' failed'') [err] \<and>
    (\<forall>t. handle_status B h t = Inr FAILED) \<and>
    (\<forall>t. map (\<lambda>h. handle_status B h t) (hx @ hy) = map (\<lambda>x. Inr CANCELLED) (xs @ ys)) \<and>
    (\<forall>b \<in> set bs'. handle_status B (JobHandle_init (c_fresh b)) s11 = Inr CANCELLED) \<and>
    valid s11 \<and> waiting s11 = [] \<and> (\<forall>i. i \<notin> c_fresh ` set bs' \<longrightarrow> view s11 i = view s i)"
proof -
  let ?cs = "xs @ c # ys" and ?O = "c_fresh ` set (xs @ c # ys)" and ?I = "c_fresh ` set bs'"
  define hs where "hs = map (\<lambda>x. JobHandle_init (c_fresh x)) ?cs"
  define g1 where "g1 = fold group_register hs (group_enter clk g0)"
  define ks where "ks = map (\<lambda>x. JobHandle_init (c_fresh x)) bs'"
  define k1 where "k1 = fold group_register ks (group_enter clk' k0)"
  define g3 where "g3 = (run_callback (waiter_done (length xs) (Inl err) g1))\<lparr>g_fanned := True\<rparr>"
  obtain s0 rs s1 s2 rb s3 where A: "spawn_all S B now None ?cs (group_enter clk g0) s = (Inr hs, None, g1, s0)"
    "claim_all B (length ?cs) s0 = (rs, s1)"
    "spawn_all S B now' (Some ctx) bs (group_enter clk' k0) s1 =
      (Inr ks, Some (ctx\<lparr>ctx_spawns := ctx_spawns ctx + int (length bs)\<rparr>), k1, s2)"
    "claim_all B (length bs) s2 = (rb, s3)" "valid s3" "waiting s3 = []"
    "list_all2 (\<lambda>x r. held S fits reg (view s3) (running_call gid now x) r) ?cs rs"
    "list_all2 (\<lambda>x r. held S fits reg (view s3) (running_call gid' now' x) r) bs' rb"
    "\<forall>i. i \<notin> ?O \<longrightarrow> i \<notin> ?I \<longrightarrow> view s3 i = view s i"
    using nested_starts [OF assms(1-6,9-13) hs_def g1_def ks_def k1_def] by (elim exE conjE) (rule that)
  obtain rx r ry where rs: "rs = rx @ r # ry" "length rx = length xs" "length ry = length ys" using list_all2_pick [OF A(7)] by blast
  have lb: "length bs' = length bs" "length rb = length bs" using list_all2_lengthD [OF A(8)] by (simp_all add: assms(10))
  obtain s4 h s5 s6 k2 s7 s8 where U: "worker_serve S B reg r (Ends (JobDone (Inl e))) s3 = (Continue, s4)"
    "run_waiters S B (length xs) [JobHandle_init (c_fresh c)] g1 s4 = ([h], waiter_done (length xs) (Inl err) g1, s5)"
    "run_fanout B (run_callback (waiter_done (length xs) (Inl err) g1)) s5 = (g3, s6)"
    "\<forall>x \<in> set (xs @ ys). b_wait_cancel B (c_fresh x) s6 = Ready (Inr ())"
    "group_exit B (Some CancelledError) JoinOn k1 s6 = (ExitRaises CancelledError, k2, s7)" "still_running k2 = []"
    "\<forall>b \<in> set bs'. b_wait_cancel B (c_fresh b) s7 = Ready (Inr ())"
    "serve_all S B reg (map (\<lambda>r. (r, Ends (CancelSeen u))) rb) s7 = (replicate (length bs') Continue, s8)"
    "\<forall>t. handle_status B h t = Inr FAILED" "valid s8" "waiting s8 = waiting s3"
    "\<forall>x \<in> set (xs @ ys). view s8 (c_fresh x) = job_view S ((running_call gid now x)\<lparr>request_cancel := True\<rparr>)"
    "\<forall>b \<in> set bs'. view s8 (c_fresh b) = job_view S ((norm_job canon (running_call gid' now' b))\<lparr>status := CANCELLED\<rparr>)"
    "view s8 (c_fresh c) = None" "\<forall>i. i \<notin> ?O \<longrightarrow> i \<notin> ?I \<longrightarrow> view s8 i = view s3 i"
    using nested_unwinds [OF assms(1) A(5) assms(4,5) A(7) [unfolded rs(1)] rs(2,3) assms(7-9,11,12) A(8) g1_def [unfolded hs_def]
        k1_def [unfolded ks_def] g3_def, of u] by (elim exE conjE) (rule that)
  have w8: "waiting s8 = []" using U(11) A(6) by simp
  have ex: "is_Exception err" by (simp add: assms(8))
  obtain s9 hx gx s10 hy gy s11 where D:
    "serve_all S B reg (map (\<lambda>r. (r, Ends (CancelSeen u))) (rx @ ry)) s8 = (replicate (length (xs @ ys)) Continue, s9)"
    "run_waiters S B 0 (take (length xs) hs) g3 s9 = (hx, gx, s10)"
    "run_waiters S B (Suc (length xs)) (drop (Suc (length xs)) hs) gx s10 = (hy, gy, s11)"
    "fst (group_exit B None JoinOn ((run_callback ^^ length (xs @ ys)) gy) s11) =
      ExitGroup (''one or more jobs in group '' @ gid @ '' failed'') [err]"
    "\<forall>t. map (\<lambda>h. handle_status B h t) (hx @ hy) = map (\<lambda>x. Inr CANCELLED) (xs @ ys)" "valid s11" "waiting s11 = []"
    "view s11 = (\<lambda>i. if i \<in> c_fresh ` set (xs @ ys) then None else view s8 i)"
    using flagged_siblings_end [OF assms(1) U(10) w8 assms(4,5) A(7) [unfolded rs(1)] rs(2,3) ex U(12) hs_def g1_def g3_def, of u]
    by (elim exE conjE) (rule that)
  have left: "\<forall>b \<in> set bs'. handle_status B (JobHandle_init (c_fresh b)) s11 = Inr CANCELLED"
  proof
    fix b assume b: "b \<in> set bs'"
    then have "c_fresh b \<notin> c_fresh ` set (xs @ ys)" using assms(12) by auto
    then have v: "view s11 (c_fresh b) = job_view S ((norm_job canon (running_call gid' now' b))\<lparr>status := CANCELLED\<rparr>)"
      using U(13) b by (simp add: D(8))
    have "fits_job fits (running_call gid' now' b)"
      using assms(13) b by (simp add: fits_job_def running_call_def call_job_def Job_init_def)
    from cancelled_left [OF assms(1) D(6) this v] show "handle_status B (JobHandle_init (c_fresh b)) s11 = Inr CANCELLED" .
  qed
  have v11: "view s11 i = view s i" if "i \<notin> ?I" for i
  proof (cases "i \<in> ?O")
    case True
    then have "view s i = None" using assms(6) by auto
    with True show ?thesis using U(14) by (auto simp: D(8))
  qed (use that U(15) A(9) in \<open>auto simp: D(8)\<close>)
  then have vf: "\<forall>i. i \<notin> ?I \<longrightarrow> view s11 i = view s i" by blast
  have hc: "hs ! length xs = JobHandle_init (c_fresh c)" by (simp add: hs_def nth_append)
  show ?thesis
    by (rule exI [of _ hs], rule exI [of _ g1], rule exI [of _ s0], rule exI [of _ rx], rule exI [of _ r], rule exI [of _ ry],
        rule exI [of _ s1], rule exI [of _ ks], rule exI [of _ k1], rule exI [of _ s2], rule exI [of _ rb], rule exI [of _ s3],
        rule exI [of _ s4], rule exI [of _ h], rule exI [of _ s5], rule exI [of _ g3], rule exI [of _ s6], rule exI [of _ k2],
        rule exI [of _ s7], rule exI [of _ s8], rule exI [of _ s9], rule exI [of _ hx], rule exI [of _ gx], rule exI [of _ s10],
        rule exI [of _ hy], rule exI [of _ gy], rule exI [of _ s11])
      (intro conjI A(1) A(2) [unfolded rs(1)] rs(2,3) A(3,4) lb(2) U(1) U(2) [folded hc] U(3-7) U(8) [unfolded lb(1)] D(1-4)
        U(9) D(5) left D(6,7) vf)
qed

section \<open>Properties\<close>



text \<open>(C15) A failure reaches the jobs of its siblings. All jobs of a \<open>cancel_siblings\<close> scope run, the body of one of
  them has a scope of its own whose jobs run as well, and a sibling fails. The fan-out wakes the watchers of
  the siblings; the cancelled body leaves its scope, which flags its jobs and wakes their watchers in turn;
  every loop stops its job. The outer scope raises the one failure, every other job of both scopes ends
  as cancelled, and nothing is left in the store but the records of the inner jobs, which nobody collects.\<close>

theorem nested_fail_fast:
  assumes "client B valid view waiting S canon fits" "valid s" "waiting s = []"
    "JobGroup_init gid ''cancel_siblings'' deadline = Inr g0" "distinct (map c_fresh (xs @ c # ys))"
    "\<forall>x \<in> set (xs @ c # ys). view s (c_fresh x) = None \<and> fits_job fits (call_job (Some gid) now x) \<and>
       map_of reg (t_name (c_task x)) \<noteq> None"
    "is_Exception e" "err = RuntimeError (''job '' @ py_repr (c_fresh c) @ '' failed: '' @ py_str_exc e)"
    "p \<in> set (xs @ ys)" "ctx = JobContext_init (c_fresh p) (Some gid) (t_name (c_task p)) 1"
    "JobGroup_init gid' mode' deadline' = Inr k0" "bs' = named_calls ctx bs" "distinct (map c_fresh bs')"
    "c_fresh ` set bs' \<inter> c_fresh ` set (xs @ c # ys) = {}"
    "\<forall>x \<in> set bs'. view s (c_fresh x) = None \<and> fits_job fits (call_job (Some gid') now' x) \<and>
       map_of reg (t_name (c_task x)) \<noteq> None"
  shows "\<exists>hs g1 s0 rx r ry s1 ks k1 s2 rb s3 s4 h s5 g3 s6 k2 s7 s8 s9 hx gx s10 hy gy s11.
    spawn_all S B now None (xs @ c # ys) (group_enter clk g0) s = (Inr hs, None, g1, s0) \<and>
    claim_all B (length (xs @ c # ys)) s0 = (rx @ r # ry, s1) \<and> length rx = length xs \<and> length ry = length ys \<and>
    spawn_all S B now' (Some ctx) bs (group_enter clk' k0) s1 =
      (Inr ks, Some (ctx\<lparr>ctx_spawns := int (length bs)\<rparr>), k1, s2) \<and>
    claim_all B (length bs) s2 = (rb, s3) \<and> length rb = length bs \<and>
    worker_serve S B reg r (Ends (JobDone (Inl e))) s3 = (Continue, s4) \<and>
    run_waiters S B (length xs) [hs ! length xs] g1 s4 = ([h], waiter_done (length xs) (Inl err) g1, s5) \<and>
    run_fanout B (run_callback (waiter_done (length xs) (Inl err) g1)) s5 = (g3, s6) \<and>
    (\<forall>x \<in> set (xs @ ys). b_wait_cancel B (c_fresh x) s6 = Ready (Inr ())) \<and>
    group_exit B (Some CancelledError) JoinOn k1 s6 = (ExitRaises CancelledError, k2, s7) \<and> still_running k2 = [] \<and>
    (\<forall>b \<in> set bs'. b_wait_cancel B (c_fresh b) s7 = Ready (Inr ())) \<and>
    serve_all S B reg (map (\<lambda>r. (r, Ends (CancelSeen u))) rb) s7 = (replicate (length bs) Continue, s8) \<and>
    serve_all S B reg (map (\<lambda>r. (r, Ends (CancelSeen u))) (rx @ ry)) s8 = (replicate (length (xs @ ys)) Continue, s9) \<and>
    run_waiters S B 0 (take (length xs) hs) g3 s9 = (hx, gx, s10) \<and>
    run_waiters S B (Suc (length xs)) (drop (Suc (length xs)) hs) gx s10 = (hy, gy, s11) \<and>
    fst (group_exit B None JoinOn ((run_callback ^^ length (xs @ ys)) gy) s11) =
      ExitGroup (''one or more jobs in group '' @ gid @ '' failed'') [err] \<and>
    (\<forall>t. handle_status B h t = Inr FAILED) \<and>
    (\<forall>t. map (\<lambda>h. handle_status B h t) (hx @ hy) = map (\<lambda>x. Inr CANCELLED) (xs @ ys)) \<and>
    (\<forall>b \<in> set bs'. handle_status B (JobHandle_init (c_fresh b)) s11 = Inr CANCELLED) \<and>
    valid s11 \<and> waiting s11 = [] \<and> (\<forall>i. i \<notin> c_fresh ` set bs' \<longrightarrow> view s11 i = view s i)"
proof -
  have z: "ctx_spawns ctx = 0" by (simp add: assms(10) JobContext_init_def)
  show ?thesis using nested_failure_runs [where clk = clk and clk' = clk' and u = u, OF assms(1-8,11-15)] unfolding z by simp
qed

theorem nested_fail_fast_witness:
  "\<exists>hs g1 s0 r' r s1 ks k1 s2 b s3 s4 s6 k2 s7 s8 s9 gy s11.
    spawn_all JSONSerializer MemoryBackend demo_now None demo_calls demo_group mem_init = (Inr hs, None, g1, s0) \<and>
    claim_all MemoryBackend 2 s0 = ([r', r], s1) \<and>
    spawn_all JSONSerializer MemoryBackend demo_now (Some (JobContext_init ''f1'' (Some ''g'') ''m.f'' 1)) [hd demo_calls]
      (demo_group\<lparr>g_id := ''k''\<rparr>) s1 = (Inr ks, Some ((JobContext_init ''f1'' (Some ''g'') ''m.f'' 1)\<lparr>ctx_spawns := 1\<rparr>), k1, s2) \<and>
    claim_all MemoryBackend 1 s2 = ([b], s3) \<and>
    worker_serve JSONSerializer MemoryBackend demo_reg r (Ends (JobDone (Inl (RuntimeError ''boom'')))) s3 = (Continue, s4) \<and>
    group_exit MemoryBackend (Some CancelledError) JoinOn k1 s6 = (ExitRaises CancelledError, k2, s7) \<and>
    serve_all JSONSerializer MemoryBackend demo_reg [(b, Ends (CancelSeen True))] s7 = ([Continue], s8) \<and>
    serve_all JSONSerializer MemoryBackend demo_reg [(r', Ends (CancelSeen True))] s8 = ([Continue], s9) \<and>
    fst (group_exit MemoryBackend None JoinOn (run_callback gy) s11) =
      ExitGroup ''one or more jobs in group g failed'' [RuntimeError (''job '' @ py_repr ''f2'' @ '' failed: boom'')] \<and>
    mem_view s11 ''f1'' = None \<and> mem_view s11 ''f2'' = None"
proof -
  let ?g0 = "\<lambda>i. \<lparr>g_id = i, g_on_error = CANCEL_SIBLINGS, g_deadline = None, g_deadline_at = None, g_handles = [], g_waiters = [],
     g_failures = [], g_entered = False, g_cancelling = False, g_fanout = None, g_fanned = False, g_callbacks = []\<rparr>"
  let ?p = "hd demo_calls" and ?c = "demo_calls ! 1" and ?ctx = "JobContext_init ''f1'' (Some ''g'') ''m.f'' 1"
  define i where "i = take 32 (sha1_hex (utf8_encode (child_seed ''f1'' 0)))"
  let ?b = "?p\<lparr>c_fresh := i\<rparr>"
  have li: "length i = 32" by (simp add: i_def sha1_hex_shape)
  have ini: "JobGroup_init x ''cancel_siblings'' None = Inr (?g0 x)" for x by (simp add: JobGroup_init_def OnError_of_def)
  have w: "m_queue mem_init = []" by (simp add: mem_init_def)
  have cs: "[?p] @ ?c # [] = demo_calls" "c_fresh ?c = ''f2''" by (simp_all add: demo_calls_def)
  have d: "distinct (map c_fresh ([?p] @ ?c # []))" unfolding cs(1) by (simp add: demo_calls_def)
  have k: "map_of demo_reg (t_name (c_task x)) \<noteq> None" if "x \<in> set demo_calls" for x
    using that by (auto simp: demo_calls_def demo_reg_def)
  have f: "\<forall>x \<in> set ([?p] @ ?c # []). mem_view mem_init (c_fresh x) = None \<and> fits_job json_fits (call_job (Some ''g'') demo_now x) \<and>
      map_of demo_reg (t_name (c_task x)) \<noteq> None" unfolding cs(1) using demo_calls_fit k by blast
  have e: "is_Exception (RuntimeError ''boom'')" by simp
  have x: "?p \<in> set ([?p] @ [])" "?ctx = JobContext_init (c_fresh ?p) (Some ''g'') (t_name (c_task ?p)) 1"
    by (simp_all add: demo_calls_def demo_task_def)
  have b: "[?b] = named_calls ?ctx [?p]" by (simp add: child_id_def next_spawn_def JobContext_init_def i_def)
  have db: "distinct (map c_fresh [?b])" by simp
  have dj: "c_fresh ` set [?b] \<inter> c_fresh ` set ([?p] @ ?c # []) = {}" unfolding cs(1) using li by (auto simp: demo_calls_def)
  have bf: "\<forall>x \<in> set [?b]. mem_view mem_init (c_fresh x) = None \<and> fits_job json_fits (call_job (Some ''k'') demo_now x) \<and>
      map_of demo_reg (t_name (c_task x)) \<noteq> None"
    using demo_calls_fit [of "Some ''k''"] k [of ?p]
    by (simp add: demo_calls_def call_job_def Job_init_def fits_job_def mem_view_def mem_init_def)
  obtain hs g1 s0 rx r ry s1 ks k1 s2 rb s3 s4 s6 k2 s7 s8 s9 gy s11 where T:
    "spawn_all JSONSerializer MemoryBackend demo_now None ([?p] @ ?c # []) (group_enter 0 (?g0 ''g'')) mem_init = (Inr hs, None, g1, s0)"
    "claim_all MemoryBackend (length ([?p] @ ?c # [])) s0 = (rx @ r # ry, s1)" "length rx = length [?p]" "length ry = length ([] :: spawn_call list)"
    "spawn_all JSONSerializer MemoryBackend demo_now (Some ?ctx) [?p] (group_enter 0 (?g0 ''k'')) s1 =
      (Inr ks, Some (?ctx\<lparr>ctx_spawns := int (length [?p])\<rparr>), k1, s2)"
    "claim_all MemoryBackend (length [?p]) s2 = (rb, s3)" "length rb = length [?p]"
    "worker_serve JSONSerializer MemoryBackend demo_reg r (Ends (JobDone (Inl (RuntimeError ''boom'')))) s3 = (Continue, s4)"
    "group_exit MemoryBackend (Some CancelledError) JoinOn k1 s6 = (ExitRaises CancelledError, k2, s7)"
    "serve_all JSONSerializer MemoryBackend demo_reg (map (\<lambda>r. (r, Ends (CancelSeen True))) rb) s7 = (replicate (length [?p]) Continue, s8)"
    "serve_all JSONSerializer MemoryBackend demo_reg (map (\<lambda>r. (r, Ends (CancelSeen True))) (rx @ ry)) s8 =
      (replicate (length ([?p] @ [])) Continue, s9)"
    "fst (group_exit MemoryBackend None JoinOn ((run_callback ^^ length ([?p] @ [])) gy) s11) =
      ExitGroup (''one or more jobs in group '' @ ''g'' @ '' failed'') [RuntimeError (''job '' @ py_repr (c_fresh ?c) @ '' failed: '' @ py_str_exc (RuntimeError ''boom''))]"
    "\<forall>j. j \<notin> c_fresh ` set [?b] \<longrightarrow> mem_view s11 j = mem_view mem_init j"
    using nested_fail_fast [where clk = 0 and clk' = 0 and u = True, OF mem_client.client_axioms mem_inv_init w ini d f e refl x ini b db dj bf]
    by (elim exE conjE) (rule that)
  obtain r1 b1 where rs: "rx = [r1]" "ry = []" "rb = [b1]" using T(3,4,7) by (auto simp: length_Suc_conv)
  have g: "group_enter 0 (?g0 ''g'') = demo_group" "group_enter 0 (?g0 ''k'') = demo_group\<lparr>g_id := ''k''\<rparr>"
    by (simp_all add: demo_group_def group_enter_def)
  have 1: "claim_all MemoryBackend 2 s0 = ([r1, r], s1)" "claim_all MemoryBackend 1 s2 = ([b1], s3)"
    using T(2,6) unfolding rs by (simp_all add: numeral_2_eq_2)
  have 2: "spawn_all JSONSerializer MemoryBackend demo_now (Some ?ctx) [?p] (demo_group\<lparr>g_id := ''k''\<rparr>) s1 =
      (Inr ks, Some (?ctx\<lparr>ctx_spawns := 1\<rparr>), k1, s2)" using T(5) unfolding g by simp
  have 3: "serve_all JSONSerializer MemoryBackend demo_reg [(b1, Ends (CancelSeen True))] s7 = ([Continue], s8)"
    "serve_all JSONSerializer MemoryBackend demo_reg [(r1, Ends (CancelSeen True))] s8 = ([Continue], s9)"
    using T(10,11) unfolding rs by (simp_all del: serve_all.simps)
  have 4: "fst (group_exit MemoryBackend None JoinOn (run_callback gy) s11) =
      ExitGroup ''one or more jobs in group g failed'' [RuntimeError (''job '' @ py_repr ''f2'' @ '' failed: boom'')]"
    using T(12) unfolding cs(2) by simp
  have ne: "''f1'' \<noteq> i" "''f2'' \<noteq> i" using li by auto
  have 5: "mem_view s11 ''f1'' = None" "mem_view s11 ''f2'' = None"
    using spec [OF T(13), of "''f1''"] spec [OF T(13), of "''f2''"] ne by (simp_all add: mem_view_def mem_init_def)
  show ?thesis
    by (rule exI [of _ hs], rule exI [of _ g1], rule exI [of _ s0], rule exI [of _ r1], rule exI [of _ r], rule exI [of _ s1],
        rule exI [of _ ks], rule exI [of _ k1], rule exI [of _ s2], rule exI [of _ b1], rule exI [of _ s3], rule exI [of _ s4],
        rule exI [of _ s6], rule exI [of _ k2], rule exI [of _ s7], rule exI [of _ s8], rule exI [of _ s9], rule exI [of _ gy],
        rule exI [of _ s11])
      (intro conjI T(1) [unfolded g cs] 1 2 T(8,9) 3 4 5)
qed

end
