(* ===== verification/Checkout.thy ===== *)
theory Checkout
  imports Producers Storefront
begin

text \<open>
  \<open>nested_scopes_cancel_on_failure.py\<close>: a checkout of three checks, one of which is a producer itself, and
  the order that follows when all pass. Sleeping and the time stamp of a printed line are left out.
  Amounts are floats: that an amount exceeds \<open>CARD_LIMIT\<close> and how it is printed with two decimals are
  parameters, as is what a task does with arguments of other types. The body of \<open>check_inventory\<close> acts
  on the store, so it is given by its calls and its answer, and the registered function is a parameter.
  Also \<open>one_job_round_trip.py\<close>, the smallest program of the repository.
\<close>

section \<open>The tasks and the queue\<close>

definition STOCK :: "int pydict" where
  "STOCK = [(''New York City'', 4), (''Los Angeles'', 11), (''Chicago'', 2)]"

definition CONCURRENCY :: nat where "CONCURRENCY = 6"

definition check_warehouse :: "body \<Rightarrow> body" where
  "check_warehouse other as ks =
     (case (as, ks) of
        ([PStr item, PStr warehouse], []) \<Rightarrow>
          (case map_of STOCK warehouse of
             None \<Rightarrow> Ready (Inl (KeyError warehouse))
           | Some n \<Rightarrow> Ready (Inr (PInt n)))
      | _ \<Rightarrow> other as ks)"

definition validate_payment :: "(pyval \<Rightarrow> bool) \<Rightarrow> (pyval \<Rightarrow> string) \<Rightarrow> body \<Rightarrow> body" where
  "validate_payment over money other as ks =
     (case (as, ks) of
        ([amount], []) \<Rightarrow>
          if over amount then Ready (Inl (RuntimeError (''card declined: $'' @ money amount @ '' is over the limit'')))
          else Ready (Inr (PStr (''$'' @ money amount @ '' authorised'')))
      | _ \<Rightarrow> other as ks)"

definition calculate_shipping :: "body \<Rightarrow> body" where
  "calculate_shipping other as ks =
     (case (as, ks) of
        ([PStr address], []) \<Rightarrow> Ready (Inr (PStr (''shipping to '' @ address @ '': $9.99'')))
      | _ \<Rightarrow> other as ks)"

definition create_order :: "body \<Rightarrow> body" where
  "create_order other as ks =
     (case (as, ks) of
        ([PStr inventory, PStr payment, PStr shipping], []) \<Rightarrow>
          Ready (Inr (PStr (''ORDER-1234 ['' @ inventory @ '' | '' @ payment @ '' | '' @ shipping @ '']'')))
      | _ \<Rightarrow> other as ks)"

definition checkout_tasks :: "string \<Rightarrow> (pyval \<Rightarrow> bool) \<Rightarrow> (pyval \<Rightarrow> string) \<Rightarrow> body \<Rightarrow> body \<Rightarrow> registration list" where
  "checkout_tasks modname over money inventory other =
     map (\<lambda>(name, f). (None, 0, \<lparr>f_name = name, f_module = modname, f_call = f\<rparr>))
       [(''check_warehouse'', check_warehouse other), (''check_inventory'', inventory),
        (''validate_payment'', validate_payment over money other), (''calculate_shipping'', calculate_shipping other),
        (''create_order'', create_order other)]"

definition checkout_queue ::
  "'s redis \<Rightarrow> string \<Rightarrow> string \<Rightarrow> (pyval \<Rightarrow> bool) \<Rightarrow> (pyval \<Rightarrow> string) \<Rightarrow> body \<Rightarrow> body \<Rightarrow> 's queue_obj res" where
  "checkout_queue R fresh modname over money inventory other =
     rbind (RedisBackend_init fresh DEFAULT_RESULT_TTL_SECONDS DEFAULT_WORKER_TTL_SECONDS) (\<lambda>c.
       case register_all (checkout_tasks modname over money inventory other)
              (Queue_init (RedisBackend R c) (Some (worker_ttl c)) None (Some ''checkout'')) of
         (r, q) \<Rightarrow> rbind r (\<lambda>u. Inr q))"

section \<open>The body of \<open>check_inventory\<close>\<close>

definition inventory_calls :: "'s queue_obj \<Rightarrow> pyval \<Rightarrow> spawn_call list" where
  "inventory_calls q item = map (\<lambda>name. call q ''checkout.check_warehouse'' [item, PStr name] []) (map fst STOCK)"

text \<open>\<open>sum\<close> of counts; of values that are not all int it is a parameter.\<close>

fun total :: "(pyval list \<Rightarrow> int res) \<Rightarrow> pyval list \<Rightarrow> int \<Rightarrow> pyval list \<Rightarrow> int res" where
  "total other all n [] = Inr n"
| "total other all n (PInt m # vs) = total other all (n + m) vs"
| "total other all n (_ # vs) = other all"

definition inventory_answer :: "string \<Rightarrow> int \<Rightarrow> nat \<Rightarrow> string" where
  "inventory_answer item units n = item @ '': '' @ str_of_int units @ '' units across '' @ str_of_int (int n) @ '' warehouses''"

text \<open>After its scope: the counts are gathered, and the answer is built from them.\<close>

definition inventory_end ::
  "(pyval list \<Rightarrow> int res) \<Rightarrow> 's queue_obj \<Rightarrow> string \<Rightarrow> job_handle list \<Rightarrow> 's \<Rightarrow> string await \<times> 's" where
  "inventory_end other q item hs s =
     (case results (q_serializer q) (q_backend q) hs s of
        (Pending, hs', s') \<Rightarrow> (Pending, s')
      | (Ready (Inl e), hs', s') \<Rightarrow> (Ready (Inl e), s')
      | (Ready (Inr counts), hs', s') \<Rightarrow>
          (Ready (rbind (total other counts 0 counts) (\<lambda>units. Inr (inventory_answer item units (length hs)))), s'))"

section \<open>One checkout\<close>

definition checkout_calls :: "'s queue_obj \<Rightarrow> pyval \<Rightarrow> string list \<Rightarrow> spawn_call list" where
  "checkout_calls q amount freshs =
     map2 (\<lambda>(name, arg). call q name [arg])
       [(''checkout.check_inventory'', PStr ''Laptop''), (''checkout.validate_payment'', amount),
        (''checkout.calculate_shipping'', PStr ''Tel Aviv'')] freshs"

text \<open>All checks have passed: their results are the arguments of the order, spawned outside any scope.\<close>

definition order_start :: "'s queue_obj \<Rightarrow> string \<Rightarrow> string \<Rightarrow> datetime \<Rightarrow> job_handle list \<Rightarrow> 's \<Rightarrow> job_handle await \<times> 's" where
  "order_start q gid fresh now hs s =
     (case root_group gid ''cancel_siblings'' None q of
        Inl e \<Rightarrow> (Ready (Inl e), s)
      | Inr g \<Rightarrow>
          (case results (q_serializer q) (q_backend q) hs s of
             (Pending, hs', s') \<Rightarrow> (Pending, s')
           | (Ready (Inl e), hs', s') \<Rightarrow> (Ready (Inl e), s')
           | (Ready (Inr vs), hs', s') \<Rightarrow>
               (case group_spawn (q_serializer q) (q_backend q) (the_task q ''checkout.create_order'') fresh now None vs [] g s' of
                  (r, current, g', s'') \<Rightarrow> (Ready r, s''))))"

definition order_end :: "(pyval \<Rightarrow> string) \<Rightarrow> 's queue_obj \<Rightarrow> job_handle \<Rightarrow> 's \<Rightarrow> string await \<times> 's" where
  "order_end text q h s =
     (case handle_result (q_serializer q) (q_backend q) h s of
        (Pending, h', s') \<Rightarrow> (Pending, s')
      | (Ready (Inl e), h', s') \<Rightarrow> (Ready (Inl e), s')
      | (Ready (Inr v), h', s') \<Rightarrow> (Ready (Inr (''order created: '' @ text_of text v)), s'))"

text \<open>\<open>{name:<9}\<close>\<close>

definition ljust :: "nat \<Rightarrow> string \<Rightarrow> string" where
  "ljust n s = s @ replicate (n - length s) CHR '' ''"

fun handle_lines :: "'s queue_obj \<Rightarrow> (string \<times> job_handle) list \<Rightarrow> 's \<Rightarrow> string list res" where
  "handle_lines q [] s = Inr []"
| "handle_lines q ((name, h) # hs) s =
     rbind (handle_status (q_backend q) h s) (\<lambda>st.
       rbind (handle_lines q hs s) (\<lambda>ls. Inr ((''  '' @ ljust 9 name @ '' -> '' @ status_value st) # ls)))"

text \<open>\<open>except* RuntimeError as failures\<close>: nothing is printed when no failure is caught.\<close>

definition checkout_failed :: "'s queue_obj \<Rightarrow> exit_result \<Rightarrow> (string \<times> job_handle) list \<Rightarrow> 's \<Rightarrow> string list res" where
  "checkout_failed q r handles s =
     (case caught r of
        [] \<Rightarrow> Inr []
      | es \<Rightarrow> rbind (handle_lines q handles s) (\<lambda>ls.
          Inr (map (\<lambda>e. ''checkout failed: '' @ py_str_exc e) es @ ls @ [''no order was created, and nothing was left running''])))"

section \<open>The smallest program\<close>

definition add_stock :: "body \<Rightarrow> body" where
  "add_stock other as ks =
     (case (as, ks) of
        ([PInt on_hand, PInt incoming], []) \<Rightarrow> Ready (Inr (PInt (on_hand + incoming)))
      | _ \<Rightarrow> other as ks)"

definition stockroom :: "'s backend \<Rightarrow> string \<Rightarrow> body \<Rightarrow> unit res \<times> 's queue_obj" where
  "stockroom B modname other =
     register_all [(None, 0, \<lparr>f_name = ''units_in_stock'', f_module = modname, f_call = add_stock other\<rparr>)]
       (Queue_init B None None (Some ''stockroom''))"

definition one_job :: "'s queue_obj \<Rightarrow> string \<Rightarrow> string \<Rightarrow> datetime \<Rightarrow> 's \<Rightarrow> job_handle res \<times> 's" where
  "one_job q gid fresh now s =
     (case root_group gid ''cancel_siblings'' None q of
        Inl e \<Rightarrow> (Inl e, s)
      | Inr g \<Rightarrow>
          (case group_spawn (q_serializer q) (q_backend q) (the_task q ''stockroom.units_in_stock'') fresh now None
                  [PInt 4, PInt 11] [] g s of
             (r, current, g', s') \<Rightarrow> (r, s')))"

definition one_job_printed :: "(pyval \<Rightarrow> string) \<Rightarrow> 's queue_obj \<Rightarrow> job_handle \<Rightarrow> 's \<Rightarrow> string await \<times> 's" where
  "one_job_printed text q h s =
     (case handle_result (q_serializer q) (q_backend q) h s of
        (Pending, h', s') \<Rightarrow> (Pending, s')
      | (Ready (Inl e), h', s') \<Rightarrow> (Ready (Inl e), s')
      | (Ready (Inr v), h', s') \<Rightarrow> (Ready (Inr (text_of text v)), s'))"

section \<open>The registry\<close>

lemma checkout_registry:
  assumes "checkout_queue R fresh modname over money inventory other = Inr q"
  shows "\<exists>c. RedisBackend_init fresh DEFAULT_RESULT_TTL_SECONDS DEFAULT_WORKER_TTL_SECONDS = Inr c \<and> q_backend q = RedisBackend R c"
    "q_serializer q = JSONSerializer"
    "map fst (q_task_registry q) = [''checkout.check_warehouse'', ''checkout.check_inventory'', ''checkout.validate_payment'',
       ''checkout.calculate_shipping'', ''checkout.create_order'']"
    "the_task q ''checkout.check_warehouse'' = \<lparr>t_func = check_warehouse other, t_name = ''checkout.check_warehouse'', t_max_retries = 0\<rparr>"
    "the_task q ''checkout.check_inventory'' = \<lparr>t_func = inventory, t_name = ''checkout.check_inventory'', t_max_retries = 0\<rparr>"
    "the_task q ''checkout.validate_payment'' = \<lparr>t_func = validate_payment over money other, t_name = ''checkout.validate_payment'', t_max_retries = 0\<rparr>"
    "the_task q ''checkout.calculate_shipping'' = \<lparr>t_func = calculate_shipping other, t_name = ''checkout.calculate_shipping'', t_max_retries = 0\<rparr>"
    "the_task q ''checkout.create_order'' = \<lparr>t_func = create_order other, t_name = ''checkout.create_order'', t_max_retries = 0\<rparr>"
proof -
  let ?tasks = "checkout_tasks modname over money inventory other"
  obtain c where c: "RedisBackend_init fresh DEFAULT_RESULT_TTL_SECONDS DEFAULT_WORKER_TTL_SECONDS = Inr c"
    and q: "register_all ?tasks (Queue_init (RedisBackend R c) (Some (worker_ttl c)) None (Some ''checkout'')) = (Inr (), q)"
    using assms unfolding checkout_queue_def rbind_Inr_iff
    by (cases "RedisBackend_init fresh DEFAULT_RESULT_TTL_SECONDS DEFAULT_WORKER_TTL_SECONDS")
      (auto simp: rbind_Inr_iff case_prod_beta prod_eq_iff)
  let ?f = "\<lambda>n f. (n, \<lparr>t_func = f, t_name = n, t_max_retries = 0\<rparr>)"
  have reg: "q_task_registry q = [?f ''checkout.check_warehouse'' (check_warehouse other), ?f ''checkout.check_inventory'' inventory,
      ?f ''checkout.validate_payment'' (validate_payment over money other), ?f ''checkout.calculate_shipping'' (calculate_shipping other),
      ?f ''checkout.create_order'' (create_order other)] \<and> q_backend q = RedisBackend R c \<and> q_serializer q = JSONSerializer"
    using q by (auto simp: checkout_tasks_def queue_task_def derive_name_def Queue_init_def Let_def)
  show "\<exists>c. RedisBackend_init fresh DEFAULT_RESULT_TTL_SECONDS DEFAULT_WORKER_TTL_SECONDS = Inr c \<and> q_backend q = RedisBackend R c"
    using c reg by blast
  show "q_serializer q = JSONSerializer" using reg by blast
  show "map fst (q_task_registry q) = [''checkout.check_warehouse'', ''checkout.check_inventory'', ''checkout.validate_payment'',
       ''checkout.calculate_shipping'', ''checkout.create_order'']" using conjunct1 [OF reg] by simp
  show "the_task q ''checkout.check_warehouse'' = \<lparr>t_func = check_warehouse other, t_name = ''checkout.check_warehouse'', t_max_retries = 0\<rparr>"
    "the_task q ''checkout.check_inventory'' = \<lparr>t_func = inventory, t_name = ''checkout.check_inventory'', t_max_retries = 0\<rparr>"
    "the_task q ''checkout.validate_payment'' = \<lparr>t_func = validate_payment over money other, t_name = ''checkout.validate_payment'', t_max_retries = 0\<rparr>"
    "the_task q ''checkout.calculate_shipping'' = \<lparr>t_func = calculate_shipping other, t_name = ''checkout.calculate_shipping'', t_max_retries = 0\<rparr>"
    "the_task q ''checkout.create_order'' = \<lparr>t_func = create_order other, t_name = ''checkout.create_order'', t_max_retries = 0\<rparr>"
    unfolding the_task_def conjunct1 [OF reg] by simp_all
qed

lemma checkout_client:
  assumes "redis_server R" "checkout_queue R fresh modname over money inventory other = Inr q"
  shows "client (q_backend q) (rb_valid R) (rb_records R) (rb_waiting R) JSONSerializer json_norm json_fits"
proof -
  obtain c where c: "RedisBackend_init fresh DEFAULT_RESULT_TTL_SECONDS DEFAULT_WORKER_TTL_SECONDS = Inr c" "q_backend q = RedisBackend R c"
    using checkout_registry(1) [OF assms(2)] by (elim exE conjE) (rule that)
  have "0 < result_ttl c" using c(1) by (auto simp: RedisBackend_init_def split: if_splits)
  then have "redis_backend R c" using assms(1) by (simp add: redis_backend_def redis_backend_axioms_def)
  then have "redis_client R c JSONSerializer json_norm json_fits" using json.codec_axioms by (simp add: redis_client_def)
  then show ?thesis unfolding c(2) by (rule redis_client.meets_client)
qed

lemma checkout_known:
  assumes "checkout_queue R fresh modname over money inventory other = Inr q"
    "name \<in> {''checkout.check_warehouse'', ''checkout.check_inventory'', ''checkout.validate_payment'', ''checkout.calculate_shipping'',
       ''checkout.create_order''}"
  shows "t_name (the_task q name) = name" "map_of (q_task_registry q) name \<noteq> None"
proof -
  note R = checkout_registry [OF assms(1)]
  show "t_name (the_task q name) = name" using assms(2) by (elim insertE emptyE) (simp_all add: R(4-8))
  have "name \<in> set (map fst (q_task_registry q))" unfolding R(3) using assms(2) by simp
  then show "map_of (q_task_registry q) name \<noteq> None" by (simp add: map_of_eq_None_iff)
qed

lemma named_same: "x \<in> set (named_calls ctx cs) \<Longrightarrow> \<exists>c i. c \<in> set cs \<and> x = c\<lparr>c_fresh := i\<rparr>"
proof (induction cs arbitrary: ctx)
  case (Cons c cs)
  then show ?case by (auto simp: child_id_def next_spawn_def Let_def) blast
qed simp

text \<open>A call of one of the program's tasks with arguments that JSON represents can be spawned.\<close>

lemma checkout_call_fits:
  assumes "checkout_queue R fresh modname over money inventory other = Inr q" "valid_datetime now"
    "name \<in> {''checkout.check_warehouse'', ''checkout.check_inventory'', ''checkout.validate_payment'', ''checkout.calculate_shipping'',
       ''checkout.create_order''}" "\<forall>v \<in> set as. json_fits v"
  shows "fits_job json_fits (call_job gid now ((call q name as f)\<lparr>c_fresh := i\<rparr>))"
    "map_of (q_task_registry q) (t_name (c_task ((call q name as f)\<lparr>c_fresh := i\<rparr>))) \<noteq> None"
  using assms(2,4) checkout_known [OF assms(1,3)]
  by (simp_all add: fits_job_def call_job_def call_def Job_init_def is_dict_def)

section \<open>The two runs\<close>

text \<open>What the jobs of one checkout need: fresh ids for the three checks and for the warehouse jobs that the inventory check spawns.\<close>

definition checkout_ready :: "(string \<Rightarrow> rec_view option) \<Rightarrow> datetime \<Rightarrow> string list \<Rightarrow> spawn_call list \<Rightarrow> bool" where
  "checkout_ready v now freshs inner \<longleftrightarrow> distinct freshs \<and> (\<forall>i \<in> set freshs. v i = None) \<and> valid_datetime now \<and>
     distinct (map c_fresh inner) \<and> (\<forall>x \<in> set inner. c_fresh x \<notin> set freshs \<and> v (c_fresh x) = None)"

lemma checkout_scope_ready:
  assumes "checkout_queue R fresh modname over money inventory other = Inr q" "json_fits amount"
    "bs = inventory_calls q (PStr item)" "bs' = named_calls ctx bs" "checkout_ready v now [a, b, c] bs'"
    "ci = call q ''checkout.check_inventory'' [PStr ''Laptop''] a" "cp = call q ''checkout.validate_payment'' [amount] b"
    "cs = call q ''checkout.calculate_shipping'' [PStr ''Tel Aviv''] c"
  shows "checkout_calls q amount [a, b, c] = [ci, cp, cs]" "distinct (map c_fresh [ci, cp, cs])"
    "\<forall>x \<in> set [ci, cp, cs]. v (c_fresh x) = None \<and> fits_job json_fits (call_job gid now x) \<and> map_of (q_task_registry q) (t_name (c_task x)) \<noteq> None"
    "distinct (map c_fresh bs')" "c_fresh ` set bs' \<inter> c_fresh ` set [ci, cp, cs] = {}"
    "\<forall>x \<in> set bs'. v (c_fresh x) = None \<and> fits_job json_fits (call_job gid' now x) \<and> map_of (q_task_registry q) (t_name (c_task x)) \<noteq> None"
    "map c_fresh [ci, cp, cs] = [a, b, c]"
proof -
  have vd: "valid_datetime now" using assms(5) by (simp add: checkout_ready_def)
  show "checkout_calls q amount [a, b, c] = [ci, cp, cs]" by (simp add: checkout_calls_def assms(6-8))
  show ids: "map c_fresh [ci, cp, cs] = [a, b, c]" by (simp add: assms(6-8) call_def)
  show "distinct (map c_fresh [ci, cp, cs])" unfolding ids using assms(5) by (simp add: checkout_ready_def)
  have o: "fits_job json_fits (call_job gid now (call q n [w] f))" "map_of (q_task_registry q) (t_name (c_task (call q n [w] f))) \<noteq> None"
    if "n \<in> {''checkout.check_inventory'', ''checkout.validate_payment'', ''checkout.calculate_shipping''}" "json_fits w" for n w f
  proof -
    have n: "n \<in> {''checkout.check_warehouse'', ''checkout.check_inventory'', ''checkout.validate_payment'', ''checkout.calculate_shipping'',
       ''checkout.create_order''}"
      using that(1) by (elim insertE emptyE) simp_all
    have w: "\<forall>v \<in> set [w]. json_fits v" using that(2) by simp
    have e: "(call q n [w] f)\<lparr>c_fresh := f\<rparr> = call q n [w] f" by (simp add: call_def)
    note k = checkout_call_fits [OF assms(1) vd n w]
    show "fits_job json_fits (call_job gid now (call q n [w] f))" by (rule k(1) [of gid f f, unfolded e])
    show "map_of (q_task_registry q) (t_name (c_task (call q n [w] f))) \<noteq> None" by (rule k(2) [of f f, unfolded e])
  qed
  have f: "c_fresh ci = a" "c_fresh cp = b" "c_fresh cs = c" using ids by simp_all
  have n: "v a = None" "v b = None" "v c = None" using assms(5) by (simp_all add: checkout_ready_def)
  have j: "json_fits (PStr w)" for w by simp
  note oi = o [OF insertI1 j] and op = o [OF insertI2 [OF insertI1] assms(2)] and os = o [OF insertI2 [OF insertI2 [OF insertI1]] j]
  note k = oi [of "''Laptop''" a, folded assms(6)] op [of b, folded assms(7)] os [of "''Tel Aviv''" c, folded assms(8)]
  show "\<forall>x \<in> set [ci, cp, cs]. v (c_fresh x) = None \<and> fits_job json_fits (call_job gid now x) \<and> map_of (q_task_registry q) (t_name (c_task x)) \<noteq> None"
    unfolding ball_simps list.set f by (intro conjI n k TrueI)
  show "distinct (map c_fresh bs')" using assms(5) by (simp add: checkout_ready_def)
  show "c_fresh ` set bs' \<inter> c_fresh ` set [ci, cp, cs] = {}"
    using assms(5) unfolding set_map [symmetric] ids by (auto simp: checkout_ready_def)
  show "\<forall>x \<in> set bs'. v (c_fresh x) = None \<and> fits_job json_fits (call_job gid' now x) \<and> map_of (q_task_registry q) (t_name (c_task x)) \<noteq> None"
  proof
    fix x assume x: "x \<in> set bs'"
    obtain d i where d: "d \<in> set bs" "x = d\<lparr>c_fresh := i\<rparr>" using named_same x unfolding assms(4) by blast
    obtain w where "d = call q ''checkout.check_warehouse'' [PStr item, PStr w] []" using d(1) by (auto simp: assms(3) inventory_calls_def)
    then have e: "x = (call q ''checkout.check_warehouse'' [PStr item, PStr w] [])\<lparr>c_fresh := i\<rparr>" using d(2) by simp
    have n: "''checkout.check_warehouse'' \<in> {''checkout.check_warehouse'', ''checkout.check_inventory'', ''checkout.validate_payment'',
       ''checkout.calculate_shipping'', ''checkout.create_order''}" and w: "\<forall>v \<in> set [PStr item, PStr w]. json_fits v" by simp_all
    have "v (c_fresh x) = None" using assms(5) x by (simp add: checkout_ready_def)
    then show "v (c_fresh x) = None \<and> fits_job json_fits (call_job gid' now x) \<and> map_of (q_task_registry q) (t_name (c_task x)) \<noteq> None"
      using checkout_call_fits [OF assms(1) vd n w] unfolding e by blast
  qed
qed

text \<open>Run 2, with the six loops of the pool: the three checks run, and the inventory check has its three warehouse
  jobs running, when the card is declined. The scope raises that failure alone; the warehouse jobs are
  stopped with the check that spawned them; the lines name the failure and what became of each check.\<close>

lemma checkout_declined:
  assumes "redis_server R" "checkout_queue R fresh modname over money inventory other = Inr q" "rb_valid R s" "rb_waiting R s = []"
    "json_fits amount" "over amount" "ctx = JobContext_init a (Some gid) ''checkout.check_inventory'' 1"
    "bs = inventory_calls q (PStr ''Laptop'')" "checkout_ready (rb_records R s) now [a, b, c] (named_calls ctx bs)"
    "B = q_backend q" "reg = q_task_registry q" "queue_group gid' ''cancel_siblings'' None q = Inr k0"
  shows "\<exists>hs g1 s0 ri rp rs s1 ks k1 s2 rb s3 s4 h g1' s5 g3 s6 k2 s7 s8 s9 hi gx s10 hc gy s11.
    open_scope q ''cancel_siblings'' None clk gid (checkout_calls q amount [a, b, c]) now s = (Inr (hs, g1), s0) \<and>
    claim_all B 3 s0 = ([ri, rp, rs], s1) \<and>
    spawn_all JSONSerializer B now (Some ctx) bs (group_enter clk' k0) s1 =
      (Inr ks, Some (ctx\<lparr>ctx_spawns := 3\<rparr>), k1, s2) \<and>
    claim_all B 3 s2 = (rb, s3) \<and> length rb = 3 \<and>
    worker_serve JSONSerializer B reg rp (own_race (call q ''checkout.validate_payment'' [amount] b)) s3 = (Continue, s4) \<and>
    run_waiters JSONSerializer B 1 [hs ! 1] g1 s4 = ([h], g1', s5) \<and> run_fanout B (run_callback g1') s5 = (g3, s6) \<and>
    group_exit B (Some CancelledError) JoinOn k1 s6 = (ExitRaises CancelledError, k2, s7) \<and>
    serve_all JSONSerializer B reg (map (\<lambda>r. (r, Ends (CancelSeen u))) rb) s7 = ([Continue, Continue, Continue], s8) \<and>
    serve_all JSONSerializer B reg (map (\<lambda>r. (r, Ends (CancelSeen u))) [ri, rs]) s8 = ([Continue, Continue], s9) \<and>
    run_waiters JSONSerializer B 0 [hs ! 0] g3 s9 = ([hi], gx, s10) \<and>
    run_waiters JSONSerializer B 2 [hs ! 2] gx s10 = ([hc], gy, s11) \<and>
    (\<forall>x \<in> set (named_calls ctx bs). handle_status B (JobHandle_init (c_fresh x)) s11 = Inr CANCELLED) \<and> rb_waiting R s11 = [] \<and>
    (let verdict = fst (group_exit B None JoinOn ((run_callback ^^ 2) gy) s11)
     in \<not> escapes verdict \<and>
       (\<forall>t. checkout_failed q verdict [(''inventory'', hi), (''payment'', h), (''shipping'', hc)] t = Inr
         [''checkout failed: job '' @ py_repr b @ '' failed: card declined: $'' @ money amount @ '' is over the limit'',
          ''  inventory -> cancelled'', ''  payment   -> failed'', ''  shipping  -> cancelled'',
          ''no order was created, and nothing was left running'']))"
proof -
  note R = checkout_registry [OF assms(2)]
  let ?ci = "call q ''checkout.check_inventory'' [PStr ''Laptop''] a" and ?cp = "call q ''checkout.validate_payment'' [amount] b"
    and ?cs = "call q ''checkout.calculate_shipping'' [PStr ''Tel Aviv''] c"
  let ?e = "RuntimeError (''card declined: $'' @ money amount @ '' is over the limit'')"
  let ?err = "RuntimeError (''job '' @ py_repr (c_fresh ?cp) @ '' failed: '' @ py_str_exc ?e)"
  note Q = checkout_scope_ready [OF assms(2,5,8) refl assms(9) refl refl refl]
  have cl: "client B (rb_valid R) (rb_records R) (rb_waiting R) JSONSerializer json_norm json_fits"
    unfolding assms(10) by (rule checkout_client [OF assms(1,2)])
  obtain g0 where g0: "JobGroup_init gid ''cancel_siblings'' None = Inr g0" by (auto simp: JobGroup_init_def OnError_of_def)
  have k0: "JobGroup_init gid' ''cancel_siblings'' None = Inr k0" using assms(12) by (simp add: queue_group_def)
  have race: "own_race ?cp = Ends (JobDone (Inl ?e))"
    using assms(6) by (simp add: own_race_def call_def R(6) validate_payment_def)
  have cat: "[?ci] @ ?cp # [?cs] = [?ci, ?cp, ?cs]" by simp
  have x: "is_Exception ?e" by simp
  have d: "distinct (map c_fresh ([?ci] @ ?cp # [?cs]))" unfolding cat by (rule Q(2))
  have f: "\<forall>x \<in> set ([?ci] @ ?cp # [?cs]). rb_records R s (c_fresh x) = None \<and> fits_job json_fits (call_job (Some gid) now x) \<and>
      map_of reg (t_name (c_task x)) \<noteq> None" unfolding cat assms(11) by (rule Q(3))
  have dj: "c_fresh ` set (named_calls ctx bs) \<inter> c_fresh ` set ([?ci] @ ?cp # [?cs]) = {}" unfolding cat by (rule Q(5))
  have bf: "\<forall>x \<in> set (named_calls ctx bs). rb_records R s (c_fresh x) = None \<and> fits_job json_fits (call_job (Some gid') now x) \<and>
      map_of reg (t_name (c_task x)) \<noteq> None" unfolding assms(11) by (rule Q(6))
  obtain hs g1 s0 rx r ry s1 ks k1 s2 rb s3 s4 h s5 g3 s6 k2 s7 s8 s9 hx gx s10 hy gy s11 where T:
    "spawn_all JSONSerializer B now None ([?ci] @ ?cp # [?cs]) (group_enter clk g0) s = (Inr hs, None, g1, s0)"
    "claim_all B (length ([?ci] @ ?cp # [?cs])) s0 = (rx @ r # ry, s1)" "length rx = length [?ci]" "length ry = length [?cs]"
    "spawn_all JSONSerializer B now (Some ctx) bs (group_enter clk' k0) s1 =
      (Inr ks, Some (ctx\<lparr>ctx_spawns := ctx_spawns ctx + int (length bs)\<rparr>), k1, s2)"
    "claim_all B (length bs) s2 = (rb, s3)" "length rb = length bs"
    "worker_serve JSONSerializer B reg r (Ends (JobDone (Inl ?e))) s3 = (Continue, s4)"
    "run_waiters JSONSerializer B (length [?ci]) [hs ! length [?ci]] g1 s4 = ([h], waiter_done (length [?ci]) (Inl ?err) g1, s5)"
    "run_fanout B (run_callback (waiter_done (length [?ci]) (Inl ?err) g1)) s5 = (g3, s6)"
    "group_exit B (Some CancelledError) JoinOn k1 s6 = (ExitRaises CancelledError, k2, s7)"
    "serve_all JSONSerializer B reg (map (\<lambda>r. (r, Ends (CancelSeen u))) rb) s7 = (replicate (length bs) Continue, s8)"
    "serve_all JSONSerializer B reg (map (\<lambda>r. (r, Ends (CancelSeen u))) (rx @ ry)) s8 = (replicate (length ([?ci] @ [?cs])) Continue, s9)"
    "run_waiters JSONSerializer B 0 (take (length [?ci]) hs) g3 s9 = (hx, gx, s10)"
    "run_waiters JSONSerializer B (Suc (length [?ci])) (drop (Suc (length [?ci])) hs) gx s10 = (hy, gy, s11)"
    "fst (group_exit B None JoinOn ((run_callback ^^ length ([?ci] @ [?cs])) gy) s11) =
      ExitGroup (''one or more jobs in group '' @ gid @ '' failed'') [?err]"
    "\<forall>t. handle_status B h t = Inr FAILED"
    "\<forall>t. map (\<lambda>h. handle_status B h t) (hx @ hy) = map (\<lambda>x. Inr CANCELLED) ([?ci] @ [?cs])"
    "\<forall>b \<in> set (named_calls ctx bs). handle_status B (JobHandle_init (c_fresh b)) s11 = Inr CANCELLED" "rb_waiting R s11 = []"
    using nested_failure_runs [where clk = clk and clk' = clk' and u = u, OF cl assms(3,4) g0 d f x refl k0 refl Q(4) dj bf]
    by (elim exE conjE) (rule that)
  have lb: "length bs = 3" by (simp add: assms(8) inventory_calls_def STOCK_def)
  have ids: "map h_job_id hs = [a, b, c]" using spawn_all_ids [OF T(1)] Q(7) by simp
  obtain h0 h1 h2 where hs: "hs = [h0, h1, h2]" using ids by (auto simp: map_eq_Cons_conv)
  obtain ri rs where rr: "rx = [ri]" "ry = [rs]" using T(3,4) by (auto simp: length_Suc_conv)
  have tk: "take (length [?ci]) hs = [hs ! 0]" "drop (Suc (length [?ci])) hs = [hs ! 2]" by (simp_all add: hs)
  have ln: "length hx = 1" "length hy = 1"
    using run_waiters_ids [OF T(14)] run_waiters_ids [OF T(15)] unfolding tk by (auto simp: map_eq_Cons_conv)
  then obtain hi hc where hh: "hx = [hi]" "hy = [hc]" by (auto simp: length_Suc_conv)
  have z: "ctx_spawns ctx = 0" by (simp add: assms(7) JobContext_init_def)
  have bp: "c_fresh ?cp = b" by (simp add: call_def)
  let ?g1 = "waiter_done 1 (Inl ?err) g1"
  have sc: "open_scope q ''cancel_siblings'' None clk gid (checkout_calls q amount [a, b, c]) now s = (Inr (hs, g1), s0)"
    using T(1) unfolding Q(1) cat by (simp add: open_scope_def queue_group_def g0 R(2) assms(10))
  have c3: "claim_all B 3 s0 = ([ri, r, rs], s1)" using T(2) by (simp add: rr numeral_eq_Suc)
  have sp: "spawn_all JSONSerializer B now (Some ctx) bs (group_enter clk' k0) s1 = (Inr ks, Some (ctx\<lparr>ctx_spawns := 3\<rparr>), k1, s2)"
    using T(5) unfolding z lb by simp
  have ws: "worker_serve JSONSerializer B reg r (own_race ?cp) s3 = (Continue, s4)" unfolding race by (rule T(8))
  have rw: "run_waiters JSONSerializer B 1 [hs ! 1] g1 s4 = ([h], ?g1, s5)" using T(9) by (simp del: run_waiters.simps)
  have rf: "run_fanout B (run_callback ?g1) s5 = (g3, s6)" using T(10) by simp
  have s8: "serve_all JSONSerializer B reg (map (\<lambda>r. (r, Ends (CancelSeen u))) rb) s7 = ([Continue, Continue, Continue], s8)"
    using T(12) unfolding lb by (simp add: numeral_eq_Suc)
  have s9: "serve_all JSONSerializer B reg (map (\<lambda>r. (r, Ends (CancelSeen u))) [ri, rs]) s8 = ([Continue, Continue], s9)"
    using T(13) by (simp add: rr del: serve_all.simps)
  have wi: "run_waiters JSONSerializer B 0 [hs ! 0] g3 s9 = ([hi], gx, s10)" using T(14) unfolding tk hh .
  have wc: "run_waiters JSONSerializer B 2 [hs ! 2] gx s10 = ([hc], gy, s11)"
    using T(15) unfolding tk hh by (simp add: numeral_2_eq_2 del: run_waiters.simps)
  have ex: "fst (group_exit B None JoinOn ((run_callback ^^ 2) gy) s11) = ExitGroup (''one or more jobs in group '' @ gid @ '' failed'') [?err]"
    using T(16) by (simp add: numeral_2_eq_2)
  have st: "handle_status (q_backend q) h t = Inr FAILED" "handle_status (q_backend q) hi t = Inr CANCELLED"
    "handle_status (q_backend q) hc t = Inr CANCELLED" for t
    using spec [OF T(17), of t] spec [OF T(18), of t] by (simp_all add: hh assms(10))
  have ca: "caught (ExitGroup m [?err]) = [?err]" "\<not> escapes (ExitGroup m [?err])" for m by (simp_all add: caught_def escapes_def)
  have lines: "checkout_failed q (ExitGroup m [?err]) [(''inventory'', hi), (''payment'', h), (''shipping'', hc)] t = Inr
      [''checkout failed: job '' @ py_repr b @ '' failed: card declined: $'' @ money amount @ '' is over the limit'',
       ''  inventory -> cancelled'', ''  payment   -> failed'', ''  shipping  -> cancelled'',
       ''no order was created, and nothing was left running'']" for m t
    unfolding checkout_failed_def ca unfolding bp by (simp add: st rbind_def ljust_def numeral_2_eq_2)
  have fin: "let verdict = fst (group_exit B None JoinOn ((run_callback ^^ 2) gy) s11)
     in \<not> escapes verdict \<and>
       (\<forall>t. checkout_failed q verdict [(''inventory'', hi), (''payment'', h), (''shipping'', hc)] t = Inr
         [''checkout failed: job '' @ py_repr b @ '' failed: card declined: $'' @ money amount @ '' is over the limit'',
          ''  inventory -> cancelled'', ''  payment   -> failed'', ''  shipping  -> cancelled'',
          ''no order was created, and nothing was left running''])"
    unfolding ex Let_def using ca(2) lines by blast
  show ?thesis
    by (rule exI [of _ hs], rule exI [of _ g1], rule exI [of _ s0], rule exI [of _ ri], rule exI [of _ r], rule exI [of _ rs],
        rule exI [of _ s1], rule exI [of _ ks], rule exI [of _ k1], rule exI [of _ s2], rule exI [of _ rb], rule exI [of _ s3],
        rule exI [of _ s4], rule exI [of _ h], rule exI [of _ ?g1], rule exI [of _ s5], rule exI [of _ g3], rule exI [of _ s6],
        rule exI [of _ k2], rule exI [of _ s7], rule exI [of _ s8], rule exI [of _ s9], rule exI [of _ hi], rule exI [of _ gx],
        rule exI [of _ s10], rule exI [of _ hc], rule exI [of _ gy], rule exI [of _ s11])
      (intro conjI sc c3 sp T(6,7) [unfolded lb] ws rw rf T(11) s8 s9 wi wc T(19,20) fin)
qed

text \<open>Run 1: every check passes. The inventory check gathers the counts of its warehouse jobs while the others are
  served, the scope ends normally, and the order is built from the three results; afterwards the store is as before.\<close>

lemma warehouse_outcomes:
  assumes "checkout_queue R fresh modname over money inventory other = Inr q" "bs = inventory_calls q (PStr ''Laptop'')"
    "bs' = named_calls ctx bs"
  shows "map own_race bs' = map (\<lambda>n. Ends (JobDone (Inr (PInt n)))) [4, 11, 2]"
    "map2 (call_outcome JSONSerializer json_norm (q_task_registry q)) bs' (map own_race bs') = map Inr [PInt 4, PInt 11, PInt 2]"
proof -
  note R = checkout_registry [OF assms(1)]
  have n: "map_of STOCK ''New York City'' = Some 4" "map_of STOCK ''Los Angeles'' = Some 11" "map_of STOCK ''Chicago'' = Some 2"
    by (simp_all add: STOCK_def)
  have st: "map fst STOCK = [''New York City'', ''Los Angeles'', ''Chicago'']" by (simp add: STOCK_def)
  have k: "map_of (q_task_registry q) ''checkout.check_warehouse'' \<noteq> None" by (rule checkout_known(2) [OF assms(1)]) simp
  obtain f1 f2 f3 where b: "bs' = [(call q ''checkout.check_warehouse'' [PStr ''Laptop'', PStr ''New York City''] [])\<lparr>c_fresh := f1\<rparr>,
      (call q ''checkout.check_warehouse'' [PStr ''Laptop'', PStr ''Los Angeles''] [])\<lparr>c_fresh := f2\<rparr>,
      (call q ''checkout.check_warehouse'' [PStr ''Laptop'', PStr ''Chicago''] [])\<lparr>c_fresh := f3\<rparr>]"
    unfolding assms(2,3) inventory_calls_def st by (simp add: child_id_def next_spawn_def Let_def)
  show r: "map own_race bs' = map (\<lambda>n. Ends (JobDone (Inr (PInt n)))) [4, 11, 2]"
    unfolding b by (simp add: own_race_def call_def R(4) check_warehouse_def n)
  show "map2 (call_outcome JSONSerializer json_norm (q_task_registry q)) bs' (map own_race bs') = map Inr [PInt 4, PInt 11, PInt 2]"
    unfolding r unfolding b using k by (simp add: call_outcome_def call_def R(4) Let_def)
qed

lemma checkout_approved:
  assumes "redis_server R" "checkout_queue R fresh modname over money inventory other = Inr q" "rb_valid R s" "rb_waiting R s = []"
    "json_fits amount" "\<not> over amount" "ctx = JobContext_init a (Some gid) ''checkout.check_inventory'' 1"
    "bs = inventory_calls q (PStr ''Laptop'')" "checkout_ready (rb_records R s) now [a, b, c] (named_calls ctx bs)"
    "B = q_backend q" "reg = q_task_registry q" "queue_group gid' ''cancel_siblings'' None q = Inr k0" "rb_records R s d = None"
    "answer = ''Laptop: 17 units across 3 warehouses''" "paid = ''$'' @ money amount @ '' authorised''" "shipped = ''shipping to Tel Aviv: $9.99''"
  shows "\<exists>hs g1 s0 rs s1 ks k1 s2 s3 ks' k2 s4 s5 hs' g2 s6 h s7 s8 s9.
    open_scope q ''cancel_siblings'' None clk gid (checkout_calls q amount [a, b, c]) now s = (Inr (hs, g1), s0) \<and>
    claim_all B 3 s0 = (rs, s1) \<and> length rs = 3 \<and>
    spawn_all JSONSerializer B now (Some ctx) bs (group_enter clk' k0) s1 = (Inr ks, Some (ctx\<lparr>ctx_spawns := 3\<rparr>), k1, s2) \<and>
    worker_loop JSONSerializer B reg (map own_race (named_calls ctx bs)) s2 = (Continue, s3) \<and>
    run_waiters JSONSerializer B 0 ks k1 s3 = (ks', k2, s4) \<and> fst (group_exit B None JoinOn k2 s4) = ExitNormal \<and>
    inventory_end weigh q ''Laptop'' ks' s4 = (Ready (Inr answer), s4) \<and>
    serve_all JSONSerializer B reg (zip rs [Ends (JobDone (Inr (PStr answer))),
      own_race (call q ''checkout.validate_payment'' [amount] b), own_race (call q ''checkout.calculate_shipping'' [PStr ''Tel Aviv''] c)]) s4 =
      ([Continue, Continue, Continue], s5) \<and>
    run_waiters JSONSerializer B 0 hs g1 s5 = (hs', g2, s6) \<and> fst (group_exit B None JoinOn g2 s6) = ExitNormal \<and>
    order_start q gid'' d now hs' s6 = (Ready (Inr h), s7) \<and>
    worker_iteration JSONSerializer B reg (own_race (call q ''checkout.create_order'' [PStr answer, PStr paid, PStr shipped] d)) s7 = (Continue, s8) \<and>
    order_end text q h s8 =
      (Ready (Inr (''order created: ORDER-1234 ['' @ answer @ '' | '' @ paid @ '' | '' @ shipped @ '']'')), s9) \<and>
    rb_records R s9 = rb_records R s"
proof -
  note R = checkout_registry [OF assms(2)]
  let ?ci = "call q ''checkout.check_inventory'' [PStr ''Laptop''] a" and ?cp = "call q ''checkout.validate_payment'' [amount] b"
    and ?cs = "call q ''checkout.calculate_shipping'' [PStr ''Tel Aviv''] c"
    and ?co = "call q ''checkout.create_order'' [PStr answer, PStr paid, PStr shipped] d"
  let ?races = "[Ends (JobDone (Inr (PStr answer))), own_race ?cp, own_race ?cs]"
  let ?vs = "[PStr answer, PStr paid, PStr shipped]" and ?bs = "named_calls ctx bs"
  note Q = checkout_scope_ready [OF assms(2,5,8) refl assms(9) refl refl refl]
  note W = warehouse_outcomes [OF assms(2,8) refl, of ctx]
  have cl: "client B (rb_valid R) (rb_records R) (rb_waiting R) JSONSerializer json_norm json_fits"
    unfolding assms(10) by (rule checkout_client [OF assms(1,2)])
  obtain g0 where g0: "JobGroup_init gid ''cancel_siblings'' None = Inr g0" by (auto simp: JobGroup_init_def OnError_of_def)
  have k0: "JobGroup_init gid' ''cancel_siblings'' None = Inr k0" using assms(12) by (simp add: queue_group_def)
  have race: "own_race ?cp = Ends (JobDone (Inr (PStr paid)))" "own_race ?cs = Ends (JobDone (Inr (PStr shipped)))"
    "own_race ?co = Ends (JobDone (Inr (PStr (''ORDER-1234 ['' @ answer @ '' | '' @ paid @ '' | '' @ shipped @ '']''))))"
    using assms(6) by (simp_all add: own_race_def call_def R(6-8) validate_payment_def calculate_shipping_def create_order_def assms(15,16))
  have d: "distinct (map c_fresh [?ci, ?cp, ?cs])" by (rule Q(2))
  have f: "\<forall>x \<in> set [?ci, ?cp, ?cs]. rb_records R s (c_fresh x) = None \<and> fits_job json_fits (call_job (Some gid) now x) \<and>
      map_of reg (t_name (c_task x)) \<noteq> None" unfolding assms(11) by (rule Q(3))
  have bf: "\<forall>x \<in> set ?bs. rb_records R s (c_fresh x) = None \<and> fits_job json_fits (call_job (Some gid') now x)" using Q(6) by blast
  have lb: "length bs = 3" by (simp add: assms(8) inventory_calls_def STOCK_def)
  have ne: "bs \<noteq> []" using lb by auto
  have st: "\<forall>race \<in> set ?races. settles json_fits race" "\<forall>race \<in> set (map own_race ?bs). settles json_fits race"
    unfolding race W(1) by (simp_all add: settles_def)
  have k: "map_of reg n \<noteq> None" "t_name (the_task q n) = n"
    if "n \<in> {''checkout.check_warehouse'', ''checkout.check_inventory'', ''checkout.validate_payment'', ''checkout.calculate_shipping'',
       ''checkout.create_order''}" for n using checkout_known [OF assms(2) that] by (simp_all add: assms(11))
  have kn: "map_of reg ''checkout.check_inventory'' \<noteq> None" "map_of reg ''checkout.validate_payment'' \<noteq> None"
    "map_of reg ''checkout.calculate_shipping'' \<noteq> None" "map_of reg ''checkout.create_order'' \<noteq> None"
    by (rule k(1), simp)+
  have o: "map Inr ?vs = map2 (call_outcome JSONSerializer json_norm reg) [?ci, ?cp, ?cs] ?races"
    unfolding race using kn by (simp add: call_outcome_def call_def R(5-7) Let_def)
  have o': "map Inr [PInt 4, PInt 11, PInt 2] = map2 (call_outcome JSONSerializer json_norm reg) ?bs (map own_race ?bs)"
    unfolding assms(11) by (rule W(2) [symmetric])
  have er: "''cancel_siblings'' = ''cancel_siblings'' \<longrightarrow> errors_of (map Inr ?vs) = []"
    "''cancel_siblings'' = ''cancel_siblings'' \<longrightarrow> errors_of (map Inr [PInt 4, PInt 11, PInt 2]) = []" by (simp_all add: errors_of_def)
  have ln: "[?ci, ?cp, ?cs] \<noteq> []" "length ?races = length [?ci, ?cp, ?cs]" "length (map own_race ?bs) = length ?bs" by simp_all
  obtain hs g1 s0 rs s1 ks k1 s2 s3 ks' k2 s4 s5 hs' g2 s6 where T:
    "spawn_all JSONSerializer B now None [?ci, ?cp, ?cs] (group_enter clk g0) s = (Inr hs, None, g1, s0)"
    "claim_all B (length [?ci, ?cp, ?cs]) s0 = (rs, s1)" "length rs = length [?ci, ?cp, ?cs]"
    "spawn_all JSONSerializer B now (Some ctx) bs (group_enter clk' k0) s1 =
      (Inr ks, Some (ctx\<lparr>ctx_spawns := ctx_spawns ctx + int (length bs)\<rparr>), k1, s2)"
    "worker_loop JSONSerializer B reg (map own_race ?bs) s2 = (Continue, s3)" "run_waiters JSONSerializer B 0 ks k1 s3 = (ks', k2, s4)"
    "fst (group_exit B None JoinOn k2 s4) = (if ''cancel_siblings'' = ''collect'' \<and> errors_of (map Inr [PInt 4, PInt 11, PInt 2]) \<noteq> []
       then ExitGroup (''one or more jobs in group '' @ gid' @ '' failed'') (errors_of (map Inr [PInt 4, PInt 11, PInt 2])) else ExitNormal)"
    "length ks' = length bs"
    "\<forall>t. map (\<lambda>h. handle_result JSONSerializer B h t) ks' = map2 (\<lambda>out h. (Ready out, h, t)) (map Inr [PInt 4, PInt 11, PInt 2]) ks'"
    "serve_all JSONSerializer B reg (zip rs ?races) s4 = (replicate (length [?ci, ?cp, ?cs]) Continue, s5)"
    "run_waiters JSONSerializer B 0 hs g1 s5 = (hs', g2, s6)"
    "fst (group_exit B None JoinOn g2 s6) = (if ''cancel_siblings'' = ''collect'' \<and> errors_of (map Inr ?vs) \<noteq> []
       then ExitGroup (''one or more jobs in group '' @ gid @ '' failed'') (errors_of (map Inr ?vs)) else ExitNormal)"
    "length hs' = length [?ci, ?cp, ?cs]"
    "\<forall>t. map (\<lambda>h. handle_result JSONSerializer B h t) hs' = map2 (\<lambda>out h. (Ready out, h, t)) (map Inr ?vs) hs'"
    "rb_valid R s6" "rb_waiting R s6 = []" "rb_records R s6 = rb_records R s"
    using nested_scope_runs [where clk = clk and clk' = clk', OF cl assms(3,4) g0 ln(1) d f ln(2) st(1) o er(1) k0 ne refl Q(4,5) bf ln(3)
        st(2) o' er(2)] by (elim exE conjE) (rule that)
  have z: "ctx_spawns ctx = 0" by (simp add: assms(7) JobContext_init_def)
  have sc: "open_scope q ''cancel_siblings'' None clk gid (checkout_calls q amount [a, b, c]) now s = (Inr (hs, g1), s0)"
    unfolding Q(1) using T(1) by (simp add: open_scope_def queue_group_def g0 R(2) assms(10))
  have c3: "claim_all B 3 s0 = (rs, s1)" "length rs = 3" using T(2,3) by (simp_all add: numeral_eq_Suc)
  have sp: "spawn_all JSONSerializer B now (Some ctx) bs (group_enter clk' k0) s1 = (Inr ks, Some (ctx\<lparr>ctx_spawns := 3\<rparr>), k1, s2)"
    using T(4) unfolding z lb by simp
  have ie: "fst (group_exit B None JoinOn k2 s4) = ExitNormal" "fst (group_exit B None JoinOn g2 s6) = ExitNormal"
    using T(7,12) by simp_all
  have "length ks' = length [PInt 4, PInt 11, PInt 2]" using T(8) lb by simp
  from results_kept [OF T(9) this, of s4]
  have "results (q_serializer q) (q_backend q) ks' s4 = (Ready (Inr [PInt 4, PInt 11, PInt 2]), ks', s4)" unfolding R(2) assms(10) .
  moreover have "str_of_int 17 = ''17''" "str_of_int 3 = ''3''" by code_simp+
  ultimately have inv: "inventory_end weigh q ''Laptop'' ks' s4 = (Ready (Inr answer), s4)"
    using T(8) lb by (simp add: inventory_end_def inventory_answer_def rbind_def assms(14))
  have s5: "serve_all JSONSerializer B reg (zip rs ?races) s4 = ([Continue, Continue, Continue], s5)"
    using T(10) by (simp only: list.size replicate_Suc replicate_0 add_0 add_0_right plus_nat.simps)
  have "length hs' = length ?vs" using T(13) by simp
  from results_kept [OF T(14) this, of s6]
  have rv: "results (q_serializer q) (q_backend q) hs' s6 = (Ready (Inr ?vs), hs', s6)" unfolding R(2) assms(10) .
  have vd: "valid_datetime now" using assms(9) by (simp add: checkout_ready_def)
  define j where "j = Job_init d now (t_name (the_task q ''checkout.create_order'')) None ?vs [] None"
  have jd: "jid j = d" by (simp add: j_def Job_init_def)
  have jf: "fits_job json_fits j" using vd by (simp add: j_def Job_init_def fits_job_def is_dict_def)
  have jn: "rb_records R s6 (jid j) = None" unfolding T(17) jd by (rule assms(13))
  have ko: "map_of reg (t_name (the_task q ''checkout.create_order'')) \<noteq> None" using kn(4) k(2) [of "''checkout.create_order''"] by simp
  let ?line = "''ORDER-1234 ['' @ answer @ '' | '' @ paid @ '' | '' @ shipped @ '']''"
  have fv: "json_fits (PStr ?line)" by simp
  obtain h s7 s8 h' s9 where O: "submit JSONSerializer B (the_task q ''checkout.create_order'') d now None None ?vs [] s6 = (Inr h, s7)"
    "worker_iteration JSONSerializer B reg (Ends (JobDone (Inr (PStr ?line)))) s7 = (Continue, s8)"
    "handle_result JSONSerializer B h s8 = (Ready (Inr (json_norm (PStr ?line))), h', s9)" "rb_records R s9 = rb_records R s6"
    using client.submit_serve_result [OF cl T(15,16) jn j_def jf ko fv] by (elim exE conjE) (rule that)
  obtain g where g: "JobGroup_init gid'' ''cancel_siblings'' None = Inr g" "\<not> g_entered g" by (auto simp: JobGroup_init_def OnError_of_def)
  have os: "order_start q gid'' d now hs' s6 = (Ready (Inr h), s7)"
    using O(1) g(2) unfolding order_start_def root_group_def g(1) sum.case rv by (simp add: group_spawn_def child_id_def R(2) assms(10))
  have oe: "order_end text q h s8 = (Ready (Inr (''order created: '' @ ?line)), s9)"
    using O(3) unfolding order_end_def R(2) assms(10) [symmetric] by (simp add: text_of_def)
  have line: "''order created: ORDER-1234 ['' @ answer @ '' | '' @ paid @ '' | '' @ shipped @ '']'' = ''order created: '' @ ?line" by simp
  have wi: "worker_iteration JSONSerializer B reg (own_race ?co) s7 = (Continue, s8)" unfolding race(3) by (rule O(2))
  have vw: "rb_records R s9 = rb_records R s" using O(4) T(17) by simp
  show ?thesis unfolding line
    by (rule exI [of _ hs], rule exI [of _ g1], rule exI [of _ s0], rule exI [of _ rs], rule exI [of _ s1], rule exI [of _ ks],
        rule exI [of _ k1], rule exI [of _ s2], rule exI [of _ s3], rule exI [of _ ks'], rule exI [of _ k2], rule exI [of _ s4],
        rule exI [of _ s5], rule exI [of _ hs'], rule exI [of _ g2], rule exI [of _ s6], rule exI [of _ h], rule exI [of _ s7],
        rule exI [of _ s8], rule exI [of _ s9])
      (intro conjI sc c3 sp T(5,6) ie(1) inv s5 T(11) ie(2) os wi oe vw)
qed

section \<open>The smallest program, run\<close>

lemma one_job_prints:
  assumes "client B valid view waiting JSONSerializer json_norm json_fits" "valid s" "waiting s = []"
    "stockroom B modname other = (r, q)" "view s i = None" "valid_datetime now"
  shows "\<exists>h s1 s2 s3. one_job q gid i now s = (Inr h, s1) \<and> one_job_printed text q h s1 = (Pending, s1) \<and>
    worker_iteration JSONSerializer B (q_task_registry q) (own_race (call q ''stockroom.units_in_stock'' [PInt 4, PInt 11] i)) s1 = (Continue, s2) \<and>
    one_job_printed text q h s2 = (Ready (Inr ''15''), s3) \<and> view s3 = view s"
proof -
  let ?t = "\<lparr>t_func = add_stock other, t_name = ''stockroom.units_in_stock'', t_max_retries = 0\<rparr>"
  have R: "q_task_registry q = [(''stockroom.units_in_stock'', ?t)]" "q_backend q = B" "q_serializer q = JSONSerializer"
    using assms(4) by (auto simp: stockroom_def queue_task_def derive_name_def Queue_init_def Let_def)
  have t: "the_task q ''stockroom.units_in_stock'' = ?t" by (simp add: the_task_def R(1))
  have race: "own_race (call q ''stockroom.units_in_stock'' [PInt 4, PInt 11] i) = Ends (JobDone (Inr (PInt 15)))"
    by (simp add: own_race_def call_def t add_stock_def)
  define j where "j = Job_init i now (t_name ?t) None [PInt 4, PInt 11] [] None"
  have j: "view s (jid j) = None" "fits_job json_fits j" using assms(5,6) by (simp_all add: j_def Job_init_def fits_job_def is_dict_def)
  have k: "map_of (q_task_registry q) (t_name ?t) \<noteq> None" "json_fits (PInt 15)" by (simp_all add: R(1))
  obtain h s1 s2 h' s3 where O: "submit JSONSerializer B ?t i now None None [PInt 4, PInt 11] [] s = (Inr h, s1)"
    "handle_result JSONSerializer B h s1 = (Pending, h, s1)"
    "worker_iteration JSONSerializer B (q_task_registry q) (Ends (JobDone (Inr (PInt 15)))) s1 = (Continue, s2)"
    "handle_result JSONSerializer B h s2 = (Ready (Inr (json_norm (PInt 15))), h', s3)" "view s3 = view s"
    using client.submit_serve_result [OF assms(1-3) j(1) j_def j(2) k] by (elim exE conjE) (rule that)
  obtain g where g: "JobGroup_init gid ''cancel_siblings'' None = Inr g" "\<not> g_entered g" by (auto simp: JobGroup_init_def OnError_of_def)
  have "one_job q gid i now s = (Inr h, s1)"
    using O(1) g(2) by (simp add: one_job_def root_group_def g(1) group_spawn_def child_id_def t R(2,3))
  moreover have "str_of_int 15 = ''15''" by code_simp
  ultimately show ?thesis
    using O(2-5) unfolding race by (intro exI [of _ h] exI [of _ s1] exI [of _ s2] exI [of _ s3])
      (simp add: one_job_printed_def R(2,3) text_of_def)
qed

end
