(* ===== verification/Spec2Isabelle.thy ===== *)
theory Spec2Isabelle
  imports Group_Properties Pool_Properties Lease_Faults Store_Spec Cli Notifier Recovery Nested_Scopes Fail_Fast Storefront
    Packing_Line Reprice Producers Checkout
begin

text \<open>
  TaskQueue (\<open>src/src/TaskQueue\<close>) is an asyncio job queue. Producers turn calls of a task into
  job records and enqueue them in a backend; workers claim records, run the task and save the
  outcome; handles wait for it. Groups tie spawned jobs to a scope. A backend is the shared state:
  \<open>MemoryBackend\<close> for one process, \<open>RedisBackend\<close> for many processes on many machines,
  where a crashed worker's leases are returned to the queue by its peers.

  \<^bold>\<open>Theories\<close>

  \<^item> \<open>Prelude\<close>, \<open>Py_Base\<close>: exceptions, fallible results, dicts, awaitables; the part of the
    language and its library that the program rests on (decimal text, repr, UTF-8, datetimes).
    A Python str is a list of code points below 256.
  \<^item> \<open>Job\<close> (\<open>job.py\<close>, \<open>serializers/interface.py\<close>): statuses, jobs, \<open>to_record\<close> and
    \<open>from_record\<close>; the locale \<open>codec\<close> is the serializer contract and gives the round trip of
    a job through its record.
  \<^item> \<open>Serializers\<close> (\<open>json_serializer.py\<close>): the JSON printer and parser, interpreted as a
    \<open>codec\<close>; the pickle serializer over the module's functions as parameters.
  \<^item> \<open>Backend_Interface\<close> (\<open>backends/interface.py\<close>): the operations as the record
    \<open>backend\<close>, their promises as the locale \<open>backend_contract\<close>.
  \<^item> \<open>Memory_Backend\<close> (\<open>backends/memory_backend.py\<close>): records, queue and event tables;
    interpreted as a \<open>backend_contract\<close>.
  \<^item> \<open>Redis_Server\<close>: the commands of the server as a parameter, their documented effect as the
    locale \<open>redis_server\<close>, and one concrete server that has it.
  \<^item> \<open>Redis_Backend\<close> (\<open>backends/redis_backend.py\<close>): every Lua script and every method, with
    faults of the connection during \<open>claim\<close>.
  \<^item> \<open>Lease_Refinement\<close>, \<open>Redis_Contract\<close>: the scripts refine operations on an abstract
    lease state (records, queue, leases, heartbeats, expiry, clock), and from that the Redis
    store meets \<open>backend_contract\<close> on every such server. The reaper's loop is a
    \<open>partial_function\<close>; that it returns is part of what is proved.
  \<^item> \<open>Lease_Protocol\<close>: any number of processes; each atomic block is a step on the server's
    state, and the invariant \<open>lease_ok\<close> holds in every run.
  \<^item> \<open>Sha1\<close>, \<open>Submission\<close> (\<open>context.py\<close>, \<open>task.py\<close>, \<open>handle.py\<close>): child ids,
    \<open>submit\<close> and handles; the locale \<open>client\<close> joins a store and a codec.
  \<^item> \<open>Worker\<close> (\<open>worker.py\<close>): running a job on every branch of the race between its body, its
    cancel watcher and a shutdown; the loop; upkeep.
  \<^item> \<open>Stores\<close>: the locale \<open>client\<close> interpreted on the two stores.
  \<^item> \<open>Store_Spec\<close>: the store as one abstract machine with a transition and an observation per
    operation; every backend that keeps the contract implements it, so the two backends are
    equivalent. Records through the wire and back; the types of stored records.
  \<^item> \<open>Job_Group\<close>, \<open>Group_Properties\<close> (\<open>job_group.py\<close>): scopes of jobs, their three modes, the
    done callback and its fan-out, and every way out of a scope, for every order in which the
    jobs end.
  \<^item> \<open>Fan_Out\<close>, \<open>Fail_Fast\<close>: a scope from end to end, composed of group, worker loops, waiters and
    handles: every mode when the jobs run to their ends, and \<open>cancel_siblings\<close> when one fails.
    \<open>Nested_Scopes\<close>: jobs that are producers themselves; cancellation reaches every level.
    \<open>Producers\<close>: a scope inside the body of a job, from end to end, and what a failure outside does to it.
  \<^item> \<open>Pool\<close> (\<open>worker.py\<close>): the liveness check, entering, the loops as state machines over one
    store, draining and leaving. \<open>Pool_Invariant\<close>: every job is in one place in every
    interleaving, proved in the locale \<open>client\<close>. \<open>Pool_Properties\<close>: no job is lost, drained pools
    stop. \<open>Pool_Leases\<close>: the pool over Redis, its margin against the reaper and a clean exit.
  \<^item> \<open>Lease_Faults\<close>: what the Redis scripts do for a worker that acts on a lease it has lost, and
    when a reply is lost.
  \<^item> \<open>Notifier\<close> (\<open>_Notifier\<close> of \<open>redis_backend.py\<close>): the shared pubsub connection as a step
    relation.
  \<^item> \<open>Queue\<close> (\<open>queue.py\<close>): task names, the registry, and that what is registered is served.
  \<^item> \<open>Arguments\<close> (\<open>build_parser\<close> of \<open>cli.py\<close>): the options of the command and how a command line
    is read against them, abbreviations, attached values, \<open>--\<close> and usage errors included.
  \<^item> \<open>Logger\<close> (\<open>logger.py\<close>): line formats and the root logger.
  \<^item> \<open>Cli\<close> (\<open>cli.py\<close>): targets, the signals and the log line of a start, the two-stage shutdown,
    exit codes.
  \<^item> \<open>Recovery\<close>: reaper, worker loops and handles composed over one Redis after a crash, and
    cancellation of a job that runs in another process.
  \<^item> \<open>Storefront\<close> (\<open>scope_semantics_tour.py\<close>), \<open>Packing_Line\<close> (\<open>worker_crash_job_reclaimed.py\<close>), \<open>Reprice\<close>
    (\<open>cancel_crosses_processes.py\<close>), \<open>Checkout\<close> (\<open>nested_scopes_cancel_on_failure.py\<close>,
    \<open>one_job_round_trip.py\<close>): the example programs under \<open>src/examples\<close> as clients of all this. A program
    is cut where it waits; what it computes and prints in between is modelled, and the theorems
    say what it prints. \<open>Packing_Line\<close> adds the commands its monitor reads Redis with, as the locale
    \<open>monitor_reads\<close>.

  \<^bold>\<open>Reading the state\<close>

  A stored record is observed as a lookup (\<open>rec_view\<close>), because only the values of its fields
  matter; \<open>job_view S j\<close> is the record of job \<open>j\<close>, so \<open>view s (jid j) = job_view S j\<close> says
  that the store holds exactly that job. An awaited call is \<open>Pending\<close> while it cannot proceed and
  \<open>Ready\<close> with its result otherwise; re-awaiting after the store changed is a second call.

  \<^bold>\<open>Bounds\<close>

  Redis counts attempts in a signed 64-bit integer, so claims are described below
  \<open>max_attempts\<close> deliveries; beyond that the claim script fails and the lease is given back.
  Turns of the worker loop are a list of races, one per turn, so the loop always ends with it.

  A pool's loops are steps that the event loop interleaves; once the pool stops running each loop
  has at most three left. Durations are exact rationals, so the comparison of the liveness check
  is exact where Python rounds the product of two floats.

  \<^bold>\<open>Environment\<close>

  How a race between a body, its cancel watcher and a shutdown ends, when waiters come back, whether a
  subscription succeeds, when signals and deadlines arrive, what importing a module yields, which
  modules a package ships, how text reads as a float and the help texts are arguments or steps of
  an environment, and the theorems hold for all of them. A loop goes on only once the body it ran
  has ended; that a cancelled body does end is up to the body.

  \<^bold>\<open>Not modelled\<close>

  The pickle module itself, log calls of the other modules,
  floats as task values, and in the example programs clocks, sleeping, subprocess handles, the time stamp
  of a printed line and the lines that only narrate. Waiting calls of the Redis
  backend are modelled as re-reads of the stored record, which is what the code decides on; the
  notifier that shortens the wait is modelled on its own.
\<close>

section \<open>The stores meet the backend contract\<close>

text \<open>(C12) The in-memory backend keeps every law of the \<open>Backend\<close> protocol: first-in first-out
  claims with a counted attempt, saves and releases that change one record, results handed out
  once, cancel requests that a finished job ignores, and errors for unknown ids.\<close>

theorem memory_meets_contract: "backend_contract MemoryBackend mem_inv mem_view m_queue"
  by (rule memory.backend_contract_axioms)

text \<open>(C11) The Redis backend keeps the same laws on every server whose commands behave as
  documented, for every backend object the constructor accepts.\<close>

theorem redis_meets_contract:
  assumes "redis_server R" "RedisBackend_init fresh rttl wttl = Inr c"
  shows "backend_contract (RedisBackend R c) (rb_valid R) (rb_records R) (rb_waiting R)"
proof -
  have "0 < result_ttl c" using assms(2) by (auto simp: RedisBackend_init_def split: if_splits)
  then have "redis_backend R c" using assms(1) by (simp add: redis_backend_def redis_backend_axioms_def)
  then show ?thesis by (rule redis_backend.meets_contract)
qed

theorem redis_meets_contract_witness:
  "backend_contract (RedisBackend mini_redis \<lparr>instance_id = ''w1'', result_ttl = 86400, worker_ttl = 30\<rparr>)
     (rb_valid mini_redis) (rb_records mini_redis) (rb_waiting mini_redis)"
  by (rule redis_meets_contract [OF mini.redis_server_axioms, of "''w1''" 86400 30])
    (simp add: RedisBackend_init_def)

section \<open>Jobs through the whole system\<close>

text \<open>(C13) One turn of a worker loop on a waiting job, for every way its body and its cancel
  watcher can end: the job is claimed with its attempt counted, and afterwards the store holds
  exactly the finished job of \<open>final_job\<close> (completed with the result; failed with the text of
  the exception, of an unserializable result or of an unknown task; cancelled), or, when the loop
  was interrupted before a terminal write, the job queued again at the tail.\<close>

theorem worker_turn_outcome:
  assumes "client B valid view waiting S canon fits" "valid s" "waiting s = jid j # q"
    "view s (jid j) = job_view S j" "job_view S j \<noteq> None" "fits_job fits j" "\<not> terminal (status j)"
    "error j = None" "0 \<le> attempts j" "attempts j < max_attempts"
    "c = j\<lparr>status := RUNNING, attempts := attempts j + 1\<rparr>"
  shows "case final_job S reg (norm_job canon c) race of
      Some j' \<Rightarrow> terminal (status j') \<and> (\<exists>s'. worker_iteration S B reg race s =
        ((if stops_loop S reg (norm_job canon c) race then Stopped CancelledError else Continue), s') \<and> valid s' \<and>
        waiting s' = q \<and> view s' = (view s)(jid j := job_view S j'))
    | None \<Rightarrow> (\<exists>s'. worker_iteration S B reg race s = (Stopped CancelledError, s') \<and> valid s' \<and>
        waiting s' = q @ [jid j] \<and> view s' = (view s)(jid j := job_view S (c\<lparr>status := QUEUED\<rparr>)))"
  by (rule client.iteration_spec [OF assms])

theorem worker_turn_outcome_witness:
  "\<exists>s'. worker_iteration JSONSerializer MemoryBackend demo_reg Interrupted demo_queued =
      (Stopped CancelledError, s') \<and> m_queue s' = [''f0'']"
proof -
  let ?j = "demo_job\<lparr>status := QUEUED\<rparr>"
  let ?c = "?j\<lparr>status := RUNNING, attempts := attempts ?j + 1\<rparr>"
  have f: "fits_job json_fits ?j" using demo_job_fits by (simp add: fits_job_def)
  then obtain m where "job_view JSONSerializer ?j = Some m" using mem_client.job_view_total by blast
  moreover have "final_job JSONSerializer demo_reg (norm_job json_norm ?c) Interrupted = None"
    by (simp add: final_job_def settled_job_def norm_job_def demo_job_def Job_init_def demo_reg_def)
  ultimately show ?thesis
    using worker_turn_outcome [OF mem_client.client_axioms demo_queued_holds(1), of ?j "[]" ?c demo_reg Interrupted]
      demo_queued_holds(2,3) f
    by (simp add: demo_job_id terminal_def max_attempts_def) (auto simp: demo_job_def Job_init_def)
qed

text \<open>(C23) A job cancelled while it waits never runs, whatever its body would have done: the turn that
  claims it stores it as cancelled and its handle raises \<open>JobCancelled\<close>, also when the loop is
  stopped after that write. Only a loop stopped before the write leaves the job undecided: it is
  back in the queue and still flagged, so the same holds of its next turn.\<close>

theorem cancelled_job_never_runs:
  assumes "client B valid view waiting S canon fits" "valid s" "waiting s = jid j # q"
    "view s (jid j) = job_view S j" "fits_job fits j" "\<not> terminal (status j)" "error j = None"
    "0 \<le> attempts j" "attempts j < max_attempts" "h_job_id h = jid j" "h_job h = None"
  shows "\<exists>s1 s2. handle_cancel B h s = (Inr (), s1) \<and>
    worker_iteration S B reg race s1 =
      ((case race of Ends _ \<Rightarrow> Continue | _ \<Rightarrow> Stopped CancelledError), s2) \<and> valid s2 \<and>
    (if race = Interrupted
     then waiting s2 = q @ [jid j] \<and> view s2 = (view s)(jid j :=
       job_view S (j\<lparr>request_cancel := True, attempts := attempts j + 1, status := QUEUED\<rparr>))
     else \<exists>h' s3. handle_result S B h s2 =
         (Ready (Inl (JobCancelled (''job '' @ py_repr (jid j) @ '' was cancelled''))), h', s3) \<and>
       view s3 = (view s)(jid j := None) \<and> waiting s3 = q \<and> valid s3)"
  by (rule client.cancel_before_claim [OF assms])

theorem cancelled_job_never_runs_witness:
  "\<exists>s1 s2 h' s3. handle_cancel MemoryBackend (JobHandle_init ''f0'') demo_queued = (Inr (), s1) \<and>
    worker_iteration JSONSerializer MemoryBackend demo_reg (Ends (JobDone (Inr PNone))) s1 = (Continue, s2) \<and>
    handle_result JSONSerializer MemoryBackend (JobHandle_init ''f0'') s2 =
      (Ready (Inl (JobCancelled (''job '' @ py_repr ''f0'' @ '' was cancelled''))), h', s3)"
proof -
  let ?j = "demo_job\<lparr>status := QUEUED\<rparr>"
  have "fits_job json_fits ?j" using demo_job_fits by (simp add: fits_job_def)
  moreover have "jid ?j = ''f0''" "error ?j = None" "attempts ?j = 0" by (simp_all add: demo_job_def Job_init_def)
  ultimately show ?thesis
    using cancelled_job_never_runs [OF mem_client.client_axioms demo_queued_holds(1), of ?j "[]" "JobHandle_init ''f0''"
        demo_reg "Ends (JobDone (Inr PNone))"] demo_queued_holds(2,3)
    by (simp add: terminal_def max_attempts_def JobHandle_init_def) blast
qed

text \<open>(C38) A task body that lets \<open>asyncio.CancelledError\<close> out, although nobody cancelled the job
  or the pool, is taken for a shutdown: the job goes back to the tail of the queue, to be run
  again, and the loop that ran it ends.\<close>

theorem cancelled_error_in_body_stops_loop:
  assumes "client B valid view waiting S canon fits" "valid s" "waiting s = jid j # q"
    "view s (jid j) = job_view S j" "fits_job fits j" "\<not> terminal (status j)"
    "error j = None" "0 \<le> attempts j" "attempts j < max_attempts" "\<not> request_cancel j"
    "map_of reg (task_name j) \<noteq> None"
  shows "\<exists>s'. worker_iteration S B reg (Ends (JobDone (Inl CancelledError))) s = (Stopped CancelledError, s') \<and>
    waiting s' = q @ [jid j] \<and>
    view s' (jid j) = job_view S (j\<lparr>attempts := attempts j + 1, status := QUEUED\<rparr>)"
proof -
  let ?c = "j\<lparr>status := RUNNING, attempts := attempts j + 1\<rparr>"
  have "job_view S j \<noteq> None" using client.job_view_total [OF assms(1,5)] by auto
  moreover have "final_job S reg (norm_job canon ?c) (Ends (JobDone (Inl CancelledError))) = None"
    using assms(10,11) by (simp add: final_job_def settled_job_def body_outcome_def norm_job_def)
  ultimately show ?thesis
    using client.iteration_spec [OF assms(1-4) _ assms(5-9) refl, of reg "Ends (JobDone (Inl CancelledError))"]
    by auto
qed

theorem cancelled_error_in_body_stops_loop_witness:
  "\<exists>s'. worker_iteration JSONSerializer MemoryBackend demo_reg (Ends (JobDone (Inl CancelledError))) demo_queued =
     (Stopped CancelledError, s') \<and> m_queue s' = [''f0'']"
proof -
  let ?j = "demo_job\<lparr>status := QUEUED\<rparr>"
  have "fits_job json_fits ?j" using demo_job_fits by (simp add: fits_job_def)
  moreover have "jid ?j = ''f0''" "error ?j = None" "attempts ?j = 0" "\<not> request_cancel ?j"
    "map_of demo_reg (task_name ?j) \<noteq> None"
    by (simp_all add: demo_job_def Job_init_def demo_reg_def)
  ultimately show ?thesis
    using cancelled_error_in_body_stops_loop [OF mem_client.client_axioms demo_queued_holds(1), of ?j "[]" demo_reg]
      demo_queued_holds(2,3)
    by (simp add: terminal_def max_attempts_def) blast
qed

section \<open>Handles and spawned jobs\<close>

text \<open>The outcome of a finished job is handed out once by the store and kept by the handle: the
  first \<open>result()\<close> returns the value or raises for a failed or cancelled job and frees the
  record; every later call on the handle gives the same answer and leaves the store alone.\<close>

lemma finished_result_once:
  assumes "client B valid view waiting S canon fits" "valid s" "fits_job fits j" "view s i = job_view S j"
    "view s i \<noteq> None" "terminal (status j)" "h_job h = None" "h_job_id h = i"
  shows "\<exists>h' s'. handle_result S B h s = (Ready (job_outcome i (norm_job canon j)), h', s') \<and> valid s' \<and>
    view s' = (view s)(i := None) \<and> waiting s' = waiting s \<and>
    (\<forall>t. handle_result S B h' t = (Ready (job_outcome i (norm_job canon j)), h', t)) \<and>
    (\<forall>t. handle_status B h' t = Inr (status j))"
  by (rule client.result_finished [OF assms])

theorem finished_result_once_witness:
  "\<exists>h' s'. handle_result JSONSerializer MemoryBackend (JobHandle_init ''f0'') demo_finished =
      (Ready (job_outcome ''f0'' (norm_job json_norm demo_failed)), h', s') \<and>
    mem_view s' ''f0'' = None \<and>
    handle_result JSONSerializer MemoryBackend h' mem_init =
      (Ready (job_outcome ''f0'' (norm_job json_norm demo_failed)), h', mem_init)"
proof -
  have t: "terminal (status demo_failed)" by (simp add: demo_failed_def terminal_def)
  have h: "h_job (JobHandle_init ''f0'') = None" "h_job_id (JobHandle_init ''f0'') = ''f0''"
    by (simp_all add: JobHandle_init_def)
  show ?thesis
    using finished_result_once [OF mem_client.client_axioms demo_finished_holds(1,3,2,4) t h] by auto
qed

text \<open>(C31) Re-running a parent is idempotent: the ids of the jobs a body spawns depend only on the
  parent's id and the ordinal of the spawn, never on the attempt, so a redelivered parent that
  spawns again gets handles on the jobs it already has and changes nothing in the store.\<close>

theorem respawn_is_idempotent:
  assumes "client B valid view waiting S canon fits" "valid s"
    "ctx_job_id first = ctx_job_id again" "ctx_spawns first = ctx_spawns again"
    "child_id (Some first) = (Some i, first')" "view s i \<noteq> None"
    "fits_job fits (Job_init fresh now (t_name t) (Some i) as ks gid)"
  shows "\<exists>again'. child_id (Some again) = (Some i, again') \<and>
    submit S B t fresh now gid (Some i) as ks s = (Inr (JobHandle_init i), s)"
proof -
  have i: "child_id (Some again) = (Some i, Some (again\<lparr>ctx_spawns := ctx_spawns again + 1\<rparr>))"
    using assms(3-5) by (simp add: child_id_def next_spawn_def)
  have "i \<noteq> []" using child_id_shape(1) [OF assms(5)] by auto
  then have "jid (Job_init fresh now (t_name t) (Some i) as ks gid) = i" by (simp add: Job_init_def)
  then show ?thesis using client.submit_known [OF assms(1,2) _ assms(7) refl] assms(6) i by auto
qed

theorem respawn_is_idempotent_witness:
  "\<exists>i again' s. child_id (Some (JobContext_init ''p'' None ''m.f'' 2)) = (Some i, again') \<and>
     submit JSONSerializer MemoryBackend demo_task [] demo_now None (Some i) [] [] s = (Inr (JobHandle_init i), s)"
proof -
  let ?c1 = "JobContext_init ''p'' None ''m.f'' 1" and ?c2 = "JobContext_init ''p'' None ''m.f'' 2"
  obtain i c' where i: "child_id (Some ?c1) = (Some i, c')" by (simp add: child_id_def next_spawn_def)
  define j where "j = Job_init [] demo_now (t_name demo_task) (Some i) [] [] None"
  have "i \<noteq> []" using child_id_shape(1) [OF i] by auto
  then have j: "jid j = i" by (simp add: j_def Job_init_def)
  have f: "fits_job json_fits j"
    by (simp add: j_def Job_init_def fits_job_def demo_now_def valid_datetime_def days_in_month_def is_leap_def is_dict_def)
  have "mem_view mem_init (jid j) = None" by (simp add: mem_view_def mem_init_def)
  from mem_client.submit_new [OF mem_inv_init this f j_def] obtain s where
    "mem_inv s" "mem_view s = (mem_view mem_init)(i := job_view JSONSerializer (j\<lparr>status := QUEUED\<rparr>))"
    using j by auto
  moreover have "job_view JSONSerializer (j\<lparr>status := QUEUED\<rparr>) \<noteq> None"
  proof -
    have "fits_job json_fits (j\<lparr>status := QUEUED\<rparr>)" using f by (simp add: fits_job_def)
    then show ?thesis using mem_client.job_view_total by blast
  qed
  ultimately have "mem_inv s" "mem_view s i \<noteq> None" by simp_all
  then show ?thesis
    using respawn_is_idempotent [OF mem_client.client_axioms, of s ?c1 ?c2 i c' "[]" demo_now demo_task "[]" "[]" None]
      i f by (auto simp: JobContext_init_def j_def)
qed

text \<open>Two spawns share a seed only when they are the same spawn of the same parent, and a
  child id is always 32 lower-case hex digits.\<close>

lemma child_ids_are_seeded_apart:
  "(child_seed p n = child_seed q k \<longleftrightarrow> p = q \<and> n = k) \<and>
   (case fst (child_id (Some c)) of None \<Rightarrow> False | Some i \<Rightarrow> length i = 32 \<and> list_all is_hex i)"
proof -
  obtain i c' where i: "child_id (Some c) = (Some i, c')" by (simp add: child_id_def next_spawn_def)
  with child_id_shape [OF i] child_seed_inj show ?thesis by (simp add: list_all_iff)
qed

end
